(* ===== verification/Prelude.thy ===== *)
theory Prelude
  imports Complex_Main "HOL-Library.Word" "HOL-Library.Log_Nat" "HOL-Library.AList"
    "HOL-Library.List_Lexorder" "HOL-Library.Multiset" "HOL-Library.Sublist"
begin

text \<open>
  Shared vocabulary of the development: computations that may throw are values of
  \<open>'e + 'a\<close>, the left side being what is thrown. \<open>on_ok\<close> continues after
  a computation, \<open>map_ok\<close> is \<open>Array.prototype.map\<close> with a callback that may
  throw; the collection \<open>ok_simps\<close> unfolds a computation that is known to have
  returned.
\<close>

named_theorems ok_simps

definition on_ok :: "'e + 'a \<Rightarrow> ('a \<Rightarrow> 'e + 'b) \<Rightarrow> 'e + 'b" where
  "on_ok v k = case_sum Inl k v"

lemma on_ok_simps [simp]:
  "on_ok (Inl e) k = Inl e"
  "on_ok (Inr x) k = k x"
  by (simp_all add: on_ok_def)

lemma on_ok_Inr [ok_simps]: "on_ok v k = Inr y \<longleftrightarrow> (\<exists>x. v = Inr x \<and> k x = Inr y)"
  by (cases v) simp_all

lemma on_ok_Inl: "on_ok v k = Inl e \<longleftrightarrow> v = Inl e \<or> (\<exists>x. v = Inr x \<and> k x = Inl e)"
  by (cases v) simp_all

lemma on_ok_cong [fundef_cong]: "v = v' \<Longrightarrow> (\<And>x. v' = Inr x \<Longrightarrow> k x = k' x) \<Longrightarrow> on_ok v k = on_ok v' k'"
  by (cases v') simp_all

lemma if_Inl_Inr [ok_simps]: "(if b then Inl e else v) = Inr y \<longleftrightarrow> \<not> b \<and> v = Inr y"
  by simp

fun map_ok :: "('a \<Rightarrow> 'e + 'b) \<Rightarrow> 'a list \<Rightarrow> 'e + 'b list" where
  "map_ok f [] = Inr []"
| "map_ok f (x # xs) = on_ok (f x) (\<lambda>y. on_ok (map_ok f xs) (\<lambda>ys. Inr (y # ys)))"

lemma map_ok_Inr [ok_simps]: "map_ok f xs = Inr ys \<longleftrightarrow> list_all2 (\<lambda>x y. f x = Inr y) xs ys"
  by (induction xs arbitrary: ys) (auto simp: on_ok_Inr list_all2_Cons1)

lemma map_ok_cong [fundef_cong]: "xs = xs' \<Longrightarrow> (\<And>x. x \<in> set xs' \<Longrightarrow> f x = f' x) \<Longrightarrow> map_ok f xs = map_ok f' xs'"
  by (induction xs' arbitrary: xs) auto

lemma map_ok_total: "(\<And>x. x \<in> set xs \<Longrightarrow> f x = Inr (g x)) \<Longrightarrow> map_ok f xs = Inr (map g xs)"
  by (induction xs) auto

section \<open>Lists\<close>

lemma filter_unique: "distinct xs \<Longrightarrow> x \<in> set xs \<Longrightarrow> (\<And>y. y \<in> set xs \<Longrightarrow> P y \<longleftrightarrow> y = x) \<Longrightarrow> filter P xs = [x]"
proof (induction xs)
  case (Cons y ys)
  show ?case
  proof (cases "y = x")
    case True
    then have "filter P ys = []" using Cons.prems by (auto simp: filter_empty_conv)
    then show ?thesis using True Cons.prems(3) [of y] by simp
  next
    case False
    then show ?thesis using Cons by simp
  qed
qed simp

end
