(* ===== verification/JsNum.thy ===== *)
theory JsNum
  imports Prelude
begin

text \<open>
  JavaScript numbers. A finite number is the rational it denotes, so every operation of the
  code is the exact operation followed by \<open>fl\<close>, the rounding of IEEE 754 binary64
  (round to nearest, ties to even, 53 significant bits, subnormals below \<open>2 powi -1022\<close>,
  overflow to an infinity). The sign of zero is not kept: no operation modelled here
  observes it (\<open>JSON.stringify\<close>, \<open>===\<close>, \<open>Map\<close> keys and
  \<open>Math.round\<close> of a magnitude treat both zeros alike).

  The last section holds the money arithmetic that the services repeat: \<open>round2\<close> of
  \<open>lib/qbo/lineWrite.ts\<close> and \<open>Math.round(Math.abs(x) * 100)\<close>, with the
  fact that a dollar amount with two decimals survives the trip through a double.
\<close>

section \<open>Rounding to binary64\<close>

datatype jsnum = Fin rat | PInf | NInf | NaN

definition floor_log2 :: "rat \<Rightarrow> int" where
  "floor_log2 x =
     (let (p, q) = quotient_of x; e = bitlen p - bitlen q
      in if x < 2 powi e then e - 1 else e)"

definition round_even :: "rat \<Rightarrow> int" where
  "round_even x =
     (let f = \<lfloor>x\<rfloor>; d = x - of_int f
      in if d < 1 / 2 then f
         else if d > 1 / 2 then f + 1
         else if even f then f else f + 1)"

definition rnd :: "rat \<Rightarrow> rat" where
  "rnd x =
     (if x = 0 then 0
      else let e = max (floor_log2 \<bar>x\<bar> - 52) (- 1074)
           in of_int (round_even (x / 2 powi e)) * 2 powi e)"

definition fl :: "rat \<Rightarrow> jsnum" where
  "fl x =
     (let r = rnd x
      in if r \<ge> 2 ^ 1024 then PInf else if r \<le> - (2 ^ 1024) then NInf else Fin r)"

lemma bitlen_powi:
  assumes "0 < (p::int)"
  shows "2 powi (bitlen p - 1) \<le> (of_int p :: rat)" and "(of_int p :: rat) < 2 powi (bitlen p)"
proof -
  have b: "0 < bitlen p"
    using assms bitlen_eq_zero_iff [of p] bitlen_nonneg [of p] by linarith
  have k: "2 ^ nat (bitlen p - 1) \<le> p" "p < 2 ^ nat (bitlen p)"
    using bitlen_bounds [OF assms] by auto
  have "(2::rat) powi (bitlen p - 1) = of_int (2 ^ nat (bitlen p - 1))"
    using b by (simp add: power_int_def)
  also have "\<dots> \<le> of_int p" using k(1) by (simp only: of_int_le_iff)
  finally show "2 powi (bitlen p - 1) \<le> (of_int p :: rat)" .
  have "(of_int p :: rat) < of_int (2 ^ nat (bitlen p))" using k(2) by (simp only: of_int_less_iff)
  also have "\<dots> = (2::rat) powi (bitlen p)" using b by (simp add: power_int_def)
  finally show "(of_int p :: rat) < 2 powi (bitlen p)" .
qed

lemma floor_log2_bounds:
  assumes "0 < x"
  shows "2 powi (floor_log2 x) \<le> x" and "x < 2 powi (floor_log2 x + 1)"
proof -
  obtain p q where pq: "quotient_of x = (p, q)" by (cases "quotient_of x")
  have q: "0 < q" using pq by (rule quotient_of_denom_pos)
  have x: "x = of_int p / of_int q" using pq by (rule quotient_of_div)
  have p: "0 < p" using assms q by (simp add: x zero_less_divide_iff)
  let ?e = "bitlen p - bitlen q"
  have up: "x < 2 powi (?e + 1)"
  proof -
    have "x < 2 powi (bitlen p) / of_int q"
      unfolding x using bitlen_powi(2) [OF p] q by (simp add: divide_strict_right_mono)
    also have "\<dots> \<le> 2 powi (bitlen p) / 2 powi (bitlen q - 1)"
      using bitlen_powi(1) [OF q] q by (intro divide_left_mono) auto
    also have "\<dots> = 2 powi (?e + 1)"
      by (simp flip: power_int_diff add: algebra_simps)
    finally show ?thesis .
  qed
  have low: "2 powi (?e - 1) \<le> x"
  proof -
    have "(2::rat) powi (?e - 1) = 2 powi (bitlen p - 1) / 2 powi (bitlen q)"
      by (simp flip: power_int_diff add: algebra_simps)
    also have "\<dots> \<le> of_int p / 2 powi (bitlen q)"
      using bitlen_powi(1) [OF p] by (intro divide_right_mono) auto
    also have "\<dots> \<le> of_int p / of_int q"
      using bitlen_powi(2) [OF q] q p by (intro divide_left_mono) auto
    finally show ?thesis by (simp add: x)
  qed
  show "2 powi (floor_log2 x) \<le> x" and "x < 2 powi (floor_log2 x + 1)"
    using up low by (auto simp: floor_log2_def pq Let_def)
qed

lemma floor_log2_less:
  assumes "0 < x" "x < 2 powi n"
  shows "floor_log2 x < n"
proof (rule ccontr)
  assume "\<not> floor_log2 x < n"
  then have "(2::rat) powi n \<le> 2 powi (floor_log2 x)" by (intro power_int_increasing) auto
  with floor_log2_bounds(1) [OF assms(1)] assms(2) show False by simp
qed

lemma floor_log2_ge:
  assumes "0 < x" "2 powi n \<le> x"
  shows "n \<le> floor_log2 x"
proof (rule ccontr)
  assume "\<not> n \<le> floor_log2 x"
  then have "(2::rat) powi (floor_log2 x + 1) \<le> 2 powi n" by (intro power_int_increasing) auto
  with floor_log2_bounds(2) [OF assms(1)] assms(2) show False by simp
qed

lemma round_even_of_int [simp]: "round_even (of_int n) = n"
  by (simp add: round_even_def)

lemma round_even_error: "\<bar>of_int (round_even x) - x\<bar> \<le> 1 / 2"
proof -
  have "of_int \<lfloor>x\<rfloor> \<le> x" "x < of_int \<lfloor>x\<rfloor> + 1" by linarith+
  then show ?thesis by (auto simp: round_even_def Let_def abs_le_iff)
qed

lemma rnd_0 [simp]: "rnd 0 = 0"
  by (simp add: rnd_def)

text \<open>Half an ulp: the relative error of a normal result is at most \<open>2 powi -53\<close>.\<close>

lemma rnd_error:
  assumes "2 powi (- 1022) \<le> \<bar>x\<bar>"
  shows "\<bar>rnd x - x\<bar> \<le> \<bar>x\<bar> / 2 ^ 53"
proof -
  have x0: "0 < \<bar>x\<bar>"
    using assms by (rule less_le_trans [rotated]) (simp add: zero_less_power_int)
  let ?l = "floor_log2 \<bar>x\<bar>"
  have "- 1022 \<le> ?l" using floor_log2_ge [OF x0 assms] .
  then have e: "max (?l - 52) (- 1074) = ?l - 52" by simp
  let ?u = "(2::rat) powi (?l - 52)"
  have u: "0 < ?u" by simp
  have r: "rnd x = of_int (round_even (x / ?u)) * ?u"
    using x0 by (simp add: rnd_def e Let_def)
  have "rnd x - x = (of_int (round_even (x / ?u)) - x / ?u) * ?u"
    using u by (simp add: r field_simps)
  then have "\<bar>rnd x - x\<bar> = \<bar>of_int (round_even (x / ?u)) - x / ?u\<bar> * ?u"
    using u by (simp add: abs_mult)
  also have "\<dots> \<le> 1 / 2 * ?u"
    using round_even_error u by (intro mult_right_mono) auto
  also have "\<dots> = 2 powi ?l / 2 ^ 53"
    by (simp add: power_int_diff)
  also have "\<dots> \<le> \<bar>x\<bar> / 2 ^ 53"
    using floor_log2_bounds(1) [OF x0] by (intro divide_right_mono) auto
  finally show ?thesis .
qed

lemma rnd_of_int:
  assumes "\<bar>n\<bar> < 2 ^ 53"
  shows "rnd (of_int n) = of_int n"
proof (cases "n = 0")
  case False
  let ?x = "of_int n :: rat"
  have x0: "0 < \<bar>?x\<bar>" using False by simp
  have "\<bar>?x\<bar> = of_int \<bar>n\<bar>" by simp
  also have "\<dots> < of_int (2 ^ 53)" using assms by (simp only: of_int_less_iff)
  also have "\<dots> = (2::rat) powi 53" by simp
  finally have "floor_log2 \<bar>?x\<bar> < 53" by (rule floor_log2_less [OF x0])
  moreover define k where "k = max (floor_log2 \<bar>?x\<bar> - 52) (- 1074)"
  ultimately have k: "k \<le> 0" by simp
  have pw: "(2::rat) powi k = inverse (2 ^ nat (- k))"
    using k by (cases "k = 0") (simp_all add: power_int_def power_one_over inverse_eq_divide)
  have d: "?x / 2 powi k = of_int (n * 2 ^ nat (- k))"
    by (simp add: pw divide_inverse)
  have "rnd ?x = of_int (round_even (?x / 2 powi k)) * 2 powi k"
    using False by (simp add: rnd_def k_def Let_def)
  also have "\<dots> = of_int (n * 2 ^ nat (- k)) * 2 powi k"
    by (simp only: d round_even_of_int)
  also have "\<dots> = ?x"
    by (simp add: pw)
  finally show ?thesis .
qed simp

lemma floor_uminus: "\<lfloor>- x\<rfloor> = (if of_int \<lfloor>x\<rfloor> = x then - \<lfloor>x\<rfloor> else - \<lfloor>x\<rfloor> - 1)" for x :: rat
proof (cases "of_int \<lfloor>x\<rfloor> = x")
  case True
  then show ?thesis by (metis floor_of_int of_int_minus)
next
  case False
  then have "of_int \<lfloor>x\<rfloor> < x" by (metis le_less of_int_floor_le)
  then have "\<lfloor>- x\<rfloor> = - \<lfloor>x\<rfloor> - 1" by (intro floor_unique) (simp_all, linarith+)
  with False show ?thesis by simp
qed

lemma round_even_uminus: "round_even (- x) = - round_even x"
proof (cases "of_int \<lfloor>x\<rfloor> = x")
  case True
  then show ?thesis by (metis of_int_minus round_even_of_int)
next
  case False
  then show ?thesis by (auto simp: round_even_def Let_def floor_uminus)
qed

lemma rnd_uminus: "rnd (- x) = - rnd x"
  by (simp add: rnd_def Let_def round_even_uminus)

lemma rnd_nonneg: "0 \<le> x \<Longrightarrow> 0 \<le> rnd x"
proof -
  assume x: "0 \<le> x"
  have "0 \<le> round_even y" if "0 \<le> y" for y
  proof -
    have "0 \<le> \<lfloor>y\<rfloor>" using that by simp
    then show ?thesis by (simp add: round_even_def Let_def)
  qed
  then show ?thesis using x by (simp add: rnd_def Let_def)
qed

lemma rnd_abs: "rnd \<bar>x\<bar> = \<bar>rnd x\<bar>"
proof (cases "0 \<le> x")
  case False
  then have "0 \<le> rnd (- x)" by (intro rnd_nonneg) simp
  with False show ?thesis by (simp add: rnd_uminus)
qed (simp add: rnd_nonneg)

section \<open>The operations the code uses\<close>

text \<open>
  Products and quotients occur in the code with one positive finite literal operand only
  (\<open>* 100\<close>, \<open>/ 100\<close>, \<open>* 0.02\<close>); \<open>c\<close> is that literal's value.
\<close>

fun js_times :: "jsnum \<Rightarrow> rat \<Rightarrow> jsnum" where
  "js_times (Fin x) c = fl (x * c)"
| "js_times v c = v"

fun js_over :: "jsnum \<Rightarrow> rat \<Rightarrow> jsnum" where
  "js_over (Fin x) c = fl (x / c)"
| "js_over v c = v"

fun js_add :: "jsnum \<Rightarrow> jsnum \<Rightarrow> jsnum" where
  "js_add (Fin x) (Fin y) = fl (x + y)"
| "js_add NaN v = NaN"
| "js_add v NaN = NaN"
| "js_add PInf NInf = NaN"
| "js_add NInf PInf = NaN"
| "js_add PInf v = PInf"
| "js_add NInf v = NInf"
| "js_add v PInf = PInf"
| "js_add v NInf = NInf"

fun js_abs :: "jsnum \<Rightarrow> jsnum" where
  "js_abs (Fin x) = Fin \<bar>x\<bar>"
| "js_abs NInf = PInf"
| "js_abs v = v"

text \<open>\<open>Math.round\<close>: the nearest integer, ties towards \<open>+\<infinity>\<close>.\<close>

fun js_round :: "jsnum \<Rightarrow> jsnum" where
  "js_round (Fin x) = Fin (of_int \<lfloor>x + 1 / 2\<rfloor>)"
| "js_round v = v"

fun is_finite :: "jsnum \<Rightarrow> bool" where
  "is_finite (Fin x) = True"
| "is_finite v = False"

fun is_integer :: "jsnum \<Rightarrow> bool" where
  "is_integer (Fin x) = (of_int \<lfloor>x\<rfloor> = x)"
| "is_integer v = False"

fun is_safe_integer :: "jsnum \<Rightarrow> bool" where
  "is_safe_integer (Fin x) = (of_int \<lfloor>x\<rfloor> = x \<and> \<bar>x\<bar> \<le> 2 ^ 53 - 1)"
| "is_safe_integer v = False"

section \<open>Money: dollars and cents\<close>

definition round2 :: "jsnum \<Rightarrow> jsnum" where
  "round2 v = js_over (js_round (js_times v 100)) 100"

definition to_cents :: "jsnum \<Rightarrow> jsnum" where
  "to_cents v = js_round (js_times (js_abs v) 100)"

text \<open>The double that the decimal \<open>c / 100\<close> is parsed to.\<close>

definition dollars :: "int \<Rightarrow> jsnum" where
  "dollars c = fl (of_int c / 100)"

lemma fl_small:
  assumes "\<bar>rnd x\<bar> < 2 ^ 1024"
  shows "fl x = Fin (rnd x)"
  using assms by (auto simp: fl_def Let_def abs_less_iff)

lemma rnd_near:
  assumes "1 / 200 \<le> \<bar>x\<bar>"
  shows "\<bar>rnd x - x\<bar> \<le> \<bar>x\<bar> / 2 ^ 53"
proof (rule rnd_error)
  have "(2::rat) powi (- 1022) \<le> 2 powi (- 8)" by (intro power_int_increasing) auto
  also have "\<dots> \<le> 1 / 200" by (simp add: power_int_def power_one_over)
  finally show "2 powi (- 1022) \<le> \<bar>x\<bar>" using assms by linarith
qed

lemma fl_near:
  assumes "1 / 200 \<le> \<bar>x\<bar>" "\<bar>x\<bar> \<le> 2 ^ 60"
  shows "fl x = Fin (rnd x)"
proof (rule fl_small)
  have "\<bar>rnd x - x\<bar> \<le> \<bar>x\<bar> / 2 ^ 53" by (rule rnd_near [OF assms(1)])
  also have "\<dots> \<le> \<bar>x\<bar> / 1" by (intro divide_left_mono) auto
  finally have "\<bar>rnd x\<bar> \<le> 2 * \<bar>x\<bar>" by linarith
  also have "\<dots> \<le> 2 ^ 61" using assms(2) by simp
  also have "\<dots> < (2::rat) ^ 1024" by simp
  finally show "\<bar>rnd x\<bar> < 2 ^ 1024" .
qed

text \<open>
  A value within an eighth of a nonzero integer of moderate size rounds, in binary64 and then
  by \<open>Math.round\<close>, to that integer.
\<close>

lemma round_near_int:
  assumes n: "n \<noteq> 0" "\<bar>n\<bar> \<le> 2 ^ 50" and z: "\<bar>z - of_int n\<bar> \<le> 1 / 8"
  shows "js_round (fl z) = Fin (of_int n)"
proof -
  have n1: "1 \<le> \<bar>of_int n :: rat\<bar>" using n(1) by (simp flip: of_int_abs)
  have "(of_int \<bar>n\<bar> :: rat) \<le> of_int (2 ^ 50)" using n(2) by (simp only: of_int_le_iff)
  then have n2: "\<bar>of_int n :: rat\<bar> \<le> 1125899906842624" by simp
  have z1: "1 / 200 \<le> \<bar>z\<bar>" "\<bar>z\<bar> \<le> 1125899906842625" using n1 n2 z by linarith+
  have f: "fl z = Fin (rnd z)" using z1 by (intro fl_near) auto
  have "\<bar>rnd z - z\<bar> \<le> \<bar>z\<bar> / 9007199254740992" using rnd_near [OF z1(1)] by simp
  also have "\<dots> \<le> 1 / 7" using z1(2) by simp
  finally have "\<bar>rnd z - of_int n\<bar> < 1 / 2" using z by linarith
  then have "\<lfloor>rnd z + 1 / 2\<rfloor> = n" by linarith
  then show ?thesis by (simp add: f)
qed

text \<open>The double nearest to \<open>c / 100\<close>, times 100, is within an eighth of \<open>c\<close>.\<close>

lemma dollars_near:
  assumes c: "c \<noteq> 0" "\<bar>c\<bar> \<le> 2 ^ 50"
  obtains d where "dollars c = Fin d" "\<bar>d * 100 - of_int c\<bar> \<le> 1 / 8"
proof -
  let ?x = "of_int c / 100 :: rat"
  have c1: "1 \<le> \<bar>of_int c :: rat\<bar>" using c(1) by (simp flip: of_int_abs)
  have "(of_int \<bar>c\<bar> :: rat) \<le> of_int (2 ^ 50)" using c(2) by (simp only: of_int_le_iff)
  then have c2: "\<bar>of_int c :: rat\<bar> \<le> 1125899906842624" by simp
  have ax: "\<bar>?x\<bar> = \<bar>of_int c\<bar> / 100" by simp
  have x: "1 / 200 \<le> \<bar>?x\<bar>" "\<bar>?x\<bar> \<le> 2 ^ 60" using c1 c2 unfolding ax by auto
  have "\<bar>rnd ?x - ?x\<bar> \<le> \<bar>of_int c\<bar> / 100 / 9007199254740992"
    using rnd_near [OF x(1)] unfolding ax by simp
  also have "\<dots> \<le> 1 / 800" using c2 by simp
  finally have "\<bar>(rnd ?x - ?x) * 100\<bar> \<le> 1 / 8" unfolding abs_mult by simp
  then have "\<bar>rnd ?x * 100 - of_int c\<bar> \<le> 1 / 8" by (simp add: left_diff_distrib)
  moreover have "dollars c = Fin (rnd ?x)"
    unfolding dollars_def using x by (rule fl_near)
  ultimately show thesis by (rule that [rotated])
qed

lemma floor_half [simp]: "\<lfloor>1 / 2 :: rat\<rfloor> = 0"
  by (simp add: floor_eq_iff)

lemma dollars_0 [simp]: "dollars 0 = Fin 0"
  by (simp add: dollars_def fl_def)

lemma js_round_times_dollars:
  assumes "\<bar>c\<bar> \<le> 2 ^ 50"
  shows "js_round (js_times (dollars c) 100) = Fin (of_int c)"
proof (cases "c = 0")
  case False
  then obtain d where "dollars c = Fin d" "\<bar>d * 100 - of_int c\<bar> \<le> 1 / 8"
    by (rule dollars_near [OF _ assms])
  with False assms show ?thesis by (simp add: round_near_int)
qed (simp add: fl_def)

lemma to_cents_dollars:
  assumes "\<bar>c\<bar> \<le> 2 ^ 50"
  shows "to_cents (dollars c) = Fin (of_int \<bar>c\<bar>)"
proof (cases "c = 0")
  case False
  then obtain d where d: "dollars c = Fin d" "\<bar>d * 100 - of_int c\<bar> \<le> 1 / 8"
    by (rule dollars_near [OF _ assms])
  then have "\<bar>\<bar>d\<bar> * 100 - of_int \<bar>c\<bar>\<bar> \<le> 1 / 8" by (simp add: abs_if split: if_splits)
  with False assms d show ?thesis by (simp add: round_near_int to_cents_def del: of_int_abs)
qed (simp add: to_cents_def fl_def)

lemma round2_dollars: "\<bar>c\<bar> \<le> 2 ^ 50 \<Longrightarrow> round2 (dollars c) = dollars c"
  by (simp add: round2_def js_round_times_dollars) (simp add: dollars_def)

lemma fl_of_int:
  assumes "\<bar>n\<bar> < 2 ^ 53"
  shows "fl (of_int n) = Fin (of_int n)"
proof -
  have "(of_int \<bar>n\<bar> :: rat) < of_int (2 ^ 53)" using assms by (simp only: of_int_less_iff)
  also have "\<dots> < (2::rat) ^ 1024" by simp
  finally show ?thesis using assms by (subst fl_small) (simp_all add: rnd_of_int)
qed

lemma dollars_finite:
  assumes "\<bar>c\<bar> \<le> 2 ^ 50"
  obtains d where "dollars c = Fin d" "\<bar>d\<bar> \<le> 2 ^ 50"
proof (cases "c = 0")
  case True
  then show ?thesis using that [of 0] by simp
next
  case False
  then obtain d where d: "dollars c = Fin d" "\<bar>d * 100 - of_int c\<bar> \<le> 1 / 8"
    by (rule dollars_near [OF _ assms])
  have "(of_int \<bar>c\<bar> :: rat) \<le> of_int (2 ^ 50)" using assms by (simp only: of_int_le_iff)
  then have "\<bar>of_int c :: rat\<bar> \<le> 1125899906842624" by simp
  then have "\<bar>d\<bar> \<le> 1125899906842624" using d(2) by linarith
  then have "\<bar>d\<bar> \<le> 2 ^ 50" by simp
  then show ?thesis using d(1) that by blast
qed

lemma js_abs_dollars:
  assumes "\<bar>c\<bar> \<le> 2 ^ 50"
  shows "js_abs (dollars c) = dollars \<bar>c\<bar>"
proof -
  obtain d where d: "dollars c = Fin d" "\<bar>d\<bar> \<le> 2 ^ 50" using assms by (rule dollars_finite)
  obtain b where b: "dollars \<bar>c\<bar> = Fin b" using assms dollars_finite [of "\<bar>c\<bar>"] by auto
  have "d = rnd (of_int c / 100)" "b = rnd \<bar>of_int c / 100\<bar>"
    using d(1) b by (auto simp: dollars_def fl_def Let_def split: if_splits)
  then have "b = \<bar>d\<bar>" by (simp only: rnd_abs)
  then show ?thesis using d(1) b by simp
qed

lemma is_finite_dollars: "\<bar>c\<bar> \<le> 2 ^ 50 \<Longrightarrow> is_finite (dollars c)"
  by (erule dollars_finite) simp

text \<open>The number test of \<open>assertJsonValue\<close>: finite, and safe where integral.\<close>

definition json_number :: "jsnum \<Rightarrow> bool" where
  "json_number v \<longleftrightarrow> is_finite v \<and> (is_integer v \<longrightarrow> is_safe_integer v)"

lemma json_number_dollars: "\<bar>c\<bar> \<le> 2 ^ 50 \<Longrightarrow> json_number (dollars c)"
  by (erule dollars_finite) (simp add: json_number_def)

lemmas dollars_simps = to_cents_dollars round2_dollars js_abs_dollars is_finite_dollars
  json_number_dollars js_round_times_dollars

end
