(* ===== verification/JsText.thy ===== *)
theory JsText
  imports JsNum
begin

text \<open>
  JavaScript strings: sequences of UTF-16 code units, compared with \<open><\<close> code unit by
  code unit (the lexicographic order of \<open>List_Lexorder\<close>). Holds the literals, the
  string functions of the standard library that the code calls (\<open>trim\<close>,
  \<open>JSON.stringify\<close> of a string and of a number) and the surrogate check of
  \<open>lib/qbo/lineWrite.ts\<close>.
\<close>

section \<open>Code units and literals\<close>

type_synonym unit16 = "16 word"
type_synonym jstring = "unit16 list"

definition js :: "string \<Rightarrow> jstring" where
  "js s = map (\<lambda>c. of_nat (of_char c)) s"

lemma unat_of_char: "unat (of_nat (of_char c) :: unit16) = of_char c"
proof -
  have "(of_char c :: nat) < 65536"
    by (rule less_trans [OF nat_of_char_less_256]) simp
  then show ?thesis by (simp add: unat_of_nat)
qed

lemma js_eq_iff [simp]: "js s = js t \<longleftrightarrow> s = t"
proof -
  have "inj (\<lambda>c. of_nat (of_char c) :: unit16)"
    by (rule injI) (metis of_char_eq_iff unat_of_char)
  then show ?thesis by (simp only: js_def inj_map_eq_map)
qed

lemma js_Nil [simp]: "js s = [] \<longleftrightarrow> s = []" "[] = js s \<longleftrightarrow> s = []"
  by (auto simp: js_def)

lemma length_js [simp]: "length (js s) = length s"
  by (simp add: js_def)

lemma js_append: "js (s @ t) = js s @ js t"
  by (simp add: js_def)

text \<open>Literals compare as their characters do.\<close>

lemma js_le [simp]:
  "js [] \<le> js t" "\<not> js (c # s) \<le> js []"
  "js (c # s) \<le> js (d # t) \<longleftrightarrow> (of_char c :: nat) < of_char d \<or> c = d \<and> js s \<le> js t"
proof -
  have "(of_nat (of_char c) :: unit16) < of_nat (of_char d) \<longleftrightarrow> (of_char c :: nat) < of_char d"
    by (simp add: word_less_nat_alt unat_of_char)
  moreover have "(of_nat (of_char c) :: unit16) = of_nat (of_char d) \<longleftrightarrow> c = d"
    by (metis of_char_eq_iff unat_of_char)
  ultimately show "js (c # s) \<le> js (d # t) \<longleftrightarrow> (of_char c :: nat) < of_char d \<or> c = d \<and> js s \<le> js t"
    by (simp add: js_def)
qed (simp_all add: js_def)

section \<open>String functions of the standard library\<close>

definition is_ws :: "unit16 \<Rightarrow> bool" where
  "is_ws c \<longleftrightarrow> (9 \<le> c \<and> c \<le> 13) \<or> c = 32 \<or> c = 0xa0 \<or> c = 0x1680 \<or> (0x2000 \<le> c \<and> c \<le> 0x200a)
     \<or> c = 0x2028 \<or> c = 0x2029 \<or> c = 0x202f \<or> c = 0x205f \<or> c = 0x3000 \<or> c = 0xfeff"

definition trim :: "jstring \<Rightarrow> jstring" where
  "trim s = rev (dropWhile is_ws (rev (dropWhile is_ws s)))"

lemma trim_eq_Nil: "trim s = [] \<longleftrightarrow> (\<forall>c \<in> set s. is_ws c)"
proof
  assume "trim s = []"
  then have "\<forall>c \<in> set (dropWhile is_ws s). is_ws c" by (simp add: trim_def dropWhile_eq_Nil_conv)
  then have "dropWhile is_ws s = []" using hd_dropWhile [of is_ws s] by (metis list.set_sel(1))
  then show "\<forall>c \<in> set s. is_ws c" by (simp only: dropWhile_eq_Nil_conv)
next
  assume "\<forall>c \<in> set s. is_ws c"
  then have "dropWhile is_ws s = []" by (simp only: dropWhile_eq_Nil_conv)
  then show "trim s = []" by (simp only: trim_def rev.simps dropWhile.simps)
qed

text \<open>\<open>assertWellFormedUnicode\<close>: every surrogate is half of a pair.\<close>

fun well_formed_unicode :: "jstring \<Rightarrow> bool" where
  "well_formed_unicode [] = True"
| "well_formed_unicode (c # cs) =
     (if 0xd800 \<le> c \<and> c \<le> 0xdbff
      then (case cs of [] \<Rightarrow> False
            | n # rest \<Rightarrow> \<not> (n < 0xdc00 \<or> n > 0xdfff) \<and> well_formed_unicode rest)
      else \<not> (0xdc00 \<le> c \<and> c \<le> 0xdfff) \<and> well_formed_unicode cs)"

lemma of_char_unit_less: "(of_nat (of_char c) :: unit16) < 0x100"
  using nat_of_char_less_256 [of c] by (simp add: word_less_nat_alt unat_of_char)

lemma well_formed_js [simp]: "well_formed_unicode (js s)"
proof (induction s)
  case (Cons c s)
  have "\<not> (0xd800 \<le> (of_nat (of_char c) :: unit16))" "\<not> (0xdc00 \<le> (of_nat (of_char c) :: unit16))"
    using of_char_unit_less [of c] by (auto simp: word_le_nat_alt word_less_nat_alt)
  with Cons show ?case by (simp add: js_def)
qed (simp add: js_def)

section \<open>\<open>JSON.stringify\<close> of strings and numbers\<close>

definition hex_digit :: "nat \<Rightarrow> unit16" where
  "hex_digit n = (if n < 10 then of_nat (48 + n) else of_nat (87 + n))"

definition u_escape :: "unit16 \<Rightarrow> jstring" where
  "u_escape c =
     (let n = unat c
      in [92, 117] @ map hex_digit [n div 4096, n div 256 mod 16, n div 16 mod 16, n mod 16])"

definition quote_unit :: "unit16 \<Rightarrow> jstring" where
  "quote_unit c =
     (if c = 8 then [92, 98] else if c = 9 then [92, 116] else if c = 10 then [92, 110]
      else if c = 12 then [92, 102] else if c = 13 then [92, 114]
      else if c = 34 \<or> c = 92 then [92, c]
      else if c < 32 then u_escape c
      else [c])"

text \<open>A surrogate is copied when it is half of a pair and escaped when it is not.\<close>

fun quote_units :: "jstring \<Rightarrow> jstring" where
  "quote_units [] = []"
| "quote_units (c # cs) =
     (if 0xd800 \<le> c \<and> c \<le> 0xdbff
      then (case cs of [] \<Rightarrow> u_escape c
            | n # rest \<Rightarrow>
                if 0xdc00 \<le> n \<and> n \<le> 0xdfff then c # n # quote_units rest
                else u_escape c @ quote_units cs)
      else if 0xdc00 \<le> c \<and> c \<le> 0xdfff then u_escape c @ quote_units cs
      else quote_unit c @ quote_units cs)"

definition quote :: "jstring \<Rightarrow> jstring" where
  "quote s = [34] @ quote_units s @ [34]"

text \<open>
  \<open>Number::toString\<close>: the fewest significant digits that round to the number. The
  number is \<open>s * 10 powi (n - k)\<close> with \<open>k\<close> digits \<open>s\<close>;
  \<open>shortest_from\<close> tries \<open>k = 1, 2, \<dots>\<close> and takes, for the first
  \<open>k\<close> with a candidate, the one nearest to the number (17 digits always suffice).
\<close>

function dec_digits :: "int \<Rightarrow> jstring" where
  "dec_digits n = (if n < 10 then [of_int (48 + n)] else dec_digits (n div 10) @ [of_int (48 + n mod 10)])"
  by pat_completeness auto
termination
  by (relation "measure nat") auto

declare dec_digits.simps [simp del]

definition dec_exponent :: "rat \<Rightarrow> int" where
  "dec_exponent x =
     (let (p, q) = quotient_of x;
          e = int (length (dec_digits p)) - int (length (dec_digits q))
      in if x < 10 powi e then e else e + 1)"

definition digits_of_length :: "rat \<Rightarrow> int \<Rightarrow> nat \<Rightarrow> int list" where
  "digits_of_length x n k =
     (let u = 10 powi (n - int k); lo = \<lfloor>x / u\<rfloor>;
          near = (if x / u - of_int lo \<le> 1 / 2 then [lo, lo + 1] else [lo + 1, lo])
      in filter (\<lambda>s. rnd (of_int s * u) = x) near)"

fun shortest_from :: "nat \<Rightarrow> rat \<Rightarrow> int \<Rightarrow> nat \<Rightarrow> int \<times> nat" where
  "shortest_from 0 x n k = (\<lfloor>x / 10 powi (n - int k)\<rfloor>, k)"
| "shortest_from (Suc fuel) x n k =
     (case digits_of_length x n k of
        s # _ \<Rightarrow> (s, k)
      | [] \<Rightarrow> shortest_from fuel x n (Suc k))"

definition zeros :: "int \<Rightarrow> jstring" where
  "zeros n = replicate (nat n) 48"

definition positive_text :: "rat \<Rightarrow> jstring" where
  "positive_text x =
     (let n0 = dec_exponent x; (s0, k0) = shortest_from 17 x n0 1;
          (s, k, n) = (if s0 = 10 ^ k0 then (1, 1, n0 + 1) else (s0, k0, n0));
          ds = dec_digits s
      in if int k \<le> n \<and> n \<le> 21 then ds @ zeros (n - int k)
         else if 0 < n \<and> n \<le> 21 then take (nat n) ds @ js ''.'' @ drop (nat n) ds
         else if - 6 < n \<and> n \<le> 0 then js ''0.'' @ zeros (- n) @ ds
         else (let e = n - 1;
                   et = js ''e'' @ (if e < 0 then js ''-'' else js ''+'') @ dec_digits \<bar>e\<bar>
               in if k = 1 then ds @ et else take 1 ds @ js ''.'' @ drop 1 ds @ et))"

fun number_text :: "jsnum \<Rightarrow> jstring" where
  "number_text (Fin x) =
     (if x = 0 then js ''0''
      else if x < 0 then js ''-'' @ positive_text (- x) else positive_text x)"
| "number_text v = js ''null''"

end
