(* ===== verification/Json.thy ===== *)
theory Json
  imports JsText
begin

text \<open>
  JSON values as \<open>lib/qbo/lineWrite.ts\<close> validates, serializes and hashes them.
  An object is the list of its own properties in creation order. A value that is not plain
  JSON data (\<open>undefined\<close>, a function, a cyclic reference, an object with a foreign
  prototype, an accessor or a symbol key, an array with holes or extra properties) is
  \<open>JExotic\<close> with the error \<open>assertJsonValue\<close> reports for it.
\<close>

section \<open>Values and property access\<close>

datatype json_error =
    MalformedUnicode | InvalidJsonNumber | NotJsonValue | CyclicValue
  | NotPlainArray | ArrayProperties | NotDataProperty | NotPlainObject | SymbolProperty

datatype json =
    JNull | JBool bool | JNum jsnum | JStr jstring
  | JArr "json list" | JObj "(jstring \<times> json) list" | JExotic json_error

type_synonym fields = "(jstring \<times> json) list"

fun is_record :: "json \<Rightarrow> bool" where
  "is_record (JObj fs) = True"
| "is_record v = False"

text \<open>
  \<open>v.key\<close> for a value that is not \<open>null\<close> (only objects have the keys the
  code reads), and \<open>v?.key\<close>; \<open>None\<close> is \<open>undefined\<close>.
\<close>

fun get :: "json \<Rightarrow> string \<Rightarrow> json option" where
  "get (JObj fs) k = map_of fs (js k)"
| "get v k = None"

definition chain :: "json option \<Rightarrow> string \<Rightarrow> json option" where
  "chain v k = Option.bind v (\<lambda>u. get u k)"

text \<open>The items of a value where the code takes \<open>[]\<close> for what is not an array.\<close>

fun array_items :: "json option \<Rightarrow> json list" where
  "array_items (Some (JArr xs)) = xs"
| "array_items v = []"

text \<open>Object spread of a detail, assignment of a property, deletion of a property.\<close>

fun spread :: "json option \<Rightarrow> fields" where
  "spread (Some (JObj fs)) = fs"
| "spread v = []"

definition set_field :: "string \<Rightarrow> json \<Rightarrow> fields \<Rightarrow> fields" where
  "set_field k v fs = AList.update (js k) v fs"

definition delete_field :: "string \<Rightarrow> fields \<Rightarrow> fields" where
  "delete_field k fs = AList.delete (js k) fs"

lemma map_of_set_field [simp]:
  "map_of (set_field k v fs) x = (if x = js k then Some v else map_of fs x)"
  by (simp add: set_field_def update_conv')

lemma map_of_delete_field [simp]:
  "map_of (delete_field k fs) x = (if x = js k then None else map_of fs x)"
  by (simp add: delete_field_def delete_conv')

lemma distinct_set_field [simp]:
  "distinct (map fst fs) \<Longrightarrow> distinct (map fst (set_field k v fs))"
  by (simp add: set_field_def distinct_update)

lemma distinct_delete_field [simp]:
  "distinct (map fst fs) \<Longrightarrow> distinct (map fst (delete_field k fs))"
  by (simp add: delete_field_def distinct_delete)

text \<open>
  The functions on values recurse through the members of arrays and objects; each is a group
  of three (value, items, fields) that descends in \<open>json_rank\<close>.
\<close>

definition json_rank :: "json + json list + fields \<Rightarrow> nat" where
  "json_rank = case_sum size (case_sum (size_list size) (size_list (\<lambda>f. Suc (size (snd f)))))"

lemma size_fields: "size_list (size_prod (\<lambda>x. 0) size) fs = size_list (\<lambda>f. Suc (size (snd f))) fs"
  by (induction fs) auto

section \<open>\<open>assertJsonValue\<close>\<close>

text \<open>The first fault in traversal order, \<open>None\<close> when the value is accepted.\<close>

function json_fault :: "json \<Rightarrow> json_error option"
  and items_fault :: "json list \<Rightarrow> json_error option"
  and fields_fault :: "fields \<Rightarrow> json_error option"
where
  "json_fault JNull = None"
| "json_fault (JBool b) = None"
| "json_fault (JStr s) = (if well_formed_unicode s then None else Some MalformedUnicode)"
| "json_fault (JNum v) = (if json_number v then None else Some InvalidJsonNumber)"
| "json_fault (JArr xs) = items_fault xs"
| "json_fault (JObj fs) = fields_fault fs"
| "json_fault (JExotic e) = Some e"
| "items_fault [] = None"
| "items_fault (x # xs) = (case json_fault x of None \<Rightarrow> items_fault xs | Some e \<Rightarrow> Some e)"
| "fields_fault [] = None"
| "fields_fault (f # fs) =
     (if \<not> well_formed_unicode (fst f) then Some MalformedUnicode
      else case json_fault (snd f) of None \<Rightarrow> fields_fault fs | Some e \<Rightarrow> Some e)"
  by pat_completeness auto
termination
  by (relation "measure json_rank") (auto simp: json_rank_def size_fields)

abbreviation json_ok :: "json \<Rightarrow> bool" where
  "json_ok v \<equiv> json_fault v = None"

lemma items_fault_None [simp]: "items_fault xs = None \<longleftrightarrow> (\<forall>x \<in> set xs. json_ok x)"
  by (induction xs) (auto split: option.splits)

lemma fields_fault_None [simp]:
  "fields_fault fs = None \<longleftrightarrow> (\<forall>(k, v) \<in> set fs. well_formed_unicode k \<and> json_ok v)"
  by (induction fs) (auto split: option.splits)

section \<open>\<open>canonicalJson\<close>\<close>

fun commas :: "jstring list \<Rightarrow> jstring" where
  "commas [] = []"
| "commas [x] = x"
| "commas (x # xs) = x @ js '','' @ commas xs"

text \<open>
  Keys are sorted by code units. \<open>canonical_fields\<close> serializes the members of an
  object, which \<open>canonical\<close> then puts in key order.
\<close>

function canonical :: "json \<Rightarrow> jstring"
  and canonical_items :: "json list \<Rightarrow> jstring list"
  and canonical_fields :: "fields \<Rightarrow> (jstring \<times> jstring) list"
where
  "canonical JNull = js ''null''"
| "canonical (JBool b) = (if b then js ''true'' else js ''false'')"
| "canonical (JNum v) = number_text v"
| "canonical (JStr s) = quote s"
| "canonical (JExotic e) = js ''undefined''"
| "canonical (JArr xs) = js ''['' @ commas (canonical_items xs) @ js '']''"
| "canonical (JObj fs) =
     js ''{'' @ commas (map (\<lambda>(k, t). quote k @ js '':'' @ t) (sort_key fst (canonical_fields fs)))
     @ js ''}''"
| "canonical_items [] = []"
| "canonical_items (x # xs) = canonical x # canonical_items xs"
| "canonical_fields [] = []"
| "canonical_fields (f # fs) = (fst f, canonical (snd f)) # canonical_fields fs"
  by pat_completeness auto
termination
  by (relation "measure json_rank") (auto simp: json_rank_def size_fields)

lemma canonical_items_map: "canonical_items xs = map canonical xs"
  by (induction xs) auto

lemma canonical_fields_map: "canonical_fields fs = map (\<lambda>f. (fst f, canonical (snd f))) fs"
  by (induction fs) auto

lemma sort_key_map:
  fixes f :: "'b \<Rightarrow> 'k::linorder"
  shows "sort_key f (map g xs) = map g (sort_key (\<lambda>x. f (g x)) xs)"
proof -
  have "insort_key f (g x) (map g ys) = map g (insort_key (\<lambda>x. f (g x)) x ys)" for x ys
    by (induction ys) auto
  then show ?thesis by (induction xs) (auto simp: sort_key_def)
qed

lemma canonical_obj:
  "canonical (JObj fs) =
     js ''{'' @ commas (map (\<lambda>f. quote (fst f) @ js '':'' @ canonical (snd f)) (sort_key fst fs)) @ js ''}''"
  by (simp add: canonical_fields_map sort_key_map comp_def)

lemma canonical_arr: "canonical (JArr xs) = js ''['' @ commas (map canonical xs) @ js '']''"
  by (simp add: canonical_items_map)

declare canonical.simps(6) [simp del] canonical.simps(7) [simp del]
declare canonical_arr [simp] canonical_obj [simp]

text \<open>Objects are compared up to the order of their keys: the normal form sorts them.\<close>

function normal :: "json \<Rightarrow> json"
  and normal_items :: "json list \<Rightarrow> json list"
  and normal_fields :: "fields \<Rightarrow> fields"
where
  "normal JNull = JNull"
| "normal (JBool b) = JBool b"
| "normal (JNum v) = JNum v"
| "normal (JStr s) = JStr s"
| "normal (JExotic e) = JExotic e"
| "normal (JArr xs) = JArr (normal_items xs)"
| "normal (JObj fs) = JObj (sort_key fst (normal_fields fs))"
| "normal_items [] = []"
| "normal_items (x # xs) = normal x # normal_items xs"
| "normal_fields [] = []"
| "normal_fields (f # fs) = (fst f, normal (snd f)) # normal_fields fs"
  by pat_completeness auto
termination
  by (relation "measure json_rank") (auto simp: json_rank_def size_fields)

lemma normal_items_map: "normal_items xs = map normal xs"
  by (induction xs) auto

lemma normal_fields_map: "normal_fields fs = map (\<lambda>f. (fst f, normal (snd f))) fs"
  by (induction fs) auto

lemma normal_obj: "normal (JObj fs) = JObj (map (\<lambda>f. (fst f, normal (snd f))) (sort_key fst fs))"
  by (simp add: normal_fields_map sort_key_map comp_def)

lemma normal_arr: "normal (JArr xs) = JArr (map normal xs)"
  by (simp add: normal_items_map)

declare normal.simps(6) [simp del] normal.simps(7) [simp del]
declare normal_arr [simp] normal_obj [simp]

lemma json_induct [case_names Null Bool Num Str Exotic Arr Obj]:
  assumes "P JNull" "\<And>b. P (JBool b)" "\<And>v. P (JNum v)" "\<And>s. P (JStr s)" "\<And>e. P (JExotic e)"
    and "\<And>xs. (\<And>x. x \<in> set xs \<Longrightarrow> P x) \<Longrightarrow> P (JArr xs)"
    and "\<And>fs. (\<And>k v. (k, v) \<in> set fs \<Longrightarrow> P v) \<Longrightarrow> P (JObj fs)"
  shows "P v"
proof (induction v rule: json.induct)
  case (JObj fs)
  then show ?case by (intro assms(7)) (auto simp: snds.simps)
qed (auto intro: assms)

lemma sort_key_sort_map:
  "sort_key fst (map (\<lambda>f. (fst f, g (snd f))) (sort_key fst fs)) = map (\<lambda>f. (fst f, g (snd f))) (sort_key fst fs)"
  by (simp add: sort_key_map sort_key_id_if_sorted)

lemma canonical_normal [simp]: "canonical (normal v) = canonical v"
proof (induction v rule: json_induct)
  case (Arr xs)
  then have "map canonical (map normal xs) = map canonical xs" by simp
  then show ?case by (simp only: canonical_arr normal_arr)
next
  case (Obj fs)
  then show ?case
    by (simp add: sort_key_sort_map comp_def) (rule arg_cong [of _ _ commas], auto)
qed simp_all

lemma normal_normal [simp]: "normal (normal v) = normal v"
  by (induction v rule: json_induct) (auto simp: sort_key_sort_map)

lemma normal_permuted:
  assumes "mset fs = mset fs'" "distinct (map fst fs)"
  shows "normal (JObj fs) = normal (JObj fs')"
proof -
  have "inj_on fst (set fs)" using assms(2) by (simp add: distinct_map)
  then have "sort_key fst fs = sort_key fst fs'"
    using assms(1) by (intro sort_key_inj_key_eq) auto
  then show ?thesis by (simp add: normal_obj)
qed

lemma map_of_insort_key: "map_of (insort_key fst x xs) = (map_of xs)(fst x \<mapsto> snd x)"
  by (induction xs) (auto simp: fun_eq_iff)

lemma map_of_sort_key [simp]: "map_of (sort_key fst fs) = map_of fs"
  by (induction fs) (auto simp: sort_key_def map_of_insort_key fun_eq_iff)

lemma map_of_map_snd: "map_of (map (\<lambda>f. (fst f, g (snd f))) fs) k = map_option g (map_of fs k)"
  by (induction fs) auto

lemma get_normal [simp]: "get (normal v) k = map_option normal (get v k)"
  by (cases v) (simp_all add: map_of_map_snd)

lemma is_record_normal [simp]: "is_record (normal v) = is_record v"
  by (cases v) simp_all

lemma normal_eq_JStr [simp]: "normal v = JStr s \<longleftrightarrow> v = JStr s"
  by (cases v) simp_all

lemma json_ok_normal [simp]: "json_ok (normal v) = json_ok v"
  by (induction v rule: json_induct) (fastforce simp: case_prod_beta)+

end
