(* ===== verification/LineWrite.thy ===== *)
theory LineWrite
  imports Json
begin

text \<open>
  The prepared line write of \<open>lib/qbo/lineWrite.ts\<close>: hashing of entity content and of
  request bodies, the rebuilding of an entity's lines, the validation of a durable prepared
  write, undo of a post, and the check of the response QuickBooks gives.

  \<open>sha\<close> is the digest function of \<open>node:crypto\<close>
  (\<open>createHash('sha256').update(text).digest('hex')\<close>); every definition that hashes takes
  it as its first argument. A \<open>throw\<close> is \<open>Inl\<close> of its error.
\<close>

datatype line_write_error =
    JsonFault json_error | BodyNotObject | InvalidSnapshot | InvalidPrepared | IdentityBinding
  | RequestHashMismatch | ExpectedHashMismatch | NoContentChange | RawNotObject
  | TransformationInput | NoHoldingLines | RestoreInput | PostedLinesChanged
  | PostedLinesAmbiguous | NotOneTargetLine | NotAuthorized | ResponseIdentity
  | ResponseOldToken | ResponseContent | ResponseEntityMissing | ResponseMetadataMissing
  | ProviderFailure | TypeFault

type_synonym 'a lw = "line_write_error + 'a"

fun lw_bind :: "'a lw \<Rightarrow> ('a \<Rightarrow> 'b lw) \<Rightarrow> 'b lw" where
  "lw_bind (Inl e) f = Inl e"
| "lw_bind (Inr x) f = f x"

definition lw_check :: "bool \<Rightarrow> line_write_error \<Rightarrow> 'a lw \<Rightarrow> 'a lw" where
  "lw_check c e k = (if c then k else Inl e)"

lemma lw_bind_Inr [simp]: "lw_bind m f = Inr y \<longleftrightarrow> (\<exists>x. m = Inr x \<and> f x = Inr y)"
  by (cases m) auto

lemma lw_check_Inr [simp]: "lw_check c e k = Inr y \<longleftrightarrow> c \<and> k = Inr y"
  by (simp add: lw_check_def)

definition assert_json :: "json \<Rightarrow> unit lw" where
  "assert_json v = (case json_fault v of None \<Rightarrow> Inr () | Some e \<Rightarrow> Inl (JsonFault e))"

lemma assert_json_Inr [simp]: "assert_json v = Inr u \<longleftrightarrow> json_ok v"
  by (simp add: assert_json_def split: option.splits)

section \<open>Content and request hashes\<close>

datatype location = Top | OnLine | Nested

definition generated_top_level_fields :: "jstring list" where
  "generated_top_level_fields =
     map js [''Id'', ''SyncToken'', ''MetaData'', ''domain'', ''sparse'']"

fun is_reference :: "fields \<Rightarrow> bool" where
  "is_reference fs = (case map_of fs (js ''value'') of Some (JStr s) \<Rightarrow> True | _ \<Rightarrow> False)"

definition dropped :: "location \<Rightarrow> bool \<Rightarrow> jstring \<Rightarrow> bool" where
  "dropped loc reference k \<longleftrightarrow>
     (loc = Top \<and> k \<in> set generated_top_level_fields)
     \<or> (loc = OnLine \<and> k = js ''Id'')
     \<or> (reference \<and> k = js ''name'')"

function sanitize :: "location \<Rightarrow> json \<Rightarrow> json"
  and sanitize_items :: "location \<Rightarrow> json list \<Rightarrow> json list"
  and sanitize_fields :: "location \<Rightarrow> bool \<Rightarrow> fields \<Rightarrow> fields"
where
  "sanitize loc (JArr xs) = JArr (sanitize_items Nested xs)"
| "sanitize loc (JObj fs) = JObj (sanitize_fields loc (is_reference fs) fs)"
| "sanitize loc JNull = JNull"
| "sanitize loc (JBool b) = JBool b"
| "sanitize loc (JNum v) = JNum v"
| "sanitize loc (JStr s) = JStr s"
| "sanitize loc (JExotic e) = JExotic e"
| "sanitize_items loc [] = []"
| "sanitize_items loc (x # xs) = sanitize loc x # sanitize_items loc xs"
| "sanitize_fields loc r [] = []"
| "sanitize_fields loc r (f # fs) =
     (if dropped loc r (fst f) then sanitize_fields loc r fs
      else (fst f, case snd f of
                     JArr xs \<Rightarrow> if loc = Top \<and> fst f = js ''Line''
                                then JArr (sanitize_items OnLine xs)
                                else sanitize Nested (snd f)
                   | _ \<Rightarrow> sanitize Nested (snd f)) # sanitize_fields loc r fs)"
  by pat_completeness auto
termination
  by (relation "measure (\<lambda>a. json_rank (case a of
        Inl (loc, v) \<Rightarrow> Inl v | Inr (Inl (loc, xs)) \<Rightarrow> Inr (Inl xs)
      | Inr (Inr (loc, r, fs)) \<Rightarrow> Inr (Inr fs)))")
     (auto simp: json_rank_def size_fields)

definition hash_content :: "(jstring \<Rightarrow> jstring) \<Rightarrow> json \<Rightarrow> jstring lw" where
  "hash_content sha body =
     lw_bind (assert_json body) (\<lambda>_.
     lw_check (is_record body) BodyNotObject
       (Inr (sha (canonical (sanitize Top body)))))"

definition serialize_request :: "json \<Rightarrow> jstring lw" where
  "serialize_request body =
     lw_bind (assert_json body) (\<lambda>_.
     lw_check (is_record body) BodyNotObject (Inr (canonical body)))"

definition hash_request :: "(jstring \<Rightarrow> jstring) \<Rightarrow> json \<Rightarrow> jstring lw" where
  "hash_request sha body = lw_bind (serialize_request body) (\<lambda>text. Inr (sha text))"

section \<open>Validation of a prepared write\<close>

datatype qbo_type = Purchase | Deposit | JournalEntry

fun type_text :: "qbo_type \<Rightarrow> jstring" where
  "type_text Purchase = js ''Purchase''"
| "type_text Deposit = js ''Deposit''"
| "type_text JournalEntry = js ''JournalEntry''"

definition non_empty_string :: "json option \<Rightarrow> bool" where
  "non_empty_string v = (case v of Some (JStr s) \<Rightarrow> trim s \<noteq> [] | _ \<Rightarrow> False)"

definition is_qbo_type :: "json option \<Rightarrow> bool" where
  "is_qbo_type v \<longleftrightarrow> v = Some (JStr (type_text Purchase)) \<or> v = Some (JStr (type_text Deposit))
     \<or> v = Some (JStr (type_text JournalEntry))"

definition hex_unit :: "unit16 \<Rightarrow> bool" where
  "hex_unit c \<longleftrightarrow> (97 \<le> c \<and> c \<le> 102) \<or> (48 \<le> c \<and> c \<le> 57)"

definition sha256_hex :: "jstring \<Rightarrow> bool" where
  "sha256_hex s \<longleftrightarrow> length s = 64 \<and> list_all hex_unit s"

definition is_hash :: "json option \<Rightarrow> bool" where
  "is_hash v = (case v of Some (JStr s) \<Rightarrow> sha256_hex s | _ \<Rightarrow> False)"

definition assert_snapshot :: "bool \<Rightarrow> json option \<Rightarrow> json lw" where
  "assert_snapshot require_sync_token v =
     (case v of
        None \<Rightarrow> Inl (JsonFault NotJsonValue)
      | Some s \<Rightarrow>
          lw_bind (assert_json s) (\<lambda>_.
          lw_check (is_record s \<and> is_qbo_type (get s ''qboType'') \<and> non_empty_string (get s ''qboId'')
              \<and> is_hash (get s ''contentHash'')
              \<and> (require_sync_token \<longrightarrow> non_empty_string (get s ''syncToken''))
              \<and> (\<not> require_sync_token \<longrightarrow> get s ''syncToken'' = None))
            InvalidSnapshot (Inr s)))"

definition is_transfer :: "json option \<Rightarrow> bool" where
  "is_transfer v \<longleftrightarrow> v = Some (JStr (js ''transfer''))"

definition validate_prepared_line_write :: "(jstring \<Rightarrow> jstring) \<Rightarrow> json \<Rightarrow> json lw" where
  "validate_prepared_line_write sha v =
     lw_bind (assert_json v) (\<lambda>_.
     lw_check (is_record v \<and> is_transfer (get v ''operation'') \<and> is_qbo_type (get v ''qboType'')
         \<and> non_empty_string (get v ''qboId'') \<and> non_empty_string (get v ''requestId'')
         \<and> is_hash (get v ''requestHash'')
         \<and> (case get v ''body'' of Some b \<Rightarrow> is_record b | None \<Rightarrow> False)) InvalidPrepared
    (lw_bind (assert_snapshot True (get v ''before'')) (\<lambda>before.
     lw_bind (assert_snapshot False (get v ''expected'')) (\<lambda>expected.
     let body = the (get v ''body'') in
     lw_check (get before ''qboType'' = get v ''qboType'' \<and> get before ''qboId'' = get v ''qboId''
         \<and> get expected ''qboType'' = get v ''qboType'' \<and> get expected ''qboId'' = get v ''qboId''
         \<and> get body ''Id'' = get v ''qboId'' \<and> get body ''SyncToken'' = get before ''syncToken'')
       IdentityBinding
    (lw_bind (hash_request sha body) (\<lambda>request_hash.
     lw_check (Some (JStr request_hash) = get v ''requestHash'') RequestHashMismatch
    (lw_bind (hash_content sha body) (\<lambda>content_hash.
     lw_check (Some (JStr content_hash) = get expected ''contentHash'') ExpectedHashMismatch
    (lw_check (get before ''contentHash'' \<noteq> get expected ''contentHash'') NoContentChange
       (Inr v))))))))))"

section \<open>Rebuilding the lines of an entity\<close>

record split =
  amount :: jsnum
  account :: jstring
  memo :: "jstring option"

record qbo_txn =
  qbo_id :: jstring
  qbo_type :: qbo_type
  sync_token :: jstring
  txn_date :: jstring
  raw :: json

text \<open>
  \<open>raw.Line ?? []\<close>. Calling \<open>filter\<close> on anything but an array, and reading
  a property of a \<open>null\<close> line, is a \<open>TypeError\<close>.
\<close>

definition lines_of :: "json \<Rightarrow> json list lw" where
  "lines_of r =
     (case get r ''Line'' of
        None \<Rightarrow> Inr []
      | Some JNull \<Rightarrow> Inr []
      | Some (JArr xs) \<Rightarrow> (if JNull \<in> set xs then Inl TypeFault else Inr xs)
      | Some _ \<Rightarrow> Inl TypeFault)"

fun detail_key :: "qbo_type \<Rightarrow> string" where
  "detail_key Purchase = ''AccountBasedExpenseLineDetail''"
| "detail_key Deposit = ''DepositLineDetail''"
| "detail_key JournalEntry = ''JournalEntryLineDetail''"

definition line_account :: "qbo_type \<Rightarrow> json \<Rightarrow> json option" where
  "line_account t line = chain (chain (get line (detail_key t)) ''AccountRef'') ''value''"

definition is_debit :: "json \<Rightarrow> bool" where
  "is_debit line = (chain (get line ''JournalEntryLineDetail'') ''PostingType'' = Some (JStr (js ''Debit'')))"

text \<open>\<open>value !== undefined && ids.has(value)\<close> for a set of strings.\<close>

definition has_id :: "jstring list \<Rightarrow> json option \<Rightarrow> bool" where
  "has_id ids v = (case v of Some (JStr s) \<Rightarrow> s \<in> set ids | _ \<Rightarrow> False)"

definition posts_to :: "qbo_type \<Rightarrow> jstring list \<Rightarrow> json \<Rightarrow> bool" where
  "posts_to t ids line \<longleftrightarrow> (t = JournalEntry \<longrightarrow> is_debit line) \<and> has_id ids (line_account t line)"

definition account_ref :: "split \<Rightarrow> json" where
  "account_ref s = JObj [(js ''value'', JStr (account s))]"

definition memo_field :: "split \<Rightarrow> fields" where
  "memo_field s = (case memo s of None \<Rightarrow> [] | Some m \<Rightarrow> [(js ''Description'', JStr m)])"

definition set_memo :: "split \<Rightarrow> fields \<Rightarrow> fields" where
  "set_memo s fs = (case memo s of None \<Rightarrow> fs | Some m \<Rightarrow> set_field ''Description'' (JStr m) fs)"

definition line_amount :: "split \<Rightarrow> json" where
  "line_amount s = JNum (round2 (js_abs (amount s)))"

text \<open>
  The shape the three rebuilds share. A single replaced line and a single new line keep the
  position and the other fields of the line (\<open>update\<close>); otherwise the replaced lines
  are dropped and new ones appended (\<open>fresh\<close>, given the replaced lines).
\<close>

definition rebuild_lines ::
  "(json \<Rightarrow> split \<Rightarrow> json) \<Rightarrow> (json list \<Rightarrow> split \<Rightarrow> json) \<Rightarrow> json list \<Rightarrow> (json \<Rightarrow> bool) \<Rightarrow> split list \<Rightarrow> json list"
where
  "rebuild_lines update fresh lines is_replaced new_lines =
     (let replaced = filter is_replaced lines
      in case (replaced, new_lines) of
           ([_], [s]) \<Rightarrow> map (\<lambda>line. if is_replaced line then update line s else line) lines
         | _ \<Rightarrow> filter (\<lambda>line. \<not> is_replaced line) lines @ map (fresh replaced) new_lines)"

definition update_line :: "qbo_type \<Rightarrow> fields \<Rightarrow> json \<Rightarrow> split \<Rightarrow> json" where
  "update_line t detail line s =
     JObj (set_field (detail_key t) (JObj (set_field ''AccountRef'' (account_ref s) detail))
       (set_memo s
         (set_field ''DetailType'' (JStr (js (detail_key t)))
           (set_field ''Amount'' (line_amount s)
             (delete_field ''Description'' (spread (Some line)))))))"

definition fresh_line :: "qbo_type \<Rightarrow> fields \<Rightarrow> fields \<Rightarrow> split \<Rightarrow> json" where
  "fresh_line t before_ref after_ref s =
     JObj ([(js ''Amount'', line_amount s), (js ''DetailType'', JStr (js (detail_key t)))]
       @ memo_field s
       @ [(js (detail_key t),
           JObj (before_ref @ [(js ''AccountRef'', account_ref s)] @ after_ref))])"

definition rebuild_purchase_lines_where ::
  "json list \<Rightarrow> (json \<Rightarrow> bool) \<Rightarrow> split list \<Rightarrow> json list" where
  "rebuild_purchase_lines_where =
     rebuild_lines
       (\<lambda>line. update_line Purchase (spread (get line ''AccountBasedExpenseLineDetail'')) line)
       (\<lambda>replaced. fresh_line Purchase [] [])"

definition replaced_entity :: "json list \<Rightarrow> fields" where
  "replaced_entity replaced =
     (case replaced of
        [] \<Rightarrow> []
      | line # _ \<Rightarrow>
          (case chain (get line ''DepositLineDetail'') ''Entity'' of
             None \<Rightarrow> [] | Some e \<Rightarrow> [(js ''Entity'', e)]))"

definition rebuild_deposit_lines_where ::
  "json list \<Rightarrow> (json \<Rightarrow> bool) \<Rightarrow> split list \<Rightarrow> json list" where
  "rebuild_deposit_lines_where =
     rebuild_lines
       (\<lambda>line. update_line Deposit (spread (get line ''DepositLineDetail'')) line)
       (\<lambda>replaced. fresh_line Deposit [] (replaced_entity replaced))"

definition rebuild_journal_lines_where ::
  "json list \<Rightarrow> (json \<Rightarrow> bool) \<Rightarrow> split list \<Rightarrow> json list" where
  "rebuild_journal_lines_where =
     rebuild_lines
       (\<lambda>line. update_line JournalEntry
          (set_field ''PostingType'' (JStr (js ''Debit'')) (spread (get line ''JournalEntryLineDetail''))) line)
       (\<lambda>replaced. fresh_line JournalEntry [(js ''PostingType'', JStr (js ''Debit''))] [])"

fun rebuild_where :: "qbo_type \<Rightarrow> json list \<Rightarrow> (json \<Rightarrow> bool) \<Rightarrow> split list \<Rightarrow> json list" where
  "rebuild_where Purchase = rebuild_purchase_lines_where"
| "rebuild_where Deposit = rebuild_deposit_lines_where"
| "rebuild_where JournalEntry = rebuild_journal_lines_where"

definition rebuild_by_account ::
  "qbo_type \<Rightarrow> json \<Rightarrow> jstring list \<Rightarrow> split list \<Rightarrow> json list lw" where
  "rebuild_by_account t r replace_ids new_lines =
     lw_bind (lines_of r) (\<lambda>lines. Inr (rebuild_where t lines (posts_to t replace_ids) new_lines))"

definition holding_line_count :: "qbo_type \<Rightarrow> json \<Rightarrow> jstring list \<Rightarrow> nat lw" where
  "holding_line_count t r ids =
     lw_bind (lines_of r) (\<lambda>lines. Inr (length (filter (posts_to t ids) lines)))"

section \<open>Preparing a write\<close>

definition with_lines :: "qbo_txn \<Rightarrow> json list \<Rightarrow> json" where
  "with_lines txn lines =
     JObj (set_field ''Line'' (JArr lines)
       (set_field ''SyncToken'' (JStr (sync_token txn))
         (set_field ''Id'' (JStr (qbo_id txn)) (spread (Some (raw txn))))))"

definition prepared_json ::
  "qbo_txn \<Rightarrow> jstring \<Rightarrow> json \<Rightarrow> jstring \<Rightarrow> jstring \<Rightarrow> jstring \<Rightarrow> json" where
  "prepared_json txn request_id body request_hash before_hash expected_hash =
     JObj
      [(js ''operation'', JStr (js ''transfer'')),
       (js ''qboType'', JStr (type_text (qbo_type txn))),
       (js ''qboId'', JStr (qbo_id txn)),
       (js ''requestId'', JStr request_id),
       (js ''requestHash'', JStr request_hash),
       (js ''body'', body),
       (js ''before'', JObj
         [(js ''qboType'', JStr (type_text (qbo_type txn))), (js ''qboId'', JStr (qbo_id txn)),
          (js ''syncToken'', JStr (sync_token txn)), (js ''contentHash'', JStr before_hash)]),
       (js ''expected'', JObj
         [(js ''qboType'', JStr (type_text (qbo_type txn))), (js ''qboId'', JStr (qbo_id txn)),
          (js ''contentHash'', JStr expected_hash)])]"

definition seal_prepared ::
  "(jstring \<Rightarrow> jstring) \<Rightarrow> qbo_txn \<Rightarrow> jstring \<Rightarrow> json \<Rightarrow> json lw" where
  "seal_prepared sha txn request_id body =
     lw_bind (hash_request sha body) (\<lambda>request_hash.
     lw_bind (hash_content sha (raw txn)) (\<lambda>before_hash.
     lw_bind (hash_content sha body) (\<lambda>expected_hash.
       validate_prepared_line_write sha
         (prepared_json txn request_id body request_hash before_hash expected_hash))))"

definition identity_matches :: "qbo_txn \<Rightarrow> bool" where
  "identity_matches txn \<longleftrightarrow> get (raw txn) ''Id'' = Some (JStr (qbo_id txn))
     \<and> get (raw txn) ''SyncToken'' = Some (JStr (sync_token txn))"

definition valid_split :: "split \<Rightarrow> bool" where
  "valid_split s \<longleftrightarrow> is_finite (amount s) \<and> trim (account s) \<noteq> []"

definition build_prepared_line_write ::
  "(jstring \<Rightarrow> jstring) \<Rightarrow> qbo_txn \<Rightarrow> split list \<Rightarrow> jstring \<Rightarrow> jstring list \<Rightarrow> json lw" where
  "build_prepared_line_write sha txn splits request_id holding_accounts =
     lw_check (is_record (raw txn)) RawNotObject
    (lw_check (identity_matches txn \<and> trim request_id \<noteq> [] \<and> splits \<noteq> [] \<and> list_all valid_split splits)
       TransformationInput
    (let holding_ids = filter (\<lambda>i. trim i \<noteq> []) holding_accounts
     in lw_check (holding_ids \<noteq> []) NoHoldingLines
       (lw_bind (holding_line_count (qbo_type txn) (raw txn) holding_ids) (\<lambda>n.
        lw_check (n \<noteq> 0) NoHoldingLines
       (lw_bind (rebuild_by_account (qbo_type txn) (raw txn) holding_ids splits) (\<lambda>lines.
          seal_prepared sha txn request_id (with_lines txn lines)))))))"

section \<open>Undo of a post\<close>

record category_line =
  line_id :: "json option"
  line_account_id :: "jstring option"
  amount_cents :: jsnum

text \<open>
  The amount of a line is a number, absent or \<open>null\<close> in the types the code declares;
  any other value counts as not a number.
\<close>

definition line_cents :: "json \<Rightarrow> jsnum" where
  "line_cents line =
     (case get line ''Amount'' of
        None \<Rightarrow> to_cents (Fin 0)
      | Some JNull \<Rightarrow> to_cents (Fin 0)
      | Some (JNum v) \<Rightarrow> to_cents v
      | Some _ \<Rightarrow> NaN)"

definition json_string :: "json option \<Rightarrow> jstring option" where
  "json_string v = (case v of Some (JStr s) \<Rightarrow> Some s | _ \<Rightarrow> None)"

definition category_line_of :: "qbo_type \<Rightarrow> json \<Rightarrow> category_line" where
  "category_line_of t line =
     \<lparr>line_id = get line ''Id'', line_account_id = json_string (line_account t line),
      amount_cents = line_cents line\<rparr>"

definition category_lines :: "qbo_txn \<Rightarrow> category_line list lw" where
  "category_lines txn =
     lw_bind (lines_of (raw txn)) (\<lambda>lines.
       Inr (map (category_line_of (qbo_type txn))
             (filter (\<lambda>line. qbo_type txn = JournalEntry \<longrightarrow> is_debit line) lines)))"

text \<open>
  The two JavaScript \<open>Map\<close>s are association lists in insertion order. A key is the pair
  that the code joins with a bar.
\<close>

type_synonym line_key = "jstring \<times> jsnum"

definition posted_key :: "split \<Rightarrow> line_key" where
  "posted_key s = (account s, to_cents (amount s))"

definition count_posted :: "split list \<Rightarrow> (line_key \<times> nat) list" where
  "count_posted posted =
     fold (\<lambda>s needed.
        let k = posted_key s
        in AList.update k ((case map_of needed k of None \<Rightarrow> 0 | Some n \<Rightarrow> n) + 1) needed) posted []"

definition found :: "(line_key \<times> jstring list) list \<Rightarrow> line_key \<Rightarrow> jstring list" where
  "found available k = (case map_of available k of None \<Rightarrow> [] | Some is \<Rightarrow> is)"

fun collect_available ::
  "(line_key \<times> nat) list \<Rightarrow> category_line list \<Rightarrow> (line_key \<times> jstring list) list
     \<Rightarrow> (line_key \<times> jstring list) list lw" where
  "collect_available needed [] available = Inr available"
| "collect_available needed (l # ls) available =
     (case line_account_id l of
        None \<Rightarrow> collect_available needed ls available
      | Some a \<Rightarrow>
          (let k = (a, amount_cents l)
           in case map_of needed k of
                None \<Rightarrow> collect_available needed ls available
              | Some _ \<Rightarrow>
                  (case line_id l of
                     Some (JStr i) \<Rightarrow>
                       if trim i = [] then Inl PostedLinesChanged
                       else collect_available needed ls
                         (AList.update k (found available k @ [i]) available)
                   | _ \<Rightarrow> Inl PostedLinesChanged)))"

fun take_ids ::
  "(line_key \<times> jstring list) list \<Rightarrow> (line_key \<times> nat) list \<Rightarrow> jstring list lw" where
  "take_ids available [] = Inr []"
| "take_ids available ((k, wanted) # needed) =
     (let lines = found available k
      in if length lines < wanted then Inl PostedLinesChanged
         else if length lines > wanted then Inl PostedLinesAmbiguous
         else lw_bind (take_ids available needed) (\<lambda>ids. Inr (lines @ ids)))"

definition find_posted_line_ids :: "qbo_txn \<Rightarrow> split list \<Rightarrow> jstring list lw" where
  "find_posted_line_ids txn posted =
     lw_bind (category_lines txn) (\<lambda>lines.
     let needed = count_posted posted in
     lw_bind (collect_available needed lines []) (\<lambda>available. take_ids available needed))"

definition restored_amount :: "split list \<Rightarrow> jsnum" where
  "restored_amount posted = js_over (fold (\<lambda>s total. js_add total (to_cents (amount s))) posted (Fin 0)) 100"

definition has_line_id :: "qbo_type \<Rightarrow> jstring list \<Rightarrow> json \<Rightarrow> bool" where
  "has_line_id t ids line \<longleftrightarrow> (t = JournalEntry \<longrightarrow> is_debit line) \<and> has_id ids (get line ''Id'')"

definition build_prepared_line_restore ::
  "(jstring \<Rightarrow> jstring) \<Rightarrow> qbo_txn \<Rightarrow> split list \<Rightarrow> jstring \<Rightarrow> jstring \<Rightarrow> json lw" where
  "build_prepared_line_restore sha txn posted holding_account request_id =
     lw_check (is_record (raw txn)) RawNotObject
    (lw_check (identity_matches txn \<and> trim request_id \<noteq> [] \<and> trim holding_account \<noteq> [] \<and> posted \<noteq> [])
       RestoreInput
    (lw_bind (find_posted_line_ids txn posted) (\<lambda>line_ids.
     lw_bind (lines_of (raw txn)) (\<lambda>lines.
     let restore = [\<lparr>amount = restored_amount posted, account = holding_account, memo = None\<rparr>]
     in seal_prepared sha txn request_id
          (with_lines txn (rebuild_where (qbo_type txn) lines (has_line_id (qbo_type txn) line_ids) restore))))))"

section \<open>Checking a stored preparation and a response\<close>

text \<open>\<open>JSON.parse\<close> of the canonical text gives the value with its keys in order.\<close>

definition validate_prepared_line_transformation ::
  "(jstring \<Rightarrow> jstring) \<Rightarrow> json \<Rightarrow> qbo_txn \<Rightarrow> split list \<Rightarrow> jstring \<Rightarrow> jstring list \<Rightarrow> json lw" where
  "validate_prepared_line_transformation sha v txn splits request_id holding_accounts =
     lw_check (length splits = 1) NotOneTargetLine
    (lw_bind (validate_prepared_line_write sha v) (\<lambda>prepared.
     lw_bind (build_prepared_line_write sha txn splits request_id holding_accounts) (\<lambda>expected.
     lw_check (canonical prepared = canonical expected) NotAuthorized
    (lw_bind (assert_json expected) (\<lambda>_.
       validate_prepared_line_write sha (normal expected))))))"

definition is_qbo_prepared_line_write :: "(jstring \<Rightarrow> jstring) \<Rightarrow> json \<Rightarrow> bool" where
  "is_qbo_prepared_line_write sha v =
     (case validate_prepared_line_write sha v of Inr _ \<Rightarrow> True | Inl _ \<Rightarrow> False)"

record line_write_result =
  new_sync_token :: "json option"
  snapshot :: json

definition verify_line_write_result ::
  "(jstring \<Rightarrow> jstring) \<Rightarrow> json \<Rightarrow> json \<Rightarrow> line_write_result lw" where
  "verify_line_write_result sha prepared_value snapshot_value =
     lw_bind (validate_prepared_line_write sha prepared_value) (\<lambda>prepared.
     lw_bind (assert_snapshot True (Some snapshot_value)) (\<lambda>snap.
     let expected = the (get prepared ''expected''); before = the (get prepared ''before'')
     in lw_check (get snap ''qboType'' = get expected ''qboType'' \<and> get snap ''qboId'' = get expected ''qboId'')
          ResponseIdentity
       (lw_check (get snap ''syncToken'' \<noteq> get before ''syncToken'') ResponseOldToken
       (lw_check (get snap ''contentHash'' = get expected ''contentHash'') ResponseContent
          (Inr \<lparr>new_sync_token = get snap ''syncToken'', snapshot = snap\<rparr>)))))"

text \<open>
  Sending: \<open>post\<close> is the provider request (\<open>requestPreparedBody\<close> with its fence and
  its HTTP call); it gets the exact text that goes over the wire and yields the
  response's entity, if the response has one.
\<close>

definition send_prepared_line_write ::
  "(jstring \<Rightarrow> jstring) \<Rightarrow> (jstring \<Rightarrow> json option lw) \<Rightarrow> json \<Rightarrow> line_write_result lw" where
  "send_prepared_line_write sha post prepared_value =
     lw_bind (validate_prepared_line_write sha prepared_value) (\<lambda>prepared.
     lw_bind (serialize_request (the (get prepared ''body''))) (\<lambda>body_text.
     lw_bind (post body_text) (\<lambda>response.
       case response of
         None \<Rightarrow> Inl ResponseEntityMissing
       | Some entity \<Rightarrow>
           lw_check (is_record entity) ResponseEntityMissing
          (lw_check (non_empty_string (get entity ''Id'') \<and> non_empty_string (get entity ''SyncToken''))
             ResponseMetadataMissing
          (lw_bind (hash_content sha entity) (\<lambda>h.
             verify_line_write_result sha prepared
               (JObj [(js ''qboType'', the (get prepared ''qboType'')), (js ''qboId'', the (get entity ''Id'')),
                      (js ''syncToken'', the (get entity ''SyncToken'')), (js ''contentHash'', JStr h)])))))))"

section \<open>Lemmas: preparation\<close>

lemma get_prepared_json [simp]:
  "get (prepared_json txn rid body rh bh eh) ''operation'' = Some (JStr (js ''transfer''))"
  "get (prepared_json txn rid body rh bh eh) ''qboType'' = Some (JStr (type_text (qbo_type txn)))"
  "get (prepared_json txn rid body rh bh eh) ''qboId'' = Some (JStr (qbo_id txn))"
  "get (prepared_json txn rid body rh bh eh) ''requestId'' = Some (JStr rid)"
  "get (prepared_json txn rid body rh bh eh) ''requestHash'' = Some (JStr rh)"
  "get (prepared_json txn rid body rh bh eh) ''body'' = Some body"
  by (simp_all add: prepared_json_def)

lemma hash_request_Inr:
  "hash_request sha body = Inr h \<longleftrightarrow> json_ok body \<and> is_record body \<and> h = sha (canonical body)"
  by (auto simp: hash_request_def serialize_request_def)

lemma hash_content_Inr:
  "hash_content sha body = Inr h
     \<longleftrightarrow> json_ok body \<and> is_record body \<and> h = sha (canonical (sanitize Top body))"
  by (auto simp: hash_content_def)

lemma assert_snapshot_Inr:
  "assert_snapshot req v = Inr s \<longleftrightarrow>
     v = Some s \<and> json_ok s \<and> is_record s \<and> is_qbo_type (get s ''qboType'')
     \<and> non_empty_string (get s ''qboId'') \<and> is_hash (get s ''contentHash'')
     \<and> (req \<longrightarrow> non_empty_string (get s ''syncToken'')) \<and> (\<not> req \<longrightarrow> get s ''syncToken'' = None)"
  by (auto simp: assert_snapshot_def split: option.splits)

text \<open>What an accepted preparation satisfies; the result is the value itself.\<close>

lemma validate_Inr:
  "validate_prepared_line_write sha v = Inr w \<longleftrightarrow>
     w = v \<and> json_ok v \<and> is_record v \<and> is_transfer (get v ''operation'') \<and> is_qbo_type (get v ''qboType'')
     \<and> non_empty_string (get v ''qboId'') \<and> non_empty_string (get v ''requestId'')
     \<and> (\<exists>body before expected.
          get v ''body'' = Some body \<and> is_record body
        \<and> assert_snapshot True (get v ''before'') = Inr before
        \<and> assert_snapshot False (get v ''expected'') = Inr expected
        \<and> get before ''qboType'' = get v ''qboType'' \<and> get before ''qboId'' = get v ''qboId''
        \<and> get expected ''qboType'' = get v ''qboType'' \<and> get expected ''qboId'' = get v ''qboId''
        \<and> get body ''Id'' = get v ''qboId'' \<and> get body ''SyncToken'' = get before ''syncToken''
        \<and> json_ok body
        \<and> is_hash (get v ''requestHash'')
        \<and> get v ''requestHash'' = Some (JStr (sha (canonical body)))
        \<and> get expected ''contentHash'' = Some (JStr (sha (canonical (sanitize Top body))))
        \<and> get before ''contentHash'' \<noteq> get expected ''contentHash'')"
  by (auto simp: validate_prepared_line_write_def hash_request_Inr hash_content_Inr Let_def
      split: option.splits)

lemma validate_same: "validate_prepared_line_write sha v = Inr w \<Longrightarrow> w = v"
  by (simp add: validate_Inr)

lemma seal_prepared_Inr:
  assumes "seal_prepared sha txn rid body = Inr p"
  obtains bh where "p = prepared_json txn rid body (sha (canonical body)) bh (sha (canonical (sanitize Top body)))"
    "bh = sha (canonical (sanitize Top (raw txn)))"
    "bh \<noteq> sha (canonical (sanitize Top body))"
    "json_ok body" "json_ok (raw txn)" "validate_prepared_line_write sha p = Inr p"
proof -
  let ?bh = "sha (canonical (sanitize Top (raw txn)))"
  let ?p = "prepared_json txn rid body (sha (canonical body)) ?bh (sha (canonical (sanitize Top body)))"
  from assms have v: "validate_prepared_line_write sha ?p = Inr p" and ok: "json_ok body" "json_ok (raw txn)"
    by (auto simp: seal_prepared_def hash_request_Inr hash_content_Inr)
  have p: "p = ?p" using v by (rule validate_same)
  have "?bh \<noteq> sha (canonical (sanitize Top body))"
    using v by (auto simp: validate_Inr assert_snapshot_Inr prepared_json_def)
  then show thesis using that p ok v by simp
qed

lemma build_prepared_Inr:
  assumes "build_prepared_line_write sha txn splits rid holding = Inr p"
  obtains lines where "lines_of (raw txn) = Inr lines" "is_record (raw txn)" "identity_matches txn"
    "splits \<noteq> []" "list_all valid_split splits"
    "filter (posts_to (qbo_type txn) (filter (\<lambda>i. trim i \<noteq> []) holding)) lines \<noteq> []"
    "seal_prepared sha txn rid (with_lines txn
       (rebuild_where (qbo_type txn) lines
          (posts_to (qbo_type txn) (filter (\<lambda>i. trim i \<noteq> []) holding)) splits)) = Inr p"
  using assms
  by (auto simp: build_prepared_line_write_def holding_line_count_def rebuild_by_account_def Let_def)

section \<open>Lemmas: key order\<close>

text \<open>Nothing that the validation reads depends on the order of the keys of an object.\<close>

definition sanitize_member :: "location \<Rightarrow> jstring \<times> json \<Rightarrow> jstring \<times> json" where
  "sanitize_member loc f =
     (fst f, case snd f of
               JArr xs \<Rightarrow> if loc = Top \<and> fst f = js ''Line'' then JArr (sanitize_items OnLine xs)
                         else sanitize Nested (snd f)
             | _ \<Rightarrow> sanitize Nested (snd f))"

lemma fst_sanitize_member [simp]: "fst (sanitize_member loc f) = fst f"
  by (simp add: sanitize_member_def)

lemma sanitize_fields_map:
  "sanitize_fields loc r fs = map (sanitize_member loc) (filter (\<lambda>f. \<not> dropped loc r (fst f)) fs)"
  by (induction fs) (auto simp: sanitize_member_def)

lemma sanitize_items_map: "sanitize_items loc xs = map (sanitize loc) xs"
  by (induction xs) auto

lemma is_reference_normal [simp]:
  "is_reference (map (\<lambda>f. (fst f, normal (snd f))) (sort_key fst fs)) = is_reference fs"
  by (auto simp: map_of_map_snd split: option.splits json.splits)

lemma sanitize_normal_items:
  "sanitize loc (normal v) = normal (sanitize loc v)
    \<and> (\<forall>xs. v = JArr xs \<longrightarrow> map (sanitize OnLine) (map normal xs) = map normal (map (sanitize OnLine) xs))"
proof (induction v arbitrary: loc rule: json_induct)
  case (Arr xs)
  then show ?case by (simp add: sanitize_items_map)
next
  case (Obj fs)
  let ?n = "\<lambda>f. (fst f, normal (snd f))"
  let ?keep = "\<lambda>f::jstring \<times> json. \<not> dropped loc (is_reference fs) (fst f)"
  have member: "sanitize_member loc (?n f) = ?n (sanitize_member loc f)" if "f \<in> set fs" for f
  proof -
    have "(fst f, snd f) \<in> set fs" using that by simp
    note ih = Obj.IH [OF this]
    have "sanitize Nested (normal (snd f)) = normal (sanitize Nested (snd f))"
      and "snd f = JArr xs \<Longrightarrow> map (sanitize OnLine) (map normal xs) = map normal (map (sanitize OnLine) xs)" for xs
      using ih [of Nested] by simp_all
    then show ?thesis
      by (cases "snd f") (simp_all add: sanitize_member_def sanitize_items_map)
  qed
  have "map (sanitize_member loc) (filter ?keep (map ?n (sort_key fst fs)))
      = map ?n (map (sanitize_member loc) (sort_key fst (filter ?keep fs)))"
    using member by (simp add: filter_map comp_def filter_sort)
  also have "\<dots> = map ?n (sort_key fst (map (sanitize_member loc) (filter ?keep fs)))"
    by (simp add: sort_key_map comp_def)
  finally show ?case by (simp add: sanitize_fields_map del: is_reference.simps)
qed simp_all

lemma sanitize_normal [simp]: "sanitize loc (normal v) = normal (sanitize loc v)"
  using sanitize_normal_items by blast

lemma normal_option_eq [simp]:
  "map_option normal v = Some (JStr s) \<longleftrightarrow> v = Some (JStr s)"
  "non_empty_string (map_option normal v) = non_empty_string v"
  "is_qbo_type (map_option normal v) = is_qbo_type v"
  "is_hash (map_option normal v) = is_hash v"
  "is_transfer (map_option normal v) = is_transfer v"
  by (cases v; auto simp: non_empty_string_def is_qbo_type_def is_hash_def is_transfer_def split: json.splits)+

lemma normal_option_JStr:
  "is_qbo_type v \<or> non_empty_string v \<or> is_hash v \<Longrightarrow> map_option normal v = v"
  by (auto simp: is_qbo_type_def non_empty_string_def is_hash_def split: option.splits json.splits)

section \<open>Lemmas: rebuilt lines\<close>

lemma filter_single:
  assumes "filter P xs = [x]"
  obtains a b where "xs = a @ x # b" "P x" "\<forall>y \<in> set a \<union> set b. \<not> P y"
proof -
  from assms obtain a b where "xs = a @ x # b" "\<forall>u \<in> set a. \<not> P u" "P x" "[] = filter P b"
    by (auto simp: filter_eq_Cons_iff)
  moreover from this(4) have "\<forall>u \<in> set b. \<not> P u" by (metis filter_empty_conv)
  ultimately show thesis using that by blast
qed

lemma rebuild_lines_cases:
  obtains (single) a x b s where "lines = a @ x # b" "rep x" "\<forall>y \<in> set a \<union> set b. \<not> rep y" "ss = [s]"
      "rebuild_lines u f lines rep ss = a @ u x s # b"
  | (many) "rebuild_lines u f lines rep ss
       = filter (\<lambda>l. \<not> rep l) lines @ map (f (filter rep lines)) ss"
proof (cases "\<exists>x s. filter rep lines = [x] \<and> ss = [s]")
  case True
  then obtain x s where xs: "filter rep lines = [x]" "ss = [s]" by blast
  from xs(1) obtain a b where ab: "lines = a @ x # b" "rep x" "\<forall>y \<in> set a \<union> set b. \<not> rep y"
    by (rule filter_single)
  then have "map (\<lambda>l. if rep l then u l s else l) lines = a @ u x s # b"
    by (simp add: map_idI)
  then show thesis using single [OF ab xs(2)] xs by (simp add: rebuild_lines_def)
next
  case False
  then show thesis using many by (auto simp: rebuild_lines_def Let_def split: list.splits)
qed

text \<open>A line a rebuild wrote for a split: its account, its cents, its posting side.\<close>

definition written_for :: "qbo_type \<Rightarrow> split \<Rightarrow> json \<Rightarrow> bool" where
  "written_for t s l \<longleftrightarrow> line_account t l = Some (JStr (account s))
     \<and> line_cents l = to_cents (round2 (js_abs (amount s))) \<and> (t = JournalEntry \<longrightarrow> is_debit l)"

lemma map_of_memo_field [simp]: "map_of (memo_field s) (js ''Amount'') = None"
  by (simp add: memo_field_def split: option.splits)

lemma map_of_set_memo [simp]:
  "k \<noteq> js ''Description'' \<Longrightarrow> map_of (set_memo s fs) k = map_of fs k"
  by (simp add: set_memo_def split: option.splits)

lemma map_of_memo_field_detail [simp]: "map_of (memo_field s) (js (detail_key t)) = None"
  by (cases t) (simp_all add: memo_field_def split: option.splits)

lemmas line_reads = written_for_def line_account_def is_debit_def line_cents_def chain_def
  line_amount_def account_ref_def

lemma written_update:
  assumes "t = JournalEntry \<longrightarrow> map_of d (js ''PostingType'') = Some (JStr (js ''Debit''))"
  shows "written_for t s (update_line t d line s)"
  using assms by (cases t) (simp_all add: line_reads update_line_def)

lemma written_fresh:
  assumes "b = (if t = JournalEntry then [(js ''PostingType'', JStr (js ''Debit''))] else [])"
  shows "written_for t s (fresh_line t b a s)"
  using assms by (cases t) (simp_all add: line_reads fresh_line_def map_add_def memo_field_def
      split: option.splits)

text \<open>
  Every rebuild keeps the lines it does not replace, in their order, and writes one line for
  each split.
\<close>

lemma rebuild_lines_written:
  assumes u: "\<And>line s. written_for t s (u line s)" and f: "\<And>r s. written_for t s (f r s)"
  shows "\<exists>new. mset (rebuild_lines u f lines rep ss) = mset (filter (\<lambda>l. \<not> rep l) lines) + mset new
    \<and> subseq (filter (\<lambda>l. \<not> rep l) lines) (rebuild_lines u f lines rep ss)
    \<and> list_all2 (written_for t) ss new"
proof (cases rule: rebuild_lines_cases [where lines = lines and rep = rep and ss = ss and u = u and f = f])
  case (single a x b s)
  then have k: "filter (\<lambda>l. \<not> rep l) lines = a @ b" by (simp add: filter_id_conv)
  have "subseq (a @ b) (a @ u x s # b)" by (intro list_emb_append_mono list_emb_Cons) simp_all
  then show ?thesis
    using single(4) single(5) u by (intro exI [of _ "[u x s]"]) (simp add: k del: mset_filter)
next
  case many
  then show ?thesis
    using f by (intro exI [of _ "map (f (filter rep lines)) ss"])
      (simp add: many list_all2_conv_all_nth prefix_imp_subseq)
qed

lemma rebuild_where_written:
  "\<exists>new. mset (rebuild_where t lines rep ss) = mset (filter (\<lambda>l. \<not> rep l) lines) + mset new
    \<and> subseq (filter (\<lambda>l. \<not> rep l) lines) (rebuild_where t lines rep ss)
    \<and> list_all2 (written_for t) ss new"
proof (cases t)
  case Purchase
  show ?thesis
    unfolding Purchase rebuild_where.simps rebuild_purchase_lines_where_def
    by (rule rebuild_lines_written) (simp_all add: written_update written_fresh)
next
  case Deposit
  show ?thesis
    unfolding Deposit rebuild_where.simps rebuild_deposit_lines_where_def
    by (rule rebuild_lines_written) (simp_all add: written_update written_fresh)
next
  case JournalEntry
  show ?thesis
    unfolding JournalEntry rebuild_where.simps rebuild_journal_lines_where_def
    by (rule rebuild_lines_written) (simp_all add: written_update written_fresh)
qed

section \<open>Properties of a prepared write\<close>

definition holding_ids :: "jstring list \<Rightarrow> jstring list" where
  "holding_ids holding = filter (\<lambda>i. trim i \<noteq> []) holding"

definition kept_lines :: "qbo_type \<Rightarrow> jstring list \<Rightarrow> json list \<Rightarrow> json list" where
  "kept_lines t holding lines = filter (\<lambda>l. \<not> posts_to t (holding_ids holding) l) lines"

definition prepared_body :: "json \<Rightarrow> json" where
  "prepared_body p = the (get p ''body'')"

definition body_lines :: "json \<Rightarrow> json list" where
  "body_lines body = (case get body ''Line'' of Some (JArr ls) \<Rightarrow> ls | _ \<Rightarrow> [])"

definition known_cents :: "json \<Rightarrow> rat" where
  "known_cents l = (case line_cents l of Fin c \<Rightarrow> c | _ \<Rightarrow> 0)"

lemma get_with_lines:
  "get (with_lines txn lines) k =
     (if k = ''Line'' then Some (JArr lines) else if k = ''SyncToken'' then Some (JStr (sync_token txn))
      else if k = ''Id'' then Some (JStr (qbo_id txn)) else map_of (spread (Some (raw txn))) (js k))"
  by (simp add: with_lines_def)

lemma build_prepared_body:
  assumes "build_prepared_line_write sha txn splits rid holding = Inr p"
  obtains lines where "lines_of (raw txn) = Inr lines"
    "prepared_body p = with_lines txn
       (rebuild_where (qbo_type txn) lines (posts_to (qbo_type txn) (holding_ids holding)) splits)"
    "filter (posts_to (qbo_type txn) (holding_ids holding)) lines \<noteq> []"
proof -
  from assms obtain lines where l: "lines_of (raw txn) = Inr lines"
    "filter (posts_to (qbo_type txn) (holding_ids holding)) lines \<noteq> []"
    "seal_prepared sha txn rid (with_lines txn
       (rebuild_where (qbo_type txn) lines (posts_to (qbo_type txn) (holding_ids holding)) splits)) = Inr p"
    unfolding holding_ids_def by (rule build_prepared_Inr)
  from l(3) have "prepared_body p = with_lines txn
       (rebuild_where (qbo_type txn) lines (posts_to (qbo_type txn) (holding_ids holding)) splits)"
    by (auto elim!: seal_prepared_Inr simp: prepared_body_def)
  then show thesis using that l(1,2) by blast
qed

lemma body_lines_with_lines [simp]: "body_lines (with_lines txn ls) = ls"
  by (simp add: body_lines_def get_with_lines)

text \<open>The kept lines and the written lines of a prepared body.\<close>

lemma prepared_lines_split:
  assumes "build_prepared_line_write sha txn splits rid holding = Inr p"
  obtains lines new where "lines_of (raw txn) = Inr lines"
    "mset (body_lines (prepared_body p)) = mset (kept_lines (qbo_type txn) holding lines) + mset new"
    "subseq (kept_lines (qbo_type txn) holding lines) (body_lines (prepared_body p))"
    "list_all2 (written_for (qbo_type txn)) splits new"
proof -
  from assms obtain lines where l: "lines_of (raw txn) = Inr lines" "prepared_body p = with_lines txn
       (rebuild_where (qbo_type txn) lines (posts_to (qbo_type txn) (holding_ids holding)) splits)"
    by (rule build_prepared_body)
  obtain new where "mset (body_lines (prepared_body p)) = mset (kept_lines (qbo_type txn) holding lines) + mset new"
    "subseq (kept_lines (qbo_type txn) holding lines) (body_lines (prepared_body p))"
    "list_all2 (written_for (qbo_type txn)) splits new"
    using rebuild_where_written [of "qbo_type txn" lines "posts_to (qbo_type txn) (holding_ids holding)" splits]
    unfolding l(2) kept_lines_def body_lines_with_lines by blast
  with l(1) show thesis by (rule that)
qed

text \<open>
  C14. Every property of the entity other than its lines reaches QuickBooks with the value that
  was read: a prepared write changes no other field.
\<close>

theorem prepared_write_keeps_fields:
  assumes "build_prepared_line_write sha txn splits rid holding = Inr p" "k \<noteq> ''Line''"
  shows "get (prepared_body p) k = get (raw txn) k"
proof -
  from assms(1) have r: "is_record (raw txn)" "identity_matches txn"
    by (auto elim: build_prepared_Inr)
  from assms(1) obtain ls where "prepared_body p = with_lines txn ls" by (rule build_prepared_body)
  moreover obtain fs where "raw txn = JObj fs" using r(1) by (cases "raw txn") auto
  ultimately show ?thesis using assms(2) r(2) by (auto simp: get_with_lines identity_matches_def)
qed



definition split_cents :: "split \<Rightarrow> rat" where
  "split_cents s = (case to_cents (amount s) of Fin c \<Rightarrow> c | _ \<Rightarrow> 0)"

lemma sum_list_mset_eq:
  fixes f :: "'a \<Rightarrow> 'b::comm_monoid_add"
  shows "mset xs = mset ys \<Longrightarrow> sum_list (map f xs) = sum_list (map f ys)"
  by (metis mset_map sum_mset_sum_list)

lemma written_cents:
  assumes "written_for t s l" "amount s = dollars c" "\<bar>c\<bar> \<le> 2 ^ 50"
  shows "known_cents l = split_cents s"
  using assms by (simp add: written_for_def known_cents_def split_cents_def dollars_simps)

lemma written_total:
  assumes "list_all2 (written_for t) ss new" "\<forall>s \<in> set ss. \<exists>c. amount s = dollars c \<and> \<bar>c\<bar> \<le> 2 ^ 50"
  shows "sum_list (map known_cents new) = sum_list (map split_cents ss)"
  using assms by (induction rule: list_all2_induct) (auto simp: written_cents)


section \<open>Properties of the hashes and of the response check\<close>

lemma sanitize_fields_update_dropped:
  "dropped loc r k \<Longrightarrow> sanitize_fields loc r (AList.update k v fs) = sanitize_fields loc r fs"
  by (induction fs) (auto simp: fun_eq_iff split: json.splits)

lemma sanitize_fields_update_lines:
  assumes "map_of fs (js ''Line'') = Some (JArr xs)" "map (sanitize OnLine) ys = map (sanitize OnLine) xs"
  shows "sanitize_fields Top r (AList.update (js ''Line'') (JArr ys) fs) = sanitize_fields Top r fs"
  using assms
  by (induction fs) (auto simp: sanitize_items_map split: if_splits)

lemma is_reference_update:
  "k \<noteq> js ''value'' \<Longrightarrow> is_reference (AList.update k v fs) = is_reference fs"
  by (simp add: update_conv')

declare is_reference.simps [simp del]

text \<open>
  The entity QuickBooks stores for a body: a new \<open>SyncToken\<close> and \<open>MetaData\<close>, and an
  identifier on every line.
\<close>

definition with_line_id :: "json \<Rightarrow> jstring \<Rightarrow> json" where
  "with_line_id l i = JObj (set_field ''Id'' (JStr i) (spread (Some l)))"

definition stored_entity :: "json \<Rightarrow> jstring \<Rightarrow> json \<Rightarrow> jstring list \<Rightarrow> json" where
  "stored_entity body token meta ids =
     JObj (set_field ''Line'' (JArr (map2 with_line_id (body_lines body) ids))
       (set_field ''MetaData'' meta (set_field ''SyncToken'' (JStr token) (spread (Some body)))))"

lemma sanitize_with_line_id: "is_record l \<Longrightarrow> sanitize OnLine (with_line_id l i) = sanitize OnLine l"
  by (cases l) (simp_all add: with_line_id_def is_reference_update dropped_def set_field_def
      sanitize_fields_update_dropped)

lemma sanitize_stored_entity:
  assumes "is_record body" "\<forall>l \<in> set (body_lines body). is_record l" "length ids = length (body_lines body)"
    and "get body ''Line'' = Some (JArr (body_lines body))"
  shows "sanitize Top (stored_entity body token meta ids) = sanitize Top body"
proof -
  obtain fs where b: "body = JObj fs" using assms(1) by (cases body) auto
  let ?ls = "body_lines body"
  let ?fs = "set_field ''MetaData'' meta (set_field ''SyncToken'' (JStr token) fs)"
  have "map (sanitize OnLine) (map2 with_line_id ?ls ids) = map (sanitize OnLine) ?ls"
    using assms(2,3) by (intro nth_equalityI) (auto simp: sanitize_with_line_id)
  then have "sanitize_fields Top r (set_field ''Line'' (JArr (map2 with_line_id ?ls ids)) ?fs)
      = sanitize_fields Top r ?fs" for r
    unfolding set_field_def [of "''Line''"] using assms(4)
    by (intro sanitize_fields_update_lines) (simp_all add: b)
  moreover have "sanitize_fields Top r ?fs = sanitize_fields Top r fs" for r
    by (simp add: set_field_def sanitize_fields_update_dropped dropped_def generated_top_level_fields_def)
  ultimately show ?thesis
    by (simp add: stored_entity_def b set_field_def is_reference_update)
qed

lemma stored_entity_hash:
  assumes "json_ok body" "is_record body" "json_ok (stored_entity body token meta ids)"
    and "get body ''Line'' = Some (JArr (body_lines body))" "\<forall>l \<in> set (body_lines body). is_record l"
    and "length ids = length (body_lines body)"
  shows "hash_content sha (stored_entity body token meta ids) = hash_content sha body"
proof -
  have "is_record (stored_entity body token meta ids)" by (simp add: stored_entity_def)
  then show ?thesis
    using assms by (simp add: hash_content_def assert_json_def lw_check_def sanitize_stored_entity)
qed

text \<open>
  C15. The content hash sees only what the user can change: an entity that QuickBooks stores
  with a new \<open>SyncToken\<close>, new \<open>MetaData\<close> and a new identifier on every line has
  the content hash of the body that was sent.
\<close>

theorem content_hash_of_stored_entity:
  assumes "json_ok body" "is_record body" "json_ok (stored_entity body token meta ids)"
    and "get body ''Line'' = Some (JArr (body_lines body))" "\<forall>l \<in> set (body_lines body). is_record l"
    and "length ids = length (body_lines body)"
  shows "hash_content sha (stored_entity body token meta ids) = hash_content sha body"
  by (rule stored_entity_hash [OF assms])

text \<open>
  A response is accepted only when it is the same entity, its \<open>SyncToken\<close> has moved
  past the one the request carried, and its content text has the digest of the prepared body's
  content text; the result carries that snapshot.
\<close>

theorem accepted_response:
  assumes "verify_line_write_result sha v snap = Inr r"
  shows "snapshot r = snap \<and> new_sync_token r = get snap ''syncToken''
    \<and> get snap ''qboType'' = get v ''qboType'' \<and> get snap ''qboId'' = get v ''qboId''
    \<and> get snap ''syncToken'' \<noteq> get (prepared_body v) ''SyncToken''
    \<and> get snap ''contentHash'' = Some (JStr (sha (canonical (sanitize Top (prepared_body v)))))"
proof -
  from assms obtain before expected body where
    "assert_snapshot True (get v ''before'') = Inr before" "assert_snapshot False (get v ''expected'') = Inr expected"
    "get v ''body'' = Some body"
    "get expected ''qboType'' = get v ''qboType''" "get expected ''qboId'' = get v ''qboId''"
    "get body ''SyncToken'' = get before ''syncToken''"
    "get expected ''contentHash'' = Some (JStr (sha (canonical (sanitize Top body))))"
    "get snap ''qboType'' = get expected ''qboType''" "get snap ''qboId'' = get expected ''qboId''"
    "get snap ''syncToken'' \<noteq> get before ''syncToken''" "get snap ''contentHash'' = get expected ''contentHash''"
    "r = \<lparr>new_sync_token = get snap ''syncToken'', snapshot = snap\<rparr>"
    by (auto simp: verify_line_write_result_def validate_Inr assert_snapshot_Inr Let_def)
  then show ?thesis by (simp add: prepared_body_def assert_snapshot_Inr)
qed

lemma get_stored_entity:
  assumes "is_record body"
  shows "get (stored_entity body token meta ids) ''Id'' = get body ''Id''"
    "get (stored_entity body token meta ids) ''SyncToken'' = Some (JStr token)"
  using assms by (cases body; simp add: stored_entity_def)+

lemma is_hash_sha: "sha256_hex h \<Longrightarrow> is_hash (Some (JStr h))"
  by (simp add: is_hash_def)

lemma hex_unit_ascii: "hex_unit c \<Longrightarrow> c < 0x80"
  by (auto simp: hex_unit_def word_le_nat_alt word_less_nat_alt)

lemma well_formed_ascii: "list_all (\<lambda>c. c < 0x80) s \<Longrightarrow> well_formed_unicode s"
  by (induction s) (auto simp: word_le_nat_alt word_less_nat_alt)

lemma well_formed_hash: "sha256_hex h \<Longrightarrow> well_formed_unicode h"
  unfolding sha256_hex_def list_all_iff
  by (intro well_formed_ascii) (simp add: list_all_iff hex_unit_ascii)

lemma json_ok_get: "json_ok v \<Longrightarrow> get v k = Some u \<Longrightarrow> json_ok u"
  by (cases v) (auto dest!: map_of_SomeD)


lemma normal_validates:
  assumes "validate_prepared_line_write sha v = Inr v"
  shows "validate_prepared_line_write sha (normal v) = Inr (normal v)"
proof -
  from assms obtain body before expected where v: "get v ''body'' = Some body" "is_record body"
    "assert_snapshot True (get v ''before'') = Inr before" "assert_snapshot False (get v ''expected'') = Inr expected"
    and rest: "json_ok v" "is_record v" "is_transfer (get v ''operation'')" "is_qbo_type (get v ''qboType'')"
      "non_empty_string (get v ''qboId'')" "non_empty_string (get v ''requestId'')"
      "get before ''qboType'' = get v ''qboType''" "get before ''qboId'' = get v ''qboId''"
      "get expected ''qboType'' = get v ''qboType''" "get expected ''qboId'' = get v ''qboId''"
      "get body ''Id'' = get v ''qboId''" "get body ''SyncToken'' = get before ''syncToken''" "json_ok body"
      "is_hash (get v ''requestHash'')" "get v ''requestHash'' = Some (JStr (sha (canonical body)))"
      "get expected ''contentHash'' = Some (JStr (sha (canonical (sanitize Top body))))"
      "get before ''contentHash'' \<noteq> get expected ''contentHash''"
    by (auto simp: validate_Inr)
  have snaps: "assert_snapshot True (get (normal v) ''before'') = Inr (normal before)"
    "assert_snapshot False (get (normal v) ''expected'') = Inr (normal expected)"
    using v(3,4) by (simp_all add: assert_snapshot_Inr)
  have "get before ''contentHash'' = map_option normal (get before ''contentHash'')"
    using v(3) normal_option_JStr by (simp add: assert_snapshot_Inr)
  then have "get (normal before) ''contentHash'' \<noteq> get (normal expected) ''contentHash''"
    using rest(16,17) by auto
  moreover have "get (normal expected) ''contentHash'' = Some (JStr (sha (canonical (sanitize Top (normal body)))))"
    using rest(16) by simp
  ultimately show ?thesis
    unfolding validate_Inr using v(1,2) snaps rest by simp
qed

lemma normal_strings_eq:
  assumes "map_option normal v = map_option normal u" "\<exists>s. u = Some (JStr s)"
  shows "v = u"
  using assms by auto

lemma validates_normal:
  assumes "validate_prepared_line_write sha (normal v) = Inr (normal v)"
  shows "validate_prepared_line_write sha v = Inr v"
proof -
  from assms obtain body before expected where g: "get v ''body'' = Some body" "get v ''before'' = Some before"
    "get v ''expected'' = Some expected" "is_record body" "json_ok body"
    and s: "assert_snapshot True (Some (normal before)) = Inr (normal before)"
      "assert_snapshot False (Some (normal expected)) = Inr (normal expected)"
    and rest: "json_ok v" "is_record v" "is_transfer (get v ''operation'')" "is_qbo_type (get v ''qboType'')"
      "non_empty_string (get v ''qboId'')" "non_empty_string (get v ''requestId'')" "is_hash (get v ''requestHash'')"
      "get v ''requestHash'' = Some (JStr (sha (canonical body)))"
      "get expected ''contentHash'' = Some (JStr (sha (canonical (sanitize Top body))))"
    and eqs: "map_option normal (get before ''qboType'') = map_option normal (get v ''qboType'')"
      "map_option normal (get before ''qboId'') = map_option normal (get v ''qboId'')"
      "map_option normal (get expected ''qboType'') = map_option normal (get v ''qboType'')"
      "map_option normal (get expected ''qboId'') = map_option normal (get v ''qboId'')"
      "map_option normal (get body ''Id'') = map_option normal (get v ''qboId'')"
      "map_option normal (get body ''SyncToken'') = map_option normal (get before ''syncToken'')"
      "get before ''contentHash'' \<noteq> get expected ''contentHash''"
    by (auto simp: validate_Inr assert_snapshot_Inr)
  have strings: "\<exists>s. get v ''qboType'' = Some (JStr s)" "\<exists>s. get v ''qboId'' = Some (JStr s)"
    "\<exists>s. get before ''syncToken'' = Some (JStr s)"
    using rest(4,5) s(1)
    by (auto simp: is_qbo_type_def non_empty_string_def assert_snapshot_Inr split: option.splits json.splits)
  show ?thesis
    unfolding validate_Inr
    using g s rest eqs(7) eqs(1,3) [THEN normal_strings_eq [OF _ strings(1)]]
      eqs(2,4,5) [THEN normal_strings_eq [OF _ strings(2)]] normal_strings_eq [OF eqs(6) strings(3)]
    by (simp add: assert_snapshot_Inr)
qed

text \<open>
  A preparation survives a store that does not keep the order of object keys: whether it
  validates does not depend on that order, at any depth.
\<close>

theorem validation_ignores_key_order:
  assumes "normal v = normal w"
  shows "is_qbo_prepared_line_write sha v = is_qbo_prepared_line_write sha w"
proof -
  have "is_qbo_prepared_line_write sha u = (validate_prepared_line_write sha (normal u) = Inr (normal u))" for u
    by (auto simp: is_qbo_prepared_line_write_def split: sum.splits
        dest: validate_same intro: normal_validates validates_normal)
       (metis Inr_not_Inl validates_normal)
  then show ?thesis using assms by simp
qed

text \<open>
  C16. A stored transfer preparation is used only when it is, up to the order of object keys, the
  one write that the transaction and its target line determine, and the text it puts on the
  wire is then the text of that write.
\<close>

theorem stored_preparation_is_authorized:
  assumes "validate_prepared_line_transformation sha v txn splits rid holding = Inr w"
  shows "\<exists>s p. splits = [s] \<and> build_prepared_line_write sha txn splits rid holding = Inr p
    \<and> canonical v = canonical p \<and> serialize_request (prepared_body w) = serialize_request (prepared_body p)"
proof -
  from assms obtain p where p: "build_prepared_line_write sha txn splits rid holding = Inr p"
    "canonical v = canonical p" "validate_prepared_line_write sha (normal p) = Inr w" "length splits = 1"
    by (auto simp: validate_prepared_line_transformation_def dest: validate_same)
  then have "w = normal p" "get p ''body'' = Some (prepared_body p)" "json_ok (prepared_body p)"
    by (auto simp: validate_Inr prepared_body_def)
  then have "prepared_body w = normal (prepared_body p)"
    by (cases "get p ''body''") (simp_all add: prepared_body_def)
  with \<open>json_ok (prepared_body p)\<close> have "serialize_request (prepared_body w) = serialize_request (prepared_body p)"
    by (simp add: serialize_request_def assert_json_def json_ok_normal [THEN iffD2])
  then show ?thesis using p by (auto simp: length_Suc_conv)
qed

section \<open>Properties of the undo\<close>

definition line_key_of :: "category_line \<Rightarrow> line_key option" where
  "line_key_of l = map_option (\<lambda>a. (a, amount_cents l)) (line_account_id l)"

lemma found_update [simp]:
  "found (AList.update k v av) k' = (if k' = k then v else found av k')"
  by (simp add: found_def update_conv')

lemma count_posted_snoc:
  "count_posted (posted @ [s]) =
     AList.update (posted_key s)
       ((case map_of (count_posted posted) (posted_key s) of None \<Rightarrow> 0 | Some n \<Rightarrow> n) + 1) (count_posted posted)"
  by (simp add: count_posted_def Let_def)

lemma map_of_count_posted:
  "map_of (count_posted posted) k =
     (if k \<in> posted_key ` set posted then Some (count_list (map posted_key posted) k) else None)"
proof (induction posted rule: rev_induct)
  case (snoc s posted)
  have "count_list (map posted_key posted) k = 0" if "k \<notin> posted_key ` set posted"
    using that by (simp add: count_list_0_iff)
  with snoc show ?case by (auto simp: count_posted_snoc update_conv' split: option.splits if_splits)
qed (simp add: count_posted_def)

lemma sum_update_count:
  "sum_list (map snd (AList.update k ((case map_of xs k of None \<Rightarrow> 0 | Some n \<Rightarrow> n) + 1) xs))
     = sum_list (map snd xs) + (1::nat)"
  by (induction xs) auto

lemma sum_count_posted: "sum_list (map snd (count_posted posted)) = length posted"
proof (induction posted rule: rev_induct)
  case (snoc s posted)
  then show ?case by (simp only: count_posted_snoc sum_update_count) simp
qed (simp add: count_posted_def)

text \<open>What the collection loop gathers for a needed key: the identifiers of its lines, in order.\<close>

lemma collect_available_found:
  assumes "collect_available needed ls av = Inr av'" "map_of needed k \<noteq> None"
  shows "map (\<lambda>i. Some (JStr i)) (found av' k)
    = map (\<lambda>i. Some (JStr i)) (found av k) @ map line_id (filter (\<lambda>l. line_key_of l = Some k) ls)"
  using assms
proof (induction needed ls av rule: collect_available.induct)
  case (2 needed l ls av)
  show ?case
  proof (cases "line_account_id l")
    case None
    with 2 show ?thesis by (simp add: line_key_of_def)
  next
    case (Some a)
    note acct = this
    show ?thesis
    proof (cases "map_of needed (a, amount_cents l)")
      case None
      then have "k \<noteq> (a, amount_cents l)" using 2(5) by auto
      with 2 acct None show ?thesis by (simp add: line_key_of_def)
    next
      case needed: (Some n)
      with 2(4) acct obtain i where "line_id l = Some (JStr i)" "trim i \<noteq> []"
        by (auto simp: Let_def split: option.splits json.splits if_splits)
      with 2(3,4,5) acct needed show ?thesis by (auto simp: line_key_of_def Let_def)
    qed
  qed
qed simp

lemma take_ids_Inr:
  "take_ids av needed = Inr ids \<longleftrightarrow>
     (\<forall>(k, n) \<in> set needed. length (found av k) = n) \<and> ids = concat (map (\<lambda>(k, n). found av k) needed)"
  by (induction needed arbitrary: ids) (auto simp: Let_def split: if_splits)

text \<open>
  The undo never guesses: the identifiers it selects are those of exactly the lines with a
  posted account and amount, there are as many of them for each account and amount as the
  post wrote, and so as many as the post wrote in all.
\<close>

theorem posted_lines_exact:
  assumes ids: "find_posted_line_ids txn posted = Inr ids" and lines: "category_lines txn = Inr lines"
  shows "(\<forall>k \<in> posted_key ` set posted.
      length (filter (\<lambda>l. line_key_of l = Some k) lines) = count_list (map posted_key posted) k)
    \<and> (\<lambda>i. Some (JStr i)) ` set ids
        = line_id ` {l \<in> set lines. line_key_of l \<in> Some ` posted_key ` set posted}
    \<and> length ids = length posted"
proof -
  let ?needed = "count_posted posted"
  from ids lines obtain av where av: "collect_available ?needed lines [] = Inr av"
    "\<forall>(k, n) \<in> set ?needed. length (found av k) = n" "ids = concat (map (\<lambda>(k, n). found av k) ?needed)"
    by (auto simp: find_posted_line_ids_def Let_def take_ids_Inr)
  have keys: "set (map fst ?needed) = posted_key ` set posted"
    by (auto simp: map_of_count_posted dest: weak_map_of_SomeI
        intro!: set_eqI simp flip: dom_map_of_conv_image_fst simp: dom_def)
  have f: "map (\<lambda>i. Some (JStr i)) (found av k) = map line_id (filter (\<lambda>l. line_key_of l = Some k) lines)"
    if "k \<in> posted_key ` set posted" for k
    using collect_available_found [OF av(1), of k] that
    by (simp add: map_of_count_posted found_def)
  have n: "length (found av k) = count_list (map posted_key posted) k" if "k \<in> posted_key ` set posted" for k
    using av(2) that map_of_count_posted [of posted k] by (auto dest!: map_of_SomeD split: if_splits)
  have "length (filter (\<lambda>l. line_key_of l = Some k) lines) = count_list (map posted_key posted) k"
    if "k \<in> posted_key ` set posted" for k
    using arg_cong [OF f [OF that], of length] n [OF that] by simp
  moreover have "(\<lambda>i. Some (JStr i)) ` set ids
        = line_id ` {l \<in> set lines. line_key_of l \<in> Some ` posted_key ` set posted}"
  proof -
    have "set ids = (\<Union>k \<in> posted_key ` set posted. set (found av k))"
      unfolding keys [symmetric] av(3) by (auto simp: case_prod_beta)
    then have "(\<lambda>i. Some (JStr i)) ` set ids
        = (\<Union>k \<in> posted_key ` set posted. set (map (\<lambda>i. Some (JStr i)) (found av k)))"
      by (simp add: image_UN)
    also have "\<dots> = (\<Union>k \<in> posted_key ` set posted. set (map line_id (filter (\<lambda>l. line_key_of l = Some k) lines)))"
      by (simp only: f cong: SUP_cong)
    also have "\<dots> = line_id ` {l \<in> set lines. line_key_of l \<in> Some ` posted_key ` set posted}"
      by auto
    finally show ?thesis .
  qed
  moreover have "length ids = length posted"
  proof -
    have "length ids = sum_list (map (\<lambda>(k, n). length (found av k)) ?needed)"
      unfolding av(3) by (simp add: length_concat comp_def split_def)
    also have "\<dots> = sum_list (map snd ?needed)"
      using av(2) by (intro arg_cong [of _ _ sum_list] map_cong) auto
    finally show ?thesis by (simp add: sum_count_posted)
  qed
  ultimately show ?thesis by blast
qed


end
