(* ===== verification/LineWriteWitness.thy ===== *)
theory LineWriteWitness
  imports LineWrite
begin

text \<open>
  A concrete Purchase with one holding line and one categorized line, the write that moves the
  holding line to a category, and the applications of the properties of \<open>LineWrite\<close> to it.
\<close>

section \<open>A purchase and its write\<close>

definition demo_line :: "string \<Rightarrow> int \<Rightarrow> fields \<Rightarrow> json" where
  "demo_line i c ref =
     JObj [(js ''Id'', JStr (js i)), (js ''Amount'', JNum (dollars c)),
       (js ''DetailType'', JStr (js ''AccountBasedExpenseLineDetail'')),
       (js ''AccountBasedExpenseLineDetail'', JObj [(js ''AccountRef'', JObj ref)])]"

definition demo_raw :: json where
  "demo_raw =
     JObj [(js ''Id'', JStr (js ''101'')), (js ''SyncToken'', JStr (js ''3'')),
       (js ''Line'', JArr
         [demo_line ''1'' 2000 [(js ''value'', JStr (js ''35'')), (js ''name'', JStr (js ''Ask''))],
          demo_line ''2'' 500 [(js ''value'', JStr (js ''60''))]])]"

definition demo_body :: json where
  "demo_body =
     JObj [(js ''Id'', JStr (js ''101'')), (js ''SyncToken'', JStr (js ''3'')),
       (js ''Line'', JArr
         [demo_line ''1'' 2000 [(js ''value'', JStr (js ''42''))],
          demo_line ''2'' 500 [(js ''value'', JStr (js ''60''))]])]"

definition demo_txn :: qbo_txn where
  "demo_txn = \<lparr>qbo_id = js ''101'', qbo_type = Purchase, sync_token = js ''3'',
     txn_date = js ''2026-07-01'', raw = demo_raw\<rparr>"

definition demo_splits :: "split list" where
  "demo_splits = [\<lparr>amount = dollars 2000, account = js ''42'', memo = None\<rparr>]"

definition demo_sha :: "jstring \<Rightarrow> jstring" where
  "demo_sha t = replicate 64 (if t = canonical (sanitize Top demo_raw) then 97 else 98)"

definition demo_prepared :: json where
  "demo_prepared = prepared_json demo_txn (js ''r1'') demo_body (demo_sha (canonical demo_body))
     (demo_sha (canonical (sanitize Top demo_raw))) (demo_sha (canonical (sanitize Top demo_body)))"

lemma demo_sha_hex: "sha256_hex (demo_sha t)"
  by (simp add: demo_sha_def sha256_hex_def hex_unit_def list_all_iff)

lemma demo_trim [simp]:
  "trim (js ''101'') \<noteq> []" "trim (js ''3'') \<noteq> []" "trim (js ''4'') \<noteq> []" "trim (js ''r1'') \<noteq> []"
  "trim (js ''1'') \<noteq> []" "trim (js ''r2'') \<noteq> []" "trim (js ''35'') \<noteq> []" "trim (js ''42'') \<noteq> []"
  by code_simp+

lemma demo_ok: "json_ok demo_raw" "json_ok demo_body"
  by (simp_all add: demo_raw_def demo_body_def demo_line_def json_number_dollars)

lemmas demo_sanitize = demo_raw_def demo_body_def demo_line_def sanitize_items_map dropped_def
  generated_top_level_fields_def is_reference.simps

lemma demo_hashes_differ: "canonical (sanitize Top demo_raw) \<noteq> canonical (sanitize Top demo_body)"
  by (simp add: demo_sanitize sort_key_def) code_simp

lemma demo_lines: "lines_of demo_raw = Inr (body_lines demo_raw)"
  by (simp add: lines_of_def demo_raw_def body_lines_def demo_line_def)

lemma demo_rebuild:
  "with_lines demo_txn (rebuild_where Purchase (body_lines demo_raw) (posts_to Purchase [js ''35'']) demo_splits)
     = demo_body"
  by (simp add: with_lines_def demo_txn_def body_lines_def demo_raw_def demo_body_def demo_line_def
      rebuild_purchase_lines_where_def rebuild_lines_def posts_to_def line_reads has_id_def demo_splits_def
      update_line_def set_field_def delete_field_def set_memo_def dollars_simps)

lemma demo_identity: "get demo_body ''Id'' = Some (JStr (js ''101''))"
  "get demo_body ''SyncToken'' = Some (JStr (js ''3''))" "is_record demo_body" "is_record demo_raw"
  "get demo_raw ''Id'' = Some (JStr (js ''101''))" "get demo_raw ''SyncToken'' = Some (JStr (js ''3''))"
  by (simp_all add: demo_body_def demo_raw_def)

lemma demo_before:
  "assert_snapshot True (get demo_prepared ''before'') = Inr (the (get demo_prepared ''before''))"
  "assert_snapshot False (get demo_prepared ''expected'') = Inr (the (get demo_prepared ''expected''))"
  using demo_sha_hex
  by (simp_all add: assert_snapshot_Inr demo_prepared_def prepared_json_def demo_txn_def is_hash_def
      is_qbo_type_def non_empty_string_def well_formed_hash)

lemma demo_valid: "validate_prepared_line_write demo_sha demo_prepared = Inr demo_prepared"
proof -
  have "json_ok demo_prepared"
    using demo_sha_hex demo_ok
    by (simp add: demo_prepared_def prepared_json_def demo_txn_def well_formed_hash)
  moreover have "is_record demo_prepared" by (simp add: demo_prepared_def prepared_json_def)
  moreover have "demo_sha (canonical (sanitize Top demo_raw)) \<noteq> demo_sha (canonical (sanitize Top demo_body))"
    using demo_hashes_differ by (auto simp: demo_sha_def)
  ultimately show ?thesis
    using demo_before demo_ok demo_identity demo_sha_hex
    by (simp add: validate_Inr demo_prepared_def is_transfer_def is_qbo_type_def non_empty_string_def
        demo_txn_def is_hash_def) (simp add: prepared_json_def)
qed

lemma demo_build:
  "build_prepared_line_write demo_sha demo_txn demo_splits (js ''r1'') [js ''35''] = Inr demo_prepared"
proof -
  have "seal_prepared demo_sha demo_txn (js ''r1'') demo_body = Inr demo_prepared"
    using demo_valid demo_ok demo_identity
    by (simp add: seal_prepared_def hash_request_Inr hash_content_Inr demo_prepared_def demo_txn_def)
  moreover have "filter (posts_to Purchase [js ''35'']) (body_lines demo_raw) \<noteq> []"
    by (simp add: body_lines_def demo_raw_def demo_line_def posts_to_def line_account_def chain_def has_id_def)
  moreover have "demo_splits \<noteq> [] \<and> list_all valid_split demo_splits"
    by (simp add: demo_splits_def valid_split_def is_finite_dollars)
  ultimately show ?thesis
    using demo_lines demo_rebuild demo_identity
    by (simp add: build_prepared_line_write_def holding_line_count_def rebuild_by_account_def
        identity_matches_def demo_txn_def)
qed

section \<open>The properties at work\<close>

lemma demo_prepared_body [simp]: "prepared_body demo_prepared = demo_body"
  by (simp add: prepared_body_def demo_prepared_def)

lemma demo_holding [simp]: "holding_ids [js ''35''] = [js ''35'']"
  by (simp add: holding_ids_def)

theorem prepared_write_keeps_fields_witness:
  "get (prepared_body demo_prepared) ''SyncToken'' = get (raw demo_txn) ''SyncToken''
    \<and> get (prepared_body demo_prepared) ''SyncToken'' = Some (JStr (js ''3''))"
  using prepared_write_keeps_fields [OF demo_build, of "''SyncToken''"] demo_identity by simp




lemma demo_stored_ok: "json_ok (stored_entity demo_body (js ''4'') JNull [js ''1'', js ''2''])"
  by (simp add: stored_entity_def demo_body_def demo_line_def body_lines_def set_field_def with_line_id_def
      json_number_dollars)

lemma demo_body_lines: "get demo_body ''Line'' = Some (JArr (body_lines demo_body))"
  "\<forall>l \<in> set (body_lines demo_body). is_record l" "length [js ''1'', js ''2''] = length (body_lines demo_body)"
  by (simp_all add: body_lines_def demo_body_def demo_line_def)

theorem content_hash_of_stored_entity_witness:
  "hash_content demo_sha (stored_entity demo_body (js ''4'') JNull [js ''1'', js ''2''])
     = hash_content demo_sha demo_body"
  by (rule content_hash_of_stored_entity [OF demo_ok(2) demo_identity(3) demo_stored_ok demo_body_lines])

definition demo_snapshot :: json where
  "demo_snapshot = JObj [(js ''qboType'', JStr (js ''Purchase'')), (js ''qboId'', JStr (js ''101'')),
     (js ''syncToken'', JStr (js ''4'')), (js ''contentHash'', JStr (demo_sha (canonical (sanitize Top demo_body))))]"

lemma demo_verify:
  "verify_line_write_result demo_sha demo_prepared demo_snapshot
     = Inr \<lparr>new_sync_token = Some (JStr (js ''4'')), snapshot = demo_snapshot\<rparr>"
proof -
  have "assert_snapshot True (Some demo_snapshot) = Inr demo_snapshot"
    using demo_sha_hex
    by (simp add: assert_snapshot_Inr demo_snapshot_def is_hash_def is_qbo_type_def non_empty_string_def
        well_formed_hash)
  then show ?thesis
    using demo_valid
    by (simp add: verify_line_write_result_def)
       (simp add: demo_snapshot_def demo_prepared_def prepared_json_def demo_txn_def)
qed

theorem accepted_response_witness:
  "get demo_snapshot ''qboId'' = get demo_prepared ''qboId''
    \<and> get demo_snapshot ''syncToken'' \<noteq> get (prepared_body demo_prepared) ''SyncToken''"
  using accepted_response [OF demo_verify] by blast



theorem stored_preparation_is_authorized_witness:
  "\<exists>p. build_prepared_line_write demo_sha demo_txn demo_splits (js ''r1'') [js ''35''] = Inr p
    \<and> canonical demo_prepared = canonical p"
proof -
  have "length demo_splits = 1" by (simp add: demo_splits_def)
  moreover have ok: "json_ok demo_prepared" using demo_valid by (simp add: validate_Inr)
  moreover have "validate_prepared_line_write demo_sha (normal demo_prepared) = Inr (normal demo_prepared)"
    using demo_valid by (rule normal_validates)
  ultimately have "validate_prepared_line_transformation demo_sha demo_prepared demo_txn demo_splits
      (js ''r1'') [js ''35''] = Inr (normal demo_prepared)"
    using demo_valid demo_build by (simp add: validate_prepared_line_transformation_def assert_json_def lw_check_def)
  from stored_preparation_is_authorized [OF this] show ?thesis by blast
qed

definition posted_txn :: qbo_txn where
  "posted_txn = demo_txn\<lparr>raw := demo_body, sync_token := js ''3''\<rparr>"

lemma to_cents_2000: "to_cents (dollars 2000) = Fin 2000"
  by (simp add: dollars_simps)

lemma posted_lines: "category_lines posted_txn = Inr
    [\<lparr>line_id = Some (JStr (js ''1'')), line_account_id = Some (js ''42''), amount_cents = Fin 2000\<rparr>,
     \<lparr>line_id = Some (JStr (js ''2'')), line_account_id = Some (js ''60''), amount_cents = Fin 500\<rparr>]"
  by (simp add: category_lines_def lines_of_def posted_txn_def demo_txn_def demo_body_def demo_line_def
      category_line_of_def json_string_def line_account_def chain_def line_cents_def dollars_simps)

lemma posted_ids: "find_posted_line_ids posted_txn demo_splits = Inr [js ''1'']"
  by (simp add: find_posted_line_ids_def posted_lines count_posted_def demo_splits_def posted_key_def
      to_cents_2000 found_def Let_def)

theorem posted_lines_exact_witness:
  "(\<lambda>i. Some (JStr i)) ` set [js ''1'']
     = line_id ` {l \<in> set (case category_lines posted_txn of Inr ls \<Rightarrow> ls).
         line_key_of l \<in> Some ` posted_key ` set demo_splits}"
  using posted_lines_exact [OF posted_ids posted_lines] posted_lines by simp

theorem validation_ignores_key_order_witness:
  "is_qbo_prepared_line_write demo_sha (normal demo_prepared)"
  using validation_ignores_key_order [of demo_prepared "normal demo_prepared" demo_sha] demo_valid
  by (simp add: is_qbo_prepared_line_write_def)

definition restored_body :: json where
  "restored_body =
     JObj [(js ''Id'', JStr (js ''101'')), (js ''SyncToken'', JStr (js ''3'')),
       (js ''Line'', JArr
         [demo_line ''1'' 2000 [(js ''value'', JStr (js ''35''))],
          demo_line ''2'' 500 [(js ''value'', JStr (js ''60''))]])]"

definition demo_restored :: json where
  "demo_restored = prepared_json posted_txn (js ''r2'') restored_body (demo_sha (canonical restored_body))
     (demo_sha (canonical (sanitize Top demo_body))) (demo_sha (canonical (sanitize Top restored_body)))"

lemma restored_dollars: "restored_amount demo_splits = dollars 2000"
proof -
  have "js_add (Fin 0) (Fin 2000) = Fin 2000" using fl_of_int [of 2000] by (simp add: js_add.simps)
  moreover have "js_over (Fin 2000) 100 = dollars 2000" by (simp add: dollars_def)
  ultimately show ?thesis by (simp add: restored_amount_def demo_splits_def to_cents_2000)
qed

lemma restored_same: "canonical (sanitize Top restored_body) = canonical (sanitize Top demo_raw)"
  by (simp add: restored_body_def demo_sanitize sort_key_def)

lemma restored_ok: "json_ok restored_body" "is_record restored_body"
  "get restored_body ''Id'' = Some (JStr (js ''101''))" "get restored_body ''SyncToken'' = Some (JStr (js ''3''))"
  by (simp_all add: restored_body_def demo_line_def json_number_dollars)

lemma restored_parts:
  "assert_snapshot True (get demo_restored ''before'') = Inr (the (get demo_restored ''before''))"
  "assert_snapshot False (get demo_restored ''expected'') = Inr (the (get demo_restored ''expected''))"
  using demo_sha_hex
  by (simp_all add: assert_snapshot_Inr demo_restored_def prepared_json_def posted_txn_def demo_txn_def is_hash_def
      is_qbo_type_def non_empty_string_def well_formed_hash)

lemma restored_valid: "validate_prepared_line_write demo_sha demo_restored = Inr demo_restored"
proof -
  have "json_ok demo_restored"
    using demo_sha_hex restored_ok
    by (simp add: demo_restored_def prepared_json_def posted_txn_def demo_txn_def well_formed_hash)
  moreover have "is_record demo_restored" by (simp add: demo_restored_def prepared_json_def)
  moreover have "demo_sha (canonical (sanitize Top demo_body)) \<noteq> demo_sha (canonical (sanitize Top restored_body))"
    using demo_hashes_differ restored_same by (auto simp: demo_sha_def)
  ultimately show ?thesis
    using restored_parts restored_ok demo_sha_hex
    by (simp add: validate_Inr demo_restored_def is_transfer_def is_qbo_type_def non_empty_string_def
        posted_txn_def demo_txn_def is_hash_def) (simp add: prepared_json_def)
qed

lemma restored_rebuild:
  "with_lines posted_txn (rebuild_where Purchase (body_lines demo_body) (has_line_id Purchase [js ''1''])
     [\<lparr>amount = dollars 2000, account = js ''35'', memo = None\<rparr>]) = restored_body"
  by (simp add: with_lines_def posted_txn_def demo_txn_def body_lines_def restored_body_def demo_body_def demo_line_def
      rebuild_purchase_lines_where_def rebuild_lines_def has_line_id_def line_reads has_id_def
      update_line_def set_field_def delete_field_def set_memo_def dollars_simps)

lemma posted_raw: "raw posted_txn = demo_body" "qbo_type posted_txn = Purchase"
  "lines_of demo_body = Inr (body_lines demo_body)"
  by (simp_all add: posted_txn_def demo_txn_def lines_of_def demo_body_def body_lines_def demo_line_def)

lemma demo_restore:
  "build_prepared_line_restore demo_sha posted_txn demo_splits (js ''35'') (js ''r2'') = Inr demo_restored"
proof -
  have "seal_prepared demo_sha posted_txn (js ''r2'') restored_body = Inr demo_restored"
    using restored_valid demo_ok restored_ok demo_identity
    by (simp add: seal_prepared_def hash_request_Inr hash_content_Inr demo_restored_def posted_raw)
  moreover have "identity_matches posted_txn" "demo_splits \<noteq> []"
    using demo_identity by (simp_all add: identity_matches_def posted_txn_def demo_txn_def demo_splits_def)
  ultimately show ?thesis
    using demo_identity restored_rebuild
    by (simp add: build_prepared_line_restore_def posted_raw posted_ids restored_dollars)
qed


end
