(* ===== verification/JsDate.thy ===== *)
theory JsDate
  imports JsText
begin

text \<open>
  The calendar of \<open>Date\<close>: day numbers since 1970-01-01 and back, after the ECMAScript
  day and year functions, the \<open>YYYY-MM-DD\<close> text, and the check that the code makes of
  such a text (\<open>dateOnly\<close> in \<open>lib/qbo/writeSafety.ts\<close>). A text that passes
  names a day of the calendar, and two such texts compare as strings the way their days do.
\<close>

section \<open>Day numbers\<close>

definition leap :: "int \<Rightarrow> bool" where
  "leap y \<longleftrightarrow> y mod 4 = 0 \<and> y mod 100 \<noteq> 0 \<or> y mod 400 = 0"

definition month_length :: "int \<Rightarrow> int \<Rightarrow> int" where
  "month_length y m =
     (if m = 2 then (if leap y then 29 else 28) else if m \<in> {4, 6, 9, 11} then 30 else 31)"

definition day_from_year :: "int \<Rightarrow> int" where
  "day_from_year y = 365 * (y - 1970) + (y - 1969) div 4 - (y - 1901) div 100 + (y - 1601) div 400"

definition days_before :: "int \<Rightarrow> int \<Rightarrow> int" where
  "days_before y m = (\<Sum>k \<leftarrow> [1..m - 1]. month_length y k)"

definition make_day :: "int \<Rightarrow> int \<Rightarrow> int \<Rightarrow> int" where
  "make_day y m d = day_from_year y + days_before y m + d - 1"

definition year_of :: "int \<Rightarrow> int" where
  "year_of n =
     (let y = 1970 + (400 * n) div 146097
      in if n < day_from_year y then y - 1 else if day_from_year (y + 1) \<le> n then y + 1 else y)"

definition month_of :: "int \<Rightarrow> int \<Rightarrow> int" where
  "month_of y k = int (length (filter (\<lambda>m. days_before y m \<le> k) [1..12]))"

definition civil :: "int \<Rightarrow> int \<times> int \<times> int" where
  "civil n =
     (let y = year_of n; k = n - day_from_year y; m = month_of y k
      in (y, m, k - days_before y m + 1))"

lemma div_step:
  fixes x k :: int
  assumes "0 < k"
  shows "(x + 1) div k = x div k + (if (x + 1) mod k = 0 then 1 else 0)"
proof -
  have x: "x = k * ((x + 1) div k) + (x + 1) mod k - 1" by simp
  show ?thesis
  proof (cases "(x + 1) mod k = 0")
    case True
    then have "x div k = (x + 1) div k - 1"
      using x assms by (intro int_div_pos_eq [where r = "k - 1"]) (auto simp: algebra_simps)
    then show ?thesis using True by simp
  next
    case False
    moreover have "0 \<le> (x + 1) mod k" "(x + 1) mod k < k" using assms by simp_all
    ultimately have "x div k = (x + 1) div k"
      using x by (intro int_div_pos_eq [where r = "(x + 1) mod k - 1"]) linarith+
    then show ?thesis using False by simp
  qed
qed

lemma day_from_year_Suc: "day_from_year (y + 1) = day_from_year y + (if leap y then 366 else 365)"
proof -
  have shift: "(y - 1968) mod 4 = y mod 4" "(y - 1900) mod 100 = y mod 100" "(y - 1600) mod 400 = y mod 400"
    using mod_mult_self2 [of y 4 "- 492"] by (simp, simp flip: mod_diff_right_eq, simp flip: mod_diff_right_eq)
  have succ: "y - 1969 + 1 = y - 1968" "y - 1901 + 1 = y - 1900" "y - 1601 + 1 = y - 1600"
    "y + 1 - 1969 = y - 1968" "y + 1 - 1901 = y - 1900" "y + 1 - 1601 = y - 1600" "y + 1 - 1970 = y - 1969"
    by simp_all
  define a b c where "a = (y - 1969) div 4" and "b = (y - 1901) div 100" and "c = (y - 1601) div 400"
  define p q r where "p \<longleftrightarrow> y mod 4 = 0" and "q \<longleftrightarrow> y mod 100 = 0" and "r \<longleftrightarrow> y mod 400 = 0"
  have "(y - 1968) div 4 = a + (if p then 1 else 0)" "(y - 1900) div 100 = b + (if q then 1 else 0)"
    "(y - 1600) div 400 = c + (if r then 1 else 0)"
    using div_step [of 4 "y - 1969"] div_step [of 100 "y - 1901"] div_step [of 400 "y - 1601"]
    by (simp_all only: succ shift zero_less_numeral simp_thms a_def b_def c_def p_def q_def r_def)
  then have next_year: "day_from_year (y + 1) = 365 * (y - 1969) + (a + (if p then 1 else 0))
      - (b + (if q then 1 else 0)) + (c + (if r then 1 else 0))"
    by (simp only: day_from_year_def succ)
  have this_year: "day_from_year y = 365 * (y - 1970) + a - b + c"
    by (simp only: day_from_year_def a_def b_def c_def)
  have leap: "leap y \<longleftrightarrow> p \<and> \<not> q \<or> r" by (simp only: leap_def p_def q_def r_def)
  have "r \<Longrightarrow> q" "q \<Longrightarrow> p"
    unfolding p_def q_def r_def mod_eq_0_iff_dvd
    by (rule dvd_trans [of _ "400::int"], simp, assumption) (rule dvd_trans [of _ "100::int"], simp, assumption)
  then show ?thesis unfolding next_year this_year leap by (cases p; cases q; cases r) auto
qed

lemma day_from_year_mono: "x \<le> y \<Longrightarrow> day_from_year x \<le> day_from_year y"
proof (induction y rule: int_ge_induct)
  case (step i)
  then show ?case using day_from_year_Suc [of i] by (simp split: if_splits)
qed simp

lemma div_bounds:
  fixes z d :: int
  assumes "0 < d"
  shows "d * (z div d) \<le> z" "z - d < d * (z div d)"
  using assms pos_mod_sign [of d z] pos_mod_bound [of d z] by (simp_all flip: minus_mod_eq_mult_div)

lemma year_of_bounds: "day_from_year (year_of n) \<le> n \<and> n < day_from_year (year_of n + 1)"
proof -
  define y where "y = 1970 + (400 * n) div 146097"
  define a b c where "a = (y - 1969) div 4" and "b = (y - 1901) div 100" and "c = (y - 1601) div 400"
  define a' b' c' where "a' = (y + 2 - 1969) div 4" and "b' = (y + 2 - 1901) div 100" and "c' = (y + 2 - 1601) div 400"
  define a'' b'' c'' where "a'' = (y - 1 - 1969) div 4" and "b'' = (y - 1 - 1901) div 100" and "c'' = (y - 1 - 1601) div 400"
  define q where "q = (400 * n) div 146097"
  have q: "146097 * q \<le> 400 * n" "400 * n < 146097 * q + 146097" and y: "y = 1970 + q"
    by (simp_all add: q_def y_def)
  have d': "day_from_year (y + 2) = 365 * (q + 2) + a' - b' + c'"
    by (simp add: day_from_year_def a'_def b'_def c'_def y)
  have d'': "day_from_year (y - 1) = 365 * (q - 1) + a'' - b'' + c''"
    by (simp add: day_from_year_def a''_def b''_def c''_def y)
  have "4 * a' > y + 2 - 1969 - 4" "100 * b' \<le> y + 2 - 1901" "400 * c' > y + 2 - 1601 - 400"
    unfolding a'_def b'_def c'_def by (simp_all only: div_bounds zero_less_numeral)
  then have "n < day_from_year (y + 2)" using q d' y by (simp add: algebra_simps)
  moreover have "4 * a'' \<le> y - 1 - 1969" "100 * b'' > y - 1 - 1901 - 100" "400 * c'' \<le> y - 1 - 1601"
    unfolding a''_def b''_def c''_def by (simp_all only: div_bounds zero_less_numeral)
  then have "day_from_year (y - 1) \<le> n" using q d'' y by (simp add: algebra_simps)
  ultimately show ?thesis
    unfolding year_of_def y_def [symmetric] Let_def by (auto simp: add.commute)
qed

lemma year_of_eq:
  assumes "day_from_year y \<le> n" "n < day_from_year (y + 1)"
  shows "year_of n = y"
proof (rule linorder_cases [of "year_of n" y])
  assume "year_of n < y"
  then show ?thesis using year_of_bounds [of n] day_from_year_mono [of "year_of n + 1" y] assms by simp
next
  assume "y < year_of n"
  then show ?thesis using year_of_bounds [of n] day_from_year_mono [of "y + 1" "year_of n"] assms by simp
qed

lemma upto_numeral_months: "[1..12] = [1, 2, 3, 4, 5, 6, 7, 8, 9, 10, 11, 12::int]"
  by (simp add: upto.simps)

lemma month_cases: "(1::int) \<le> m \<Longrightarrow> m \<le> 12 \<Longrightarrow> m \<in> {1, 2, 3, 4, 5, 6, 7, 8, 9, 10, 11, 12}"
  by (simp, presburger)

lemma days_before_values:
  "days_before y 1 = 0" "days_before y 2 = 31" "days_before y 3 = 59 + (if leap y then 1 else 0)"
  "days_before y 4 = 90 + (if leap y then 1 else 0)" "days_before y 5 = 120 + (if leap y then 1 else 0)"
  "days_before y 6 = 151 + (if leap y then 1 else 0)" "days_before y 7 = 181 + (if leap y then 1 else 0)"
  "days_before y 8 = 212 + (if leap y then 1 else 0)" "days_before y 9 = 243 + (if leap y then 1 else 0)"
  "days_before y 10 = 273 + (if leap y then 1 else 0)" "days_before y 11 = 304 + (if leap y then 1 else 0)"
  "days_before y 12 = 334 + (if leap y then 1 else 0)"
  by (simp_all add: days_before_def upto.simps month_length_def)

lemma month_of_days_before:
  assumes m: "1 \<le> m" "m \<le> 12" and d: "1 \<le> d" "d \<le> month_length y m"
  shows "month_of y (days_before y m + d - 1) = m"
    and "days_before y m + d - 1 < (if leap y then 366 else 365)" and "0 \<le> days_before y m"
proof -
  have "month_of y (days_before y m + d - 1) = m
      \<and> days_before y m + d - 1 < (if leap y then 366 else 365) \<and> 0 \<le> days_before y m"
  proof (cases "leap y")
    case True
    with month_cases [OF m] d show ?thesis
      by (elim insertE emptyE) (simp_all add: month_of_def upto_numeral_months days_before_values month_length_def)
  next
    case False
    with month_cases [OF m] d show ?thesis
      by (elim insertE emptyE) (simp_all add: month_of_def upto_numeral_months days_before_values month_length_def)
  qed
  then show "month_of y (days_before y m + d - 1) = m"
    and "days_before y m + d - 1 < (if leap y then 366 else 365)" and "0 \<le> days_before y m"
    by simp_all
qed

lemma civil_make_day:
  assumes "1 \<le> m" "m \<le> 12" "1 \<le> d" "d \<le> month_length y m"
  shows "civil (make_day y m d) = (y, m, d)"
proof -
  have "year_of (make_day y m d) = y"
    using month_of_days_before [OF assms] day_from_year_Suc [of y] assms
    by (intro year_of_eq) (auto simp: make_day_def)
  moreover have "make_day y m d - day_from_year y = days_before y m + d - 1" by (simp add: make_day_def)
  ultimately show ?thesis
    using month_of_days_before(1) [OF assms] by (simp add: civil_def Let_def)
qed

lemma civil_valid:
  assumes "civil n = (y, m, d)"
  shows "1 \<le> m \<and> m \<le> 12 \<and> 1 \<le> d \<and> d \<le> month_length y m \<and> n = make_day y m d"
proof -
  let ?k = "n - day_from_year y"
  from assms have y: "year_of n = y" and m: "m = month_of y ?k" and d: "d = ?k - days_before y m + 1"
    by (auto simp: civil_def Let_def)
  have "0 \<le> ?k" "?k < (if leap y then 366 else 365)"
    using year_of_bounds [of n] day_from_year_Suc [of y] unfolding y by auto
  then have "1 \<le> m \<and> m \<le> 12 \<and> days_before y m \<le> ?k \<and> ?k < days_before y m + month_length y m"
    unfolding m month_of_def upto_numeral_months
    by (auto simp: days_before_values month_length_def split: if_splits)
  then show ?thesis unfolding d by (simp add: make_day_def)
qed

section \<open>Date texts\<close>

definition digit_unit :: "int \<Rightarrow> unit16" where
  "digit_unit k = of_int (48 + k)"

fun digit_value :: "unit16 \<Rightarrow> int option" where
  "digit_value c = (if 48 \<le> c \<and> c \<le> 57 then Some (uint c - 48) else None)"

definition pad2 :: "int \<Rightarrow> jstring" where
  "pad2 n = [digit_unit (n div 10 mod 10), digit_unit (n mod 10)]"

definition iso_date :: "int \<times> int \<times> int \<Rightarrow> jstring" where
  "iso_date date =
     (case date of (y, m, d) \<Rightarrow>
        pad2 (y div 100) @ pad2 (y mod 100) @ js ''-'' @ pad2 m @ js ''-'' @ pad2 d)"

text \<open>The pattern \<open>\d{4}-\d{2}-\d{2}\<close> and the numbers it delimits.\<close>

definition all_digits :: "unit16 list \<Rightarrow> int list option" where
  "all_digits cs = those (map digit_value cs)"

fun date_parts :: "jstring \<Rightarrow> (int \<times> int \<times> int) option" where
  "date_parts [a, b, c, d, s, e, f, t, g, h] =
     (if s = 45 \<and> t = 45
      then case all_digits [a, b, c, d, e, f, g, h] of
             Some [a, b, c, d, e, f, g, h] \<Rightarrow> Some (100 * (10 * a + b) + (10 * c + d), 10 * e + f, 10 * g + h)
           | _ \<Rightarrow> None
      else None)"
| "date_parts _ = None"

text \<open>
  \<open>new Date(\`${value}T00:00:00.000Z\`)\<close> accepts months 1 to 12 and days 1 to 31 and carries
  a day past the end of its month into the next month.
\<close>

definition date_day :: "jstring \<Rightarrow> int option" where
  "date_day s =
     (case date_parts s of
        Some (y, m, d) \<Rightarrow>
          if 1 \<le> m \<and> m \<le> 12 \<and> 1 \<le> d \<and> d \<le> 31 then Some (make_day y m d) else None
      | None \<Rightarrow> None)"

definition date_only :: "jstring \<Rightarrow> bool" where
  "date_only s = (case date_day s of Some n \<Rightarrow> iso_date (civil n) = s | None \<Rightarrow> False)"

lemma uint_digit_unit: "0 \<le> k \<Longrightarrow> k \<le> 9 \<Longrightarrow> uint (digit_unit k) = 48 + k"
  by (simp only: digit_unit_def uint_word_of_int_eq) (simp add: take_bit_int_eq_self)

lemma digit_value_Some: "digit_value c = Some k \<longleftrightarrow> 0 \<le> k \<and> k \<le> 9 \<and> c = digit_unit k"
proof
  assume "digit_value c = Some k"
  then have c: "48 \<le> c" "c \<le> 57" "48 + k = uint c" by (simp_all split: if_splits)
  then have "uint c \<ge> 48" "uint c \<le> 57" by (simp_all add: word_le_def)
  moreover have "c = digit_unit k" by (simp only: digit_unit_def c(3) of_int_uint) simp
  ultimately show "0 \<le> k \<and> k \<le> 9 \<and> c = digit_unit k" using c(3) by simp
next
  assume k: "0 \<le> k \<and> k \<le> 9 \<and> c = digit_unit k"
  then have "uint c = 48 + k" by (simp add: uint_digit_unit)
  then show "digit_value c = Some k" using k by (simp add: word_le_def)
qed

declare digit_value.simps [simp del]

lemma digit_value_digit_unit [simp]: "0 \<le> k \<Longrightarrow> k \<le> 9 \<Longrightarrow> digit_value (digit_unit k) = Some k"
  by (simp add: digit_value_Some)

lemma digit_unit_less: "0 \<le> k \<Longrightarrow> k \<le> 9 \<Longrightarrow> 0 \<le> l \<Longrightarrow> l \<le> 9 \<Longrightarrow> digit_unit k < digit_unit l \<longleftrightarrow> k < l"
  by (simp only: word_less_def uint_digit_unit) simp

lemma digit_unit_inj: "0 \<le> k \<Longrightarrow> k \<le> 9 \<Longrightarrow> 0 \<le> l \<Longrightarrow> l \<le> 9 \<Longrightarrow> digit_unit k = digit_unit l \<longleftrightarrow> k = l"
  by (metis digit_value_digit_unit option.inject)

lemma two_digits: "0 \<le> n \<Longrightarrow> n \<le> 99 \<Longrightarrow> 10 * (n div 10 mod 10) + n mod 10 = (n::int)"
proof -
  assume n: "0 \<le> n" "n \<le> 99"
  have "n div 10 \<le> 99 div 10" using n by (intro zdiv_mono1) auto
  moreover have "0 \<le> n div 10" using n by (simp add: pos_imp_zdiv_nonneg_iff)
  ultimately have "n div 10 mod 10 = n div 10" by (intro mod_pos_pos_trivial) auto
  then show ?thesis by (simp only: mult_div_mod_eq)
qed

lemma two_digits_of: "0 \<le> a \<Longrightarrow> a \<le> 9 \<Longrightarrow> 0 \<le> b \<Longrightarrow> b \<le> 9 \<Longrightarrow> pad2 (10 * a + b) = [digit_unit a, digit_unit b]"
  by (simp add: pad2_def)

lemma dash: "js ''-'' = [45]" by (simp add: js_def)

lemma hundreds: "0 \<le> b \<Longrightarrow> b < 100 \<Longrightarrow> (100 * a + b) div 100 = (a::int) \<and> (100 * a + b) mod 100 = b"
  by simp

lemma date_parts_iso:
  assumes "0 \<le> y" "y \<le> 9999" "0 \<le> m" "m \<le> 99" "0 \<le> d" "d \<le> 99"
  shows "date_parts (iso_date (y, m, d)) = Some (y, m, d)"
proof -
  have "0 \<le> y div 100" "y div 100 \<le> 99" "0 \<le> y mod 100" "y mod 100 \<le> 99" "100 * (y div 100) + y mod 100 = y"
    using assms by simp_all
  moreover define h l where "h = y div 100" and "l = y mod 100"
  ultimately have "100 * (10 * (h div 10 mod 10) + h mod 10) + (10 * (l div 10 mod 10) + l mod 10) = y"
    using two_digits [of h] two_digits [of l] by simp
  moreover have "date_parts (iso_date (y, m, d)) =
      Some (100 * (10 * (h div 10 mod 10) + h mod 10) + (10 * (l div 10 mod 10) + l mod 10),
        10 * (m div 10 mod 10) + m mod 10, 10 * (d div 10 mod 10) + d mod 10)"
    by (simp add: iso_date_def pad2_def dash all_digits_def h_def l_def)
  ultimately show ?thesis
    using two_digits [of m] two_digits [of d] assms by (simp only:)
qed

lemma iso_date_parts:
  assumes "date_parts s = Some (y, m, d)"
  shows "s = iso_date (y, m, d) \<and> 0 \<le> y \<and> y \<le> 9999 \<and> 0 \<le> m \<and> m \<le> 99 \<and> 0 \<le> d \<and> d \<le> 99"
proof -
  from assms obtain a b c d1 e f g h where s: "s = map digit_unit [a, b, c, d1] @ [45] @ map digit_unit [e, f] @ [45] @ map digit_unit [g, h]"
    and digits: "\<forall>k \<in> {a, b, c, d1, e, f, g, h}. 0 \<le> k \<and> k \<le> 9"
    and parts: "y = 100 * (10 * a + b) + (10 * c + d1)" "m = 10 * e + f" "d = 10 * g + h"
    by (auto simp: all_digits_def digit_value_Some elim!: date_parts.elims split: if_splits option.splits list.splits)
  have "y div 100 = 10 * a + b" "y mod 100 = 10 * c + d1"
    unfolding parts(1) using digits hundreds [of "10 * c + d1" "10 * a + b"] by (simp_all only: ball_simps) linarith+
  then have "s = iso_date (y, m, d)"
    using digits by (simp add: s parts(2,3) iso_date_def two_digits_of dash)
  then show ?thesis using parts digits by auto
qed

lemma pad2_less:
  assumes "0 \<le> n" "n \<le> 99" "0 \<le> k" "k \<le> 99"
  shows "pad2 n @ s \<le> pad2 k @ t \<longleftrightarrow> n < k \<or> n = k \<and> s \<le> t"
proof -
  obtain a b a' b' where n: "n = 10 * a + b" "k = 10 * a' + b'"
    and "0 \<le> a" "a \<le> 9" "0 \<le> b" "b \<le> 9" "0 \<le> a'" "a' \<le> 9" "0 \<le> b'" "b' \<le> 9"
    using that [of "n div 10" "n mod 10" "k div 10" "k mod 10"] assms by simp
  then show ?thesis
    by (auto simp: n two_digits_of digit_unit_less digit_unit_inj)
qed

lemma iso_date_less_eq:
  assumes "0 \<le> y" "y \<le> 9999" "0 \<le> m" "m \<le> 99" "0 \<le> d" "d \<le> 99"
    and "0 \<le> y'" "y' \<le> 9999" "0 \<le> m'" "m' \<le> 99" "0 \<le> d'" "d' \<le> 99"
  shows "iso_date (y, m, d) \<le> iso_date (y', m', d') \<longleftrightarrow> y < y' \<or> y = y' \<and> (m < m' \<or> m = m' \<and> d \<le> d')"
proof -
  have y: "y = 100 * (y div 100) + y mod 100" "y' = 100 * (y' div 100) + y' mod 100" by simp_all
  define h l h' l' where "h = y div 100" and "l = y mod 100" and "h' = y' div 100" and "l' = y' mod 100"
  have b: "0 \<le> h" "h \<le> 99" "0 \<le> l" "l \<le> 99" "0 \<le> h'" "h' \<le> 99" "0 \<le> l'" "l' \<le> 99"
    using assms by (simp_all add: h_def l_def h'_def l'_def)
  have "pad2 d \<le> pad2 d' \<longleftrightarrow> d \<le> d'"
    using pad2_less [of d d' "[]" "[]"] assms by auto
  then have "iso_date (y, m, d) \<le> iso_date (y', m', d') \<longleftrightarrow>
      h < h' \<or> h = h' \<and> (l < l' \<or> l = l' \<and> (m < m' \<or> m = m' \<and> d \<le> d'))"
    using b assms by (simp add: iso_date_def pad2_less dash flip: h_def l_def h'_def l'_def)
  also have "\<dots> \<longleftrightarrow> y < y' \<or> y = y' \<and> (m < m' \<or> m = m' \<and> d \<le> d')"
    using b y unfolding h_def [symmetric] l_def [symmetric] h'_def [symmetric] l'_def [symmetric] by auto
  finally show ?thesis .
qed

section \<open>What a date text means\<close>

lemma month_length_le: "month_length y m \<le> 31" by (simp add: month_length_def)

text \<open>A text passes the check exactly when it names a day of the calendar.\<close>

lemma overflow_day:
  assumes "1 \<le> m" "m \<le> 12" "month_length y m < d" "d \<le> 31"
  shows "civil (make_day y m d) = (y, m + 1, d - month_length y m) \<and> m + 1 \<le> 12"
proof -
  from assms have m: "m \<in> {2, 4, 6, 9, 11}" by (auto simp: month_length_def split: if_splits)
  then have "days_before y (m + 1) = days_before y m + month_length y m"
    by (elim insertE emptyE) (simp_all add: days_before_values month_length_def)
  then have "make_day y m d = make_day y (m + 1) (d - month_length y m)" by (simp add: make_day_def)
  moreover have "d - month_length y m \<le> 3" "3 \<le> month_length y (m + 1)"
    using m assms by (auto simp: month_length_def)
  ultimately show ?thesis using m assms by (auto intro!: civil_make_day)
qed

lemma date_only_iff:
  "date_only s \<longleftrightarrow> (\<exists>y m d. s = iso_date (y, m, d) \<and> 0 \<le> y \<and> y \<le> 9999 \<and> 1 \<le> m \<and> m \<le> 12
     \<and> 1 \<le> d \<and> d \<le> month_length y m)"
proof
  assume "date_only s"
  then obtain y m d where p: "date_parts s = Some (y, m, d)" "1 \<le> m" "m \<le> 12" "1 \<le> d" "d \<le> 31"
    and same: "iso_date (civil (make_day y m d)) = s"
    by (auto simp: date_only_def date_day_def split: option.splits if_splits)
  have s: "s = iso_date (y, m, d)" "0 \<le> y" "y \<le> 9999"
    using iso_date_parts [OF p(1)] by auto
  have "d \<le> month_length y m"
  proof (rule ccontr)
    assume "\<not> d \<le> month_length y m"
    then have late: "month_length y m < d" by simp
    have "iso_date (y, m + 1, d - month_length y m) = iso_date (y, m, d)"
      using overflow_day [OF p(2,3) late p(5)] same s(1) by simp
    then have "date_parts (iso_date (y, m + 1, d - month_length y m)) = date_parts (iso_date (y, m, d))" by simp
    moreover have "date_parts (iso_date (y, m + 1, d - month_length y m)) = Some (y, m + 1, d - month_length y m)"
      using p late s by (intro date_parts_iso) (auto simp: month_length_def)
    ultimately show False using p(1) s(1) by simp
  qed
  then show "\<exists>y m d. s = iso_date (y, m, d) \<and> 0 \<le> y \<and> y \<le> 9999 \<and> 1 \<le> m \<and> m \<le> 12 \<and> 1 \<le> d \<and> d \<le> month_length y m"
    using p s by auto
next
  assume "\<exists>y m d. s = iso_date (y, m, d) \<and> 0 \<le> y \<and> y \<le> 9999 \<and> 1 \<le> m \<and> m \<le> 12 \<and> 1 \<le> d \<and> d \<le> month_length y m"
  then obtain y m d where "s = iso_date (y, m, d)" "0 \<le> y" "y \<le> 9999" "1 \<le> m" "m \<le> 12" "1 \<le> d" "d \<le> month_length y m"
    by blast
  then show "date_only s"
    using month_length_le [of y m] by (simp add: date_only_def date_day_def date_parts_iso civil_make_day)
qed

lemma date_day_iso:
  assumes "0 \<le> y" "y \<le> 9999" "1 \<le> m" "m \<le> 12" "1 \<le> d" "d \<le> month_length y m"
  shows "date_day (iso_date (y, m, d)) = Some (make_day y m d)"
  using assms month_length_le [of y m] by (simp add: date_day_def date_parts_iso)

lemma days_before_mono:
  assumes "1 \<le> m" "m < m'" "m' \<le> 12"
  shows "days_before y m + month_length y m \<le> days_before y m'"
proof -
  have "m' \<in> {1, 2, 3, 4, 5, 6, 7, 8, 9, 10, 11, 12}" "m \<in> {1, 2, 3, 4, 5, 6, 7, 8, 9, 10, 11, 12}"
    using month_cases [of m] month_cases [of m'] assms by simp_all
  then show ?thesis
    using assms(2) by (elim insertE emptyE) (simp_all add: days_before_values month_length_def)
qed

lemma make_day_less:
  assumes "1 \<le> m" "m \<le> 12" "1 \<le> d" "d \<le> month_length y m"
    and "1 \<le> m'" "m' \<le> 12" "1 \<le> d'" "d' \<le> month_length y' m'"
    and "y < y' \<or> y = y' \<and> (m < m' \<or> m = m' \<and> d < d')"
  shows "make_day y m d < make_day y' m' d'"
proof (cases "y < y'")
  case True
  then have "day_from_year (y + 1) \<le> day_from_year y'" by (intro day_from_year_mono) simp
  then show ?thesis
    using month_of_days_before(2) [OF assms(1-4)] month_of_days_before(3) [OF assms(5-8)]
      day_from_year_Suc [of y] assms(7)
    by (simp add: make_day_def split: if_splits)
next
  case False
  then show ?thesis using assms days_before_mono [of m m' y] by (auto simp: make_day_def)
qed

lemma make_day_less_eq:
  assumes "1 \<le> m" "m \<le> 12" "1 \<le> d" "d \<le> month_length y m"
    and "1 \<le> m'" "m' \<le> 12" "1 \<le> d'" "d' \<le> month_length y' m'"
  shows "make_day y m d \<le> make_day y' m' d' \<longleftrightarrow> y < y' \<or> y = y' \<and> (m < m' \<or> m = m' \<and> d \<le> d')"
  using make_day_less [OF assms] make_day_less [OF assms(5-8,1-4)] by force

lemma date_texts_compare:
  assumes "date_only s" "date_only t"
  shows "s \<le> t \<longleftrightarrow> the (date_day s) \<le> the (date_day t)"
proof -
  from assms obtain y m d y' m' d' where
    s: "s = iso_date (y, m, d)" "0 \<le> y" "y \<le> 9999" "1 \<le> m" "m \<le> 12" "1 \<le> d" "d \<le> month_length y m"
    and t: "t = iso_date (y', m', d')" "0 \<le> y'" "y' \<le> 9999" "1 \<le> m'" "m' \<le> 12" "1 \<le> d'" "d' \<le> month_length y' m'"
    by (auto simp: date_only_iff)
  then show ?thesis
    using make_day_less_eq [OF s(4-7) t(4-7)] month_length_le [of y m] month_length_le [of y' m']
    by (simp add: date_day_iso iso_date_less_eq)
qed

end
