(* ===== verification/WriteSafety.thy ===== *)
theory WriteSafety
  imports LineWrite JsDate
begin

text \<open>
  The closed-period guard of \<open>lib/qbo/writeSafety.ts\<close>: no write to a QuickBooks entity
  that is dated on or before the date through which the books are closed, nor to one whose
  identity, date or funding account cannot be established.
\<close>

section \<open>The guard\<close>

text \<open>An error of the client that reads the evidence passes through.\<close>

datatype write_safety_error = PeriodClosed jstring | SafetyUnavailable | ClientError jstring

type_synonym 'a ws = "write_safety_error + 'a"

record safety_target =
  target_type :: jstring
  target_id :: jstring
  target_date :: jstring
  bank_account :: jstring

definition is_write_safety_type :: "jstring \<Rightarrow> bool" where
  "is_write_safety_type t \<longleftrightarrow> t = js ''Purchase'' \<or> t = js ''Deposit'' \<or> t = js ''JournalEntry''"

definition non_empty :: "jstring \<Rightarrow> bool" where
  "non_empty s \<longleftrightarrow> trim s \<noteq> [] \<and> length s \<le> 200"

text \<open>The evidence is the date through which the books are closed, if there is one.\<close>

definition assert_qbo_write_allowed :: "safety_target \<Rightarrow> jstring option \<Rightarrow> unit ws" where
  "assert_qbo_write_allowed target close_date =
     (if \<not> is_write_safety_type (target_type target)
         \<or> \<not> non_empty (target_id target)
         \<or> \<not> non_empty (bank_account target)
         \<or> \<not> date_only (target_date target)
         \<or> (case close_date of None \<Rightarrow> False | Some d \<Rightarrow> \<not> date_only d)
      then Inl SafetyUnavailable
      else case close_date of
             None \<Rightarrow> Inr ()
           | Some d \<Rightarrow> if target_date target \<le> d then Inl (PeriodClosed d) else Inr ())"

section \<open>The target of a transaction\<close>

fun ref_value :: "json option \<Rightarrow> jstring option" where
  "ref_value (Some v) = (case get v ''value'' of Some (JStr i) \<Rightarrow> if i = [] then None else Some i | _ \<Rightarrow> None)"
| "ref_value None = None"

fun first_credit_account :: "json list \<Rightarrow> jstring option" where
  "first_credit_account [] = None"
| "first_credit_account (line # lines) =
     (let detail = get line ''JournalEntryLineDetail'';
          account = ref_value (chain detail ''AccountRef'')
      in if chain detail ''PostingType'' = Some (JStr (js ''Credit'')) \<and> account \<noteq> None
         then account else first_credit_account lines)"

definition funding_account :: "qbo_txn \<Rightarrow> jstring option" where
  "funding_account txn =
     (case qbo_type txn of
        Purchase \<Rightarrow> ref_value (get (raw txn) ''AccountRef'')
      | Deposit \<Rightarrow> ref_value (get (raw txn) ''DepositToAccountRef'')
      | JournalEntry \<Rightarrow> first_credit_account (array_items (get (raw txn) ''Line'')))"

definition txn_write_safety_target :: "qbo_txn \<Rightarrow> safety_target ws" where
  "txn_write_safety_target txn =
     (case funding_account txn of
        None \<Rightarrow> Inl SafetyUnavailable
      | Some a \<Rightarrow> Inr \<lparr>target_type = type_text (qbo_type txn), target_id = qbo_id txn,
                       target_date = txn_date txn, bank_account = a\<rparr>)"

definition assert_txn_write_safety ::
  "(safety_target \<Rightarrow> jstring option ws) \<Rightarrow> qbo_txn \<Rightarrow> unit ws" where
  "assert_txn_write_safety fetch txn =
     (case txn_write_safety_target txn of
        Inl e \<Rightarrow> Inl e
      | Inr target \<Rightarrow>
          (case fetch target of
             Inl e \<Rightarrow> Inl e
           | Inr close_date \<Rightarrow> assert_qbo_write_allowed target close_date))"

section \<open>Properties\<close>

text \<open>The day that a date text names.\<close>

abbreviation day_of :: "jstring \<Rightarrow> int" where
  "day_of s \<equiv> the (date_day s)"

lemma allowed_iff:
  "assert_qbo_write_allowed target close_date = Inr u \<longleftrightarrow>
     is_write_safety_type (target_type target) \<and> non_empty (target_id target) \<and> non_empty (bank_account target)
     \<and> date_only (target_date target)
     \<and> (case close_date of None \<Rightarrow> True | Some d \<Rightarrow> date_only d \<and> day_of d < day_of (target_date target))"
  by (auto simp: assert_qbo_write_allowed_def date_texts_compare not_le split: option.splits if_splits)

lemma first_credit_account_Some:
  "first_credit_account ls = Some a \<Longrightarrow>
     \<exists>l \<in> set ls. chain (get l ''JournalEntryLineDetail'') ''PostingType'' = Some (JStr (js ''Credit''))
       \<and> ref_value (chain (get l ''JournalEntryLineDetail'') ''AccountRef'') = Some a"
  by (induction ls) (auto simp: Let_def split: if_splits)

text \<open>
  C18. A write is let through exactly when the funding account of the entity and the evidence
  are readable, the identity and the dates are well formed, and the calendar day of the entity
  lies after the last closed day.
\<close>

theorem write_allowed_iff:
  "assert_txn_write_safety fetch txn = Inr () \<longleftrightarrow>
     (\<exists>account close_date. funding_account txn = Some account
       \<and> fetch \<lparr>target_type = type_text (qbo_type txn), target_id = qbo_id txn,
                target_date = txn_date txn, bank_account = account\<rparr> = Inr close_date
       \<and> non_empty (qbo_id txn) \<and> non_empty account \<and> date_only (txn_date txn)
       \<and> (case close_date of None \<Rightarrow> True
           | Some d \<Rightarrow> date_only d \<and> day_of d < day_of (txn_date txn)))"
proof -
  have "is_write_safety_type (type_text t)" for t by (cases t) (simp_all add: is_write_safety_type_def)
  then show ?thesis
    by (auto simp: assert_txn_write_safety_def txn_write_safety_target_def allowed_iff
        split: option.splits sum.splits)
qed

text \<open>
  C19. The dates that the guard lets through are exactly the days of the calendar, and their
  order as strings, which is the comparison the guard makes, is their order in time.
\<close>

theorem guard_dates_are_days:
  "(date_only s \<longleftrightarrow> (\<exists>y m d. s = iso_date (y, m, d) \<and> date_day s = Some (make_day y m d)
      \<and> civil (make_day y m d) = (y, m, d) \<and> 0 \<le> y \<and> y \<le> 9999))
   \<and> (date_only s \<and> date_only t \<longrightarrow> (s \<le> t \<longleftrightarrow> day_of s \<le> day_of t))"
proof (intro conjI impI)
  show "date_only s \<longleftrightarrow> (\<exists>y m d. s = iso_date (y, m, d) \<and> date_day s = Some (make_day y m d)
      \<and> civil (make_day y m d) = (y, m, d) \<and> 0 \<le> y \<and> y \<le> 9999)" (is "_ = ?days")
  proof
    assume "date_only s"
    then obtain y m d where s: "s = iso_date (y, m, d)" "0 \<le> y" "y \<le> 9999"
      and d: "1 \<le> m" "m \<le> 12" "1 \<le> d" "d \<le> month_length y m"
      by (auto simp: date_only_iff)
    then show ?days using date_day_iso [OF s(2,3) d] civil_make_day [OF d] by blast
  next
    assume ?days
    then obtain y m d where s: "s = iso_date (y, m, d)" "0 \<le> y" "y \<le> 9999"
      and c: "civil (make_day y m d) = (y, m, d)" by blast
    then show "date_only s" unfolding date_only_iff using civil_valid [OF c] by blast
  qed
next
  assume "date_only s \<and> date_only t"
  then show "s \<le> t \<longleftrightarrow> day_of s \<le> day_of t" by (simp add: date_texts_compare)
qed

section \<open>A closed period\<close>

lemma leap_day_text: "js ''2024-02-29'' = iso_date (2024, 2, 29)" "js ''2024-03-01'' = iso_date (2024, 3, 1)"
  by code_simp+

lemma leap_day_ok: "date_only (js ''2024-02-29'')" "date_only (js ''2024-03-01'')"
  unfolding date_only_iff leap_day_text by (rule exI [of _ 2024], rule exI [of _ 2], rule exI [of _ 29], simp add: month_length_def leap_def)
    (rule exI [of _ 2024], rule exI [of _ 3], rule exI [of _ 1], simp add: month_length_def)

theorem guard_dates_are_days_witness:
  "day_of (js ''2024-02-29'') \<le> day_of (js ''2024-03-01'')"
  using guard_dates_are_days [of "js ''2024-02-29''" "js ''2024-03-01''"] leap_day_ok by simp

end
