(* ===== verification/LeaseTable.thy ===== *)
theory LeaseTable
  imports Prelude
begin

text \<open>
  Several services keep leases as database rows: an owner and an expiry time per key. A
  transaction reads the database clock once, when it starts, and may commit later; a lease
  holds when no transaction of another owner touches a row that was live on its clock. The
  locale states this contract of a table; its theorem is the mutual exclusion that the clients
  of the lease rely on, over every interleaving of transactions.
\<close>

inductive lease_run ::
  "(int \<Rightarrow> 'o \<Rightarrow> 's \<Rightarrow> 's \<Rightarrow> bool) \<Rightarrow> ('o \<Rightarrow> bool) \<Rightarrow> int \<times> 's \<Rightarrow> int \<times> 's \<Rightarrow> bool"
  for step :: "int \<Rightarrow> 'o \<Rightarrow> 's \<Rightarrow> 's \<Rightarrow> bool" and actor :: "'o \<Rightarrow> bool"
where
  start: "lease_run step actor c c"
| clock: "lease_run step actor c (t, s) \<Longrightarrow> t \<le> t' \<Longrightarrow> lease_run step actor c (t', s)"
| commit: "lease_run step actor c (t, s) \<Longrightarrow> actor x \<Longrightarrow> now \<le> t \<Longrightarrow> step now x s s'
    \<Longrightarrow> lease_run step actor c (t, s')"

locale lease_table =
  fixes row :: "'s \<Rightarrow> 'k \<Rightarrow> ('o \<times> int) option"
    and step :: "int \<Rightarrow> 'o \<Rightarrow> 's \<Rightarrow> 's \<Rightarrow> bool"
  assumes live_row_kept:
    "step now x s s' \<Longrightarrow> row s k = Some (y, e) \<Longrightarrow> y \<noteq> x \<Longrightarrow> now < e \<Longrightarrow> row s' k = Some (y, e)"
begin

lemma held_until_expiry:
  assumes "lease_run step (\<lambda>x. x \<noteq> y) c d" "row (snd c) k = Some (y, e)"
  shows "fst d < e \<longrightarrow> row (snd d) k = Some (y, e)"
  using assms
proof (induction rule: lease_run.induct)
  case (commit c t s x now s')
  then show ?case using live_row_kept [of now x s s' k y e] by auto
qed auto

lemma clock_monotonic:
  assumes "lease_run step actor c d"
  shows "fst c \<le> fst d"
  using assms by (induction rule: lease_run.induct) auto

end

end
