(* ===== verification/EntityLease.thy ===== *)
theory EntityLease
  imports LeaseTable JsText
begin

text \<open>
  The database leases on QuickBooks entities (\<open>services/entityLease.ts\<close>): canonical key
  order, acquisition, renewal, release and fencing as functions of the lease table, the two
  bracketing functions that run a callback under leases, and the steps they make on the table.
  Times are milliseconds; the clock is an argument.
\<close>

section \<open>Keys\<close>

datatype lease_key = LeaseKey (company_id: jstring) (entity_type: jstring) (entity_id: jstring)

text \<open>\<open>compareEntityLeaseKeys\<close> is the lexicographic order of the three fields.\<close>

text \<open>The order of \<open>compareEntityLeaseKeys\<close>: by company, then type, then identity.\<close>

fun key_le :: "lease_key \<Rightarrow> lease_key \<Rightarrow> bool" where
  "key_le (LeaseKey a b c) (LeaseKey a' b' c') \<longleftrightarrow>
     a < a' \<or> a = a' \<and> (b < b' \<or> b = b' \<and> c \<le> c')"

instantiation lease_key :: linorder
begin

definition less_eq_lease_key :: "lease_key \<Rightarrow> lease_key \<Rightarrow> bool" where
  "less_eq_lease_key = key_le"

definition less_lease_key :: "lease_key \<Rightarrow> lease_key \<Rightarrow> bool" where
  "less_lease_key k l \<longleftrightarrow> key_le k l \<and> \<not> key_le l k"

instance
proof
  fix x y z :: lease_key
  show "x < y \<longleftrightarrow> x \<le> y \<and> \<not> y \<le> x" by (simp add: less_lease_key_def less_eq_lease_key_def)
  show "x \<le> x" by (cases x) (simp add: less_eq_lease_key_def)
  show "x \<le> y \<Longrightarrow> y \<le> z \<Longrightarrow> x \<le> z" by (cases x; cases y; cases z) (auto simp: less_eq_lease_key_def)
  show "x \<le> y \<Longrightarrow> y \<le> x \<Longrightarrow> x = y" by (cases x; cases y) (auto simp: less_eq_lease_key_def)
  show "x \<le> y \<or> y \<le> x" by (cases x; cases y) (auto simp: less_eq_lease_key_def)
qed

end

lemma less_eq_lease_key_simps [simp]:
  "LeaseKey a b c \<le> LeaseKey a' b' c' \<longleftrightarrow> a < a' \<or> a = a' \<and> (b < b' \<or> b = b' \<and> c \<le> c')"
  by (simp add: less_eq_lease_key_def)

datatype lease_error = EntityBusy | DuplicateEntity

fun adjacent_equal :: "'a list \<Rightarrow> bool" where
  "adjacent_equal (x # y # zs) \<longleftrightarrow> x = y \<or> adjacent_equal (y # zs)"
| "adjacent_equal _ \<longleftrightarrow> False"

definition canonical_keys :: "lease_key list \<Rightarrow> lease_error + lease_key list" where
  "canonical_keys keys =
     (let canonical = sort keys
      in if adjacent_equal canonical then Inl DuplicateEntity else Inr canonical)"

lemma adjacent_equal_sorted: "sorted xs \<Longrightarrow> adjacent_equal xs \<longleftrightarrow> \<not> distinct xs"
  by (induction xs rule: adjacent_equal.induct) force+

lemma canonical_keys_Inr: "canonical_keys keys = Inr ks \<longleftrightarrow> distinct keys \<and> ks = sort keys"
  by (auto simp: canonical_keys_def Let_def adjacent_equal_sorted)

lemma canonical_keys_Inl: "canonical_keys keys = Inl e \<longleftrightarrow> \<not> distinct keys \<and> e = DuplicateEntity"
  by (auto simp: canonical_keys_def Let_def adjacent_equal_sorted)

section \<open>The table\<close>

text \<open>
  Keys are unique in the table, so an update or a deletion by key touches at most one row.
\<close>

type_synonym lease_row = "jstring \<times> int"
type_synonym leases = "lease_key \<rightharpoonup> lease_row"

definition update_row :: "(lease_row \<Rightarrow> bool) \<Rightarrow> lease_key \<Rightarrow> lease_row \<Rightarrow> leases \<Rightarrow> leases \<times> nat" where
  "update_row cond key new_row rows =
     (case rows key of
        Some r \<Rightarrow> if cond r then (rows(key \<mapsto> new_row), 1) else (rows, 0)
      | None \<Rightarrow> (rows, 0))"

definition create_row :: "lease_key \<Rightarrow> lease_row \<Rightarrow> leases \<Rightarrow> leases option" where
  "create_row key new_row rows = (if rows key = None then Some (rows(key \<mapsto> new_row)) else None)"

definition delete_row :: "(lease_row \<Rightarrow> bool) \<Rightarrow> lease_key \<Rightarrow> leases \<Rightarrow> leases \<times> nat" where
  "delete_row cond key rows =
     (case rows key of
        Some r \<Rightarrow> if cond r then (rows(key := None), 1) else (rows, 0)
      | None \<Rightarrow> (rows, 0))"

definition default_ttl :: int where
  "default_ttl = 30000"

definition js_trunc :: "rat \<Rightarrow> int" where
  "js_trunc x = (if 0 \<le> x then \<lfloor>x\<rfloor> else \<lceil>x\<rceil>)"

definition bounded_ttl :: "jsnum option \<Rightarrow> int" where
  "bounded_ttl ttl =
     (case ttl of
        Some (Fin x) \<Rightarrow> max 1 (min (js_trunc x) default_ttl)
      | _ \<Rightarrow> default_ttl)"

section \<open>Acquisition, renewal, release, fencing\<close>

definition free_for :: "int \<Rightarrow> jstring \<Rightarrow> lease_row \<Rightarrow> bool" where
  "free_for now owner r \<longleftrightarrow> snd r \<le> now \<or> fst r = owner"

fun acquire_canonical ::
  "int \<Rightarrow> int \<Rightarrow> jstring \<Rightarrow> lease_key list \<Rightarrow> leases \<Rightarrow> lease_error + leases" where
  "acquire_canonical now expires owner [] rows = Inr rows"
| "acquire_canonical now expires owner (key # keys) rows =
     (let (rows', n) = update_row (free_for now owner) key (owner, expires) rows
      in if n = 1 then acquire_canonical now expires owner keys rows'
         else case create_row key (owner, expires) rows' of
                None \<Rightarrow> Inl EntityBusy
              | Some rows'' \<Rightarrow> acquire_canonical now expires owner keys rows'')"

text \<open>A transaction that fails leaves the table as it was: the result is the new table or the error.\<close>

definition acquire_entity_leases ::
  "int \<Rightarrow> jsnum option \<Rightarrow> jstring \<Rightarrow> lease_key list \<Rightarrow> leases \<Rightarrow> lease_error + leases" where
  "acquire_entity_leases now ttl owner keys rows =
     (case canonical_keys keys of
        Inl e \<Rightarrow> Inl e
      | Inr canonical \<Rightarrow> acquire_canonical now (now + bounded_ttl ttl) owner canonical rows)"

definition acquire_entity_lease ::
  "int \<Rightarrow> jsnum option \<Rightarrow> jstring \<Rightarrow> lease_key \<Rightarrow> leases \<Rightarrow> lease_error + leases" where
  "acquire_entity_lease now ttl owner key rows = acquire_entity_leases now ttl owner [key] rows"

fun renew_canonical ::
  "int \<Rightarrow> int \<Rightarrow> jstring \<Rightarrow> lease_key list \<Rightarrow> leases \<Rightarrow> lease_error + leases" where
  "renew_canonical now expires owner [] rows = Inr rows"
| "renew_canonical now expires owner (key # keys) rows =
     (let (rows', n) = update_row (free_for now owner) key (owner, expires) rows
      in if n \<noteq> 1 then Inl EntityBusy else renew_canonical now expires owner keys rows')"

definition renew_entity_leases ::
  "int \<Rightarrow> jsnum option \<Rightarrow> jstring \<Rightarrow> lease_key list \<Rightarrow> leases \<Rightarrow> lease_error + leases" where
  "renew_entity_leases now ttl owner keys rows =
     (case canonical_keys keys of
        Inl e \<Rightarrow> Inl e
      | Inr canonical \<Rightarrow> renew_canonical now (now + bounded_ttl ttl) owner canonical rows)"

definition renew_entity_lease ::
  "int \<Rightarrow> jsnum option \<Rightarrow> jstring \<Rightarrow> lease_key \<Rightarrow> leases \<Rightarrow> lease_error + leases" where
  "renew_entity_lease now ttl owner key rows =
     (let (rows', n) = update_row (\<lambda>r. fst r = owner \<and> now < snd r) key (owner, now + bounded_ttl ttl) rows
      in if n \<noteq> 1 then Inl EntityBusy else Inr rows')"

definition release_entity_lease :: "jstring \<Rightarrow> lease_key \<Rightarrow> leases \<Rightarrow> leases \<times> bool" where
  "release_entity_lease owner key rows =
     (let (rows', n) = delete_row (\<lambda>r. fst r = owner) key rows in (rows', n = 1))"

fun release_entity_leases :: "jstring \<Rightarrow> lease_key list \<Rightarrow> leases \<Rightarrow> leases" where
  "release_entity_leases owner [] rows = rows"
| "release_entity_leases owner (key # keys) rows =
     release_entity_leases owner keys (fst (delete_row (\<lambda>r. fst r = owner) key rows))"

definition fence_entity_lease :: "int \<Rightarrow> jstring \<Rightarrow> leases \<Rightarrow> lease_key \<Rightarrow> lease_error + unit" where
  "fence_entity_lease clock owner rows key =
     (case rows key of
        Some (o', e) \<Rightarrow> if clock < e \<and> o' = owner then Inr () else Inl EntityBusy
      | None \<Rightarrow> Inl EntityBusy)"

text \<open>
  The fence of several keys reads \<open>clock_timestamp()\<close> in each statement: \<open>clock k\<close>
  is the reading at the row of \<open>k\<close>.
\<close>

fun fence_canonical :: "(lease_key \<Rightarrow> int) \<Rightarrow> jstring \<Rightarrow> leases \<Rightarrow> lease_key list \<Rightarrow> lease_error + unit" where
  "fence_canonical clock owner rows [] = Inr ()"
| "fence_canonical clock owner rows (key # keys) =
     (case fence_entity_lease (clock key) owner rows key of
        Inl e \<Rightarrow> Inl e
      | Inr _ \<Rightarrow> fence_canonical clock owner rows keys)"

definition fence_entity_leases :: "(lease_key \<Rightarrow> int) \<Rightarrow> jstring \<Rightarrow> leases \<Rightarrow> lease_key list \<Rightarrow> lease_error + unit" where
  "fence_entity_leases clock owner rows keys =
     (case canonical_keys keys of Inl e \<Rightarrow> Inl e | Inr canonical \<Rightarrow> fence_canonical clock owner rows canonical)"

section \<open>Running a callback under leases\<close>

text \<open>
  A callback maps the table to the table it leaves and its outcome. The outcome of a bracket is
  a lease error, an error of the callback or its value; the second component tells whether a
  failed clean-up was reported.
\<close>

type_synonym ('e, 'a) bracket = "leases \<times> bool \<times> ((lease_error + 'e) + 'a)"

fun outcome :: "'e + 'a \<Rightarrow> (lease_error + 'e) + 'a" where
  "outcome (Inl e) = Inl (Inr e)"
| "outcome (Inr v) = Inr v"

definition with_entity_leases ::
  "int \<Rightarrow> jsnum option \<Rightarrow> jstring \<Rightarrow> lease_key list \<Rightarrow> (leases \<Rightarrow> leases \<times> ('e + 'a)) \<Rightarrow> bool
     \<Rightarrow> leases \<Rightarrow> ('e, 'a) bracket" where
  "with_entity_leases now ttl owner keys callback cleanup_fails rows =
     (case canonical_keys keys of
        Inl e \<Rightarrow> (rows, False, Inl (Inl e))
      | Inr canonical \<Rightarrow>
          (case acquire_entity_leases now ttl owner canonical rows of
             Inl e \<Rightarrow> (rows, False, Inl (Inl e))
           | Inr held \<Rightarrow>
               (let (left, result) = callback held
                in if cleanup_fails then (left, True, outcome result)
                   else (release_entity_leases owner canonical left, False, outcome result))))"

text \<open>The active leases of the call chain on this database: key and owner.\<close>

type_synonym active = "(lease_key \<times> jstring) list"

definition with_entity_lease ::
  "int \<Rightarrow> jsnum option \<Rightarrow> jstring \<Rightarrow> lease_key \<Rightarrow> (active \<Rightarrow> leases \<Rightarrow> leases \<times> ('e + 'a)) \<Rightarrow> bool
     \<Rightarrow> active \<Rightarrow> leases \<Rightarrow> ('e, 'a) bracket" where
  "with_entity_lease now ttl owner key callback cleanup_fails inherited rows =
     (if (key, owner) \<in> set inherited
      then case renew_entity_lease now ttl owner key rows of
             Inl e \<Rightarrow> (rows, False, Inl (Inl e))
           | Inr held \<Rightarrow> (let (left, result) = callback inherited held in (left, False, outcome result))
      else case acquire_entity_lease now ttl owner key rows of
             Inl e \<Rightarrow> (rows, False, Inl (Inl e))
           | Inr held \<Rightarrow>
               (let (left, result) = callback (inherited @ [(key, owner)]) held
                in if cleanup_fails then (left, True, outcome result)
                   else (fst (release_entity_lease owner key left), False, outcome result)))"

section \<open>Steps on the table\<close>

text \<open>A transaction of an owner whose clock reading is \<open>now\<close>.\<close>

inductive entity_step :: "int \<Rightarrow> jstring \<Rightarrow> leases \<Rightarrow> leases \<Rightarrow> bool" where
  acquire: "acquire_entity_leases now ttl owner keys rows = Inr rows' \<Longrightarrow> entity_step now owner rows rows'"
| renew_all: "renew_entity_leases now ttl owner keys rows = Inr rows' \<Longrightarrow> entity_step now owner rows rows'"
| renew: "renew_entity_lease now ttl owner key rows = Inr rows' \<Longrightarrow> entity_step now owner rows rows'"
| release: "release_entity_lease owner key rows = (rows', done) \<Longrightarrow> entity_step now owner rows rows'"
| release_all: "release_entity_leases owner keys rows = rows' \<Longrightarrow> entity_step now owner rows rows'"

inductive_cases entity_stepE: "entity_step now owner rows rows'"

section \<open>Lemmas\<close>

definition granted :: "jstring \<Rightarrow> int \<Rightarrow> lease_key list \<Rightarrow> leases \<Rightarrow> leases" where
  "granted owner expires keys rows = (\<lambda>k. if k \<in> set keys then Some (owner, expires) else rows k)"

definition available :: "int \<Rightarrow> jstring \<Rightarrow> leases \<Rightarrow> lease_key \<Rightarrow> bool" where
  "available now owner rows k \<longleftrightarrow> (case rows k of None \<Rightarrow> True | Some r \<Rightarrow> free_for now owner r)"

lemma granted_Nil [simp]: "granted owner expires [] rows = rows"
  by (simp add: granted_def)

lemma granted_Cons [simp]:
  "granted owner expires keys (rows(k \<mapsto> (owner, expires))) = granted owner expires (k # keys) rows"
  by (auto simp: granted_def)

lemma acquire_canonical_spec:
  assumes "distinct keys"
  shows "acquire_canonical now expires owner keys rows =
    (if \<forall>k \<in> set keys. available now owner rows k then Inr (granted owner expires keys rows) else Inl EntityBusy)"
  using assms
proof (induction keys arbitrary: rows)
  case (Cons k ks)
  have "available now owner (rows(k \<mapsto> (owner, expires))) l = available now owner rows l" if "l \<in> set ks" for l
    using that Cons.prems by (auto simp: available_def)
  then have "(\<forall>l \<in> set ks. available now owner (rows(k \<mapsto> (owner, expires))) l)
      = (\<forall>l \<in> set ks. available now owner rows l)" by blast
  then show ?case
    using Cons by (cases "rows k") (auto simp: update_row_def create_row_def available_def)
qed simp

lemma renew_canonical_spec:
  assumes "distinct keys"
  shows "renew_canonical now expires owner keys rows =
    (if \<forall>k \<in> set keys. rows k \<noteq> None \<and> available now owner rows k
     then Inr (granted owner expires keys rows) else Inl EntityBusy)"
  using assms
proof (induction keys arbitrary: rows)
  case (Cons k ks)
  let ?ok = "\<lambda>rows l. rows l \<noteq> None \<and> available now owner rows l"
  have "?ok (rows(k \<mapsto> (owner, expires))) l = ?ok rows l" if "l \<in> set ks" for l
    using that Cons.prems by (auto simp: available_def)
  then have "(\<forall>l \<in> set ks. ?ok (rows(k \<mapsto> (owner, expires))) l) = (\<forall>l \<in> set ks. ?ok rows l)" by blast
  then show ?case
    using Cons by (cases "rows k") (auto simp: update_row_def available_def)
qed simp

lemma granted_sort [simp]: "granted owner expires (sort keys) rows = granted owner expires keys rows"
  by (simp add: granted_def)

lemma release_all_row:
  "release_entity_leases owner keys rows k =
     (case rows k of
        Some r \<Rightarrow> if k \<in> set keys \<and> fst r = owner then None else Some r
      | None \<Rightarrow> None)"
  by (induction keys arbitrary: rows) (auto simp: delete_row_def split: option.splits)

lemma acquire_spec:
  "acquire_entity_leases now ttl owner keys rows =
     (if \<not> distinct keys then Inl DuplicateEntity
      else if \<forall>k \<in> set keys. available now owner rows k
           then Inr (granted owner (now + bounded_ttl ttl) keys rows)
           else Inl EntityBusy)"
  by (auto simp: acquire_entity_leases_def canonical_keys_Inr canonical_keys_Inl acquire_canonical_spec
      split: sum.splits)

lemma renew_all_spec:
  "renew_entity_leases now ttl owner keys rows =
     (if \<not> distinct keys then Inl DuplicateEntity
      else if \<forall>k \<in> set keys. rows k \<noteq> None \<and> available now owner rows k
           then Inr (granted owner (now + bounded_ttl ttl) keys rows)
           else Inl EntityBusy)"
  by (auto simp: renew_entity_leases_def canonical_keys_Inr canonical_keys_Inl renew_canonical_spec
      split: sum.splits)

lemma renew_spec:
  "renew_entity_lease now ttl owner key rows =
     (case rows key of
        Some (y, e) \<Rightarrow> if y = owner \<and> now < e then Inr (rows(key \<mapsto> (owner, now + bounded_ttl ttl)))
                       else Inl EntityBusy
      | None \<Rightarrow> Inl EntityBusy)"
  by (auto simp: renew_entity_lease_def update_row_def split: option.splits)

lemma release_row:
  "fst (release_entity_lease owner key rows) = release_entity_leases owner [key] rows"
  by (simp add: release_entity_lease_def split: prod.splits)

text \<open>No step touches a row of another owner that is live on its clock.\<close>

lemma entity_step_live_row:
  assumes "entity_step now x rows rows'" "rows k = Some (y, e)" "y \<noteq> x" "now < e"
  shows "rows' k = Some (y, e)"
proof -
  have busy: "\<not> available now x rows k"
    using assms(2-4) by (simp add: available_def free_for_def)
  show ?thesis
    using assms(1)
  proof (cases rule: entity_step.cases)
    case (acquire ttl keys)
    then show ?thesis using assms busy
      by (auto simp: acquire_spec granted_def split: if_splits)
  next
    case (renew_all ttl keys)
    then show ?thesis using assms busy
      by (auto simp: renew_all_spec granted_def split: if_splits)
  next
    case (renew ttl key)
    then show ?thesis using assms by (auto simp: renew_spec split: option.splits if_splits)
  next
    case (release key d)
    then have "rows' = release_entity_leases x [key] rows" using release_row [of x key rows] by simp
    then show ?thesis using assms by (simp only: release_all_row) simp
  next
    case (release_all keys)
    then show ?thesis using assms release_all_row [of x keys rows k] by simp
  qed
qed

interpretation entity: lease_table "\<lambda>rows. rows" entity_step
  by unfold_locales (rule entity_step_live_row)

lemma bounded_ttl_bounds: "1 \<le> bounded_ttl ttl \<and> bounded_ttl ttl \<le> 30000"
  by (auto simp: bounded_ttl_def default_ttl_def split: option.splits jsnum.splits)

section \<open>Properties\<close>

text \<open>
  C20. Acquisition is all or nothing: it succeeds exactly when no key is repeated and every key
  is free, expired or already the owner's, and then gives the owner exactly those keys until
  between one millisecond and thirty seconds later and touches no other row; otherwise it
  fails, with the duplicate error exactly when a key is repeated.
\<close>

theorem acquisition_all_or_nothing:
  "acquire_entity_leases now ttl owner keys rows =
     (if \<not> distinct keys then Inl DuplicateEntity
      else if list_all (\<lambda>k. case rows k of None \<Rightarrow> True | Some (y, e) \<Rightarrow> e \<le> now \<or> y = owner) keys
           then Inr (\<lambda>k. if k \<in> set keys then Some (owner, now + bounded_ttl ttl) else rows k)
           else Inl EntityBusy)
   \<and> 1 \<le> bounded_ttl ttl \<and> bounded_ttl ttl \<le> 30000"
  using bounded_ttl_bounds [of ttl]
  by (auto simp: acquire_spec granted_def list_all_iff available_def free_for_def split: option.splits)

text \<open>
  C10. Mutual exclusion: once an owner has acquired a key, then whatever transactions other
  owners commit, in any order and on clocks that may lag behind, until the expiry the owner
  still passes the fence and every attempt of another owner to acquire a set of keys with this
  key among them is refused.
\<close>

theorem leases_exclude_others:
  assumes "acquire_entity_leases now ttl owner keys rows = Inr held" and "key \<in> set keys"
    and "lease_run entity_step (\<lambda>x. x \<noteq> owner) (now, held) (t, rows')" and "t < now + bounded_ttl ttl"
    and "other \<noteq> owner" "other_now \<le> t" "key \<in> set wanted"
  shows "fence_entity_lease t owner rows' key = Inr ()
    \<and> (\<exists>e. acquire_entity_leases other_now ttl' other wanted rows' = Inl e)
    \<and> (\<exists>e. fence_entity_lease other_now other rows' key = Inl e)"
proof -
  have "held key = Some (owner, now + bounded_ttl ttl)"
    using assms(1,2) by (auto simp: acquire_spec granted_def split: if_splits)
  then have row: "rows' key = Some (owner, now + bounded_ttl ttl)"
    using entity.held_until_expiry [OF assms(3)] assms(4) by simp
  have "\<not> available other_now other rows' key"
    using row assms(4-6) by (simp add: available_def free_for_def)
  then show ?thesis
    using row assms(4-7) by (auto simp: fence_entity_lease_def acquire_spec)
qed

text \<open>
  C21. The bracket around a callback returns the callback's outcome whether or not the clean-up
  succeeds; when it succeeds the owner holds none of the keys any more, and a row that another
  owner took over meanwhile is left alone.
\<close>

theorem bracket_releases:
  assumes "acquire_entity_leases now ttl owner keys rows = Inr held" and "callback held = (left, result)"
  shows "with_entity_leases now ttl owner keys callback True rows = (left, True, outcome result)
    \<and> (\<exists>rows'. with_entity_leases now ttl owner keys callback False rows = (rows', False, outcome result)
        \<and> (\<forall>k. rows' k = (if k \<in> set keys \<and> (\<exists>e. left k = Some (owner, e)) then None else left k)))"
proof -
  have d: "distinct keys" using assms(1) by (simp add: acquire_spec split: if_splits)
  then have "acquire_entity_leases now ttl owner (sort keys) rows = Inr held"
    using assms(1) by (auto simp: acquire_spec split: if_splits)
  then have "with_entity_leases now ttl owner keys callback cf rows =
      (if cf then (left, True, outcome result)
       else (release_entity_leases owner (sort keys) left, False, outcome result))" for cf
    using d assms(2) by (simp add: with_entity_leases_def canonical_keys_Inr [THEN iffD2])
  then show ?thesis by (auto simp: release_all_row split: option.splits)
qed

text \<open>
  A nested bracket of the same owner and key needs the outer lease to be live at that
  moment: it never acquires, it runs the callback exactly when the row is still the owner's
  and unexpired, and it leaves the release to the outer bracket.
\<close>

theorem nested_bracket_renews:
  assumes "(key, owner) \<in> set inherited"
  shows "with_entity_lease now ttl owner key callback cf inherited rows =
    (case rows key of
       Some (y, e) \<Rightarrow>
         if y = owner \<and> now < e
         then (let (left, result) = callback inherited (rows(key \<mapsto> (owner, now + bounded_ttl ttl)))
               in (left, False, outcome result))
         else (rows, False, Inl (Inl EntityBusy))
     | None \<Rightarrow> (rows, False, Inl (Inl EntityBusy)))"
  using assms by (simp add: with_entity_lease_def renew_spec split: option.splits)

text \<open>
  Renewing one lease never takes a row from another owner and never revives an expired one.
  Renewing several does: it succeeds on an expired row of another owner and makes it the
  caller's.
\<close>

theorem renewals_differ:
  assumes "rows key = Some (y, e)" "y \<noteq> owner" "e \<le> now"
  shows "renew_entity_lease now ttl owner key rows = Inl EntityBusy
    \<and> renew_entity_leases now ttl owner [key] rows = Inr (rows(key \<mapsto> (owner, now + bounded_ttl ttl)))"
  using assms by (auto simp: renew_spec renew_all_spec available_def free_for_def granted_def)

section \<open>Two owners\<close>

definition lease_a :: lease_key where "lease_a = LeaseKey (js ''c'') (js ''Purchase'') (js ''1'')"
definition lease_b :: lease_key where "lease_b = LeaseKey (js ''c'') (js ''Deposit'') (js ''2'')"

lemma lease_keys_differ [simp]: "lease_a \<noteq> lease_b" "lease_b \<noteq> lease_a"
  by (simp_all add: lease_a_def lease_b_def)

definition held_rows :: leases where
  "held_rows = (\<lambda>k. if k \<in> set [lease_a, lease_b] then Some (js ''x'', 30000) else None)"

lemma held_rows_acquired: "acquire_entity_leases 0 None (js ''x'') [lease_a, lease_b] Map.empty = Inr held_rows"
  by (simp add: acquire_spec available_def granted_def held_rows_def bounded_ttl_def default_ttl_def fun_eq_iff)

theorem leases_exclude_others_witness:
  "fence_entity_lease 20000 (js ''x'') held_rows lease_a = Inr ()
    \<and> (\<exists>e. acquire_entity_leases 15000 None (js ''y'') [lease_a] held_rows = Inl e)
    \<and> (\<exists>e. fence_entity_lease 15000 (js ''y'') held_rows lease_a = Inl e)"
proof -
  have run: "lease_run entity_step (\<lambda>x. x \<noteq> js ''x'') (0, held_rows) (20000, held_rows)"
    by (rule lease_run.clock [OF lease_run.start]) simp
  show ?thesis
    by (rule leases_exclude_others [OF held_rows_acquired _ run]) (simp_all add: bounded_ttl_def default_ttl_def)
qed

theorem bracket_releases_witness:
  "with_entity_leases 0 None (js ''x'') [lease_a, lease_b] (\<lambda>rows. (rows, Inl (7::nat) :: nat + unit)) True Map.empty
     = (held_rows, True, Inl (Inr 7))"
  using bracket_releases [OF held_rows_acquired, of "\<lambda>rows. (rows, Inl (7::nat) :: nat + unit)" held_rows "Inl 7"] by simp

theorem nested_bracket_renews_witness:
  "with_entity_lease 40000 None (js ''x'') lease_a (\<lambda>_ rows. (rows, Inr () :: nat + unit)) False
     [(lease_a, js ''x'')] held_rows = (held_rows, False, Inl (Inl EntityBusy))"
  by (subst nested_bracket_renews) (simp_all add: held_rows_def)

theorem renewals_differ_witness:
  "renew_entity_leases 30000 None (js ''y'') [lease_a] held_rows = Inr (held_rows(lease_a \<mapsto> (js ''y'', 60000)))"
  using renewals_differ [of held_rows lease_a "js ''x''" 30000 "js ''y''" 30000 None]
  by (simp add: held_rows_def bounded_ttl_def default_ttl_def)

end
