(* ===== verification/BankHeap.thy ===== *)
theory BankHeap
  imports JsText "HOL-Library.Product_Lexorder"
begin

text \<open>
  The binary heap of \<open>BankQueueIndex\<close> in \<open>services/transferCandidates.ts\<close>: its
  entries, their order, \<open>push\<close> and \<open>pop\<close> on the array. The locale is the contract
  the pairing relies on, a queue whose \<open>pop\<close> takes a least entry; the array heap is shown
  to provide it.
\<close>

section \<open>The contract of the queue\<close>

locale least_first =
  fixes rank :: "'e \<Rightarrow> 'r::linorder"
    and ok :: "'q \<Rightarrow> bool"
    and elements :: "'q \<Rightarrow> 'e multiset"
    and put :: "'e \<Rightarrow> 'q \<Rightarrow> 'q"
    and take_least :: "'q \<Rightarrow> ('e \<times> 'q) option"
  assumes put_ok: "ok q \<Longrightarrow> ok (put e q)"
    and put_elements: "ok q \<Longrightarrow> elements (put e q) = add_mset e (elements q)"
    and take_None: "take_least q = None \<longleftrightarrow> elements q = {#}"
    and take_ok: "ok q \<Longrightarrow> take_least q = Some (e, q') \<Longrightarrow> ok q'"
    and take_elements: "ok q \<Longrightarrow> take_least q = Some (e, q') \<Longrightarrow> elements q = add_mset e (elements q')"
    and take_least: "ok q \<Longrightarrow> take_least q = Some (e, q') \<Longrightarrow> x \<in># elements q \<Longrightarrow> rank e \<le> rank x"
begin

text \<open>Nothing below a bound is left once the least entry is not below it.\<close>

lemma none_below:
  assumes "ok q" "take_least q = Some (e, q')" "b \<le> rank e"
  shows "\<forall>x \<in># elements q. b \<le> rank x"
  using assms take_least order_trans by blast

lemma put_back:
  assumes "ok q" "take_least q = Some (e, q')"
  shows "elements (put e q') = elements q"
  using take_elements [OF assms] put_elements [OF take_ok [OF assms]] by simp

end

section \<open>Transactions and entries\<close>

record pairable =
  txn_id :: jstring
  txn_amount :: jsnum
  txn_bank :: jstring
  txn_time :: int

datatype heap_entry = HeapEntry (entry_bank: jstring) (entry_txn: pairable)

definition earlier :: "heap_entry \<Rightarrow> heap_entry \<Rightarrow> bool" where
  "earlier a b \<longleftrightarrow>
     txn_time (entry_txn a) < txn_time (entry_txn b)
     \<or> txn_time (entry_txn a) = txn_time (entry_txn b) \<and> txn_id (entry_txn a) < txn_id (entry_txn b)"

definition rank :: "heap_entry \<Rightarrow> int \<times> jstring" where
  "rank e = (txn_time (entry_txn e), txn_id (entry_txn e))"

lemma earlier_rank: "earlier a b \<longleftrightarrow> rank a < rank b"
  by (auto simp: earlier_def rank_def less_prod_def)

section \<open>\<open>push\<close> and \<open>pop\<close>\<close>

text \<open>The loops move a hole at \<open>index\<close> and write the entry into it at the end.\<close>

definition parent :: "nat \<Rightarrow> nat" where
  "parent index = (index - 1) div 2"

lemma parent_less: "0 < i \<Longrightarrow> parent i < i"
  by (simp add: parent_def)

lemma parent_child: "0 < j \<Longrightarrow> parent j = i \<longleftrightarrow> j = i * 2 + 1 \<or> j = i * 2 + 2"
  by (auto simp: parent_def)

function sift_up :: "heap_entry \<Rightarrow> heap_entry list \<Rightarrow> nat \<Rightarrow> heap_entry list" where
  "sift_up entry heap index =
     (if index = 0 then heap[index := entry]
      else let up = parent index; parent_entry = heap ! up
           in if \<not> earlier entry parent_entry then heap[index := entry]
              else sift_up entry (heap[index := parent_entry]) up)"
  by pat_completeness auto
termination by (relation "measure (\<lambda>(entry, heap, index). index)") (auto simp: parent_less)

definition push :: "heap_entry \<Rightarrow> heap_entry list \<Rightarrow> heap_entry list" where
  "push entry heap = sift_up entry (heap @ [entry]) (length heap)"

function sift_down :: "heap_entry \<Rightarrow> heap_entry list \<Rightarrow> nat \<Rightarrow> heap_entry list" where
  "sift_down last_entry heap index =
     (let left = index * 2 + 1; right = left + 1;
          child = (if right < length heap \<and> earlier (heap ! right) (heap ! left) then right else left)
      in if length heap \<le> child \<or> \<not> earlier (heap ! child) last_entry then heap[index := last_entry]
         else sift_down last_entry (heap[index := heap ! child]) child)"
  by pat_completeness auto
termination
  by (relation "measure (\<lambda>(last_entry, heap, index). length heap - index)")
     (auto simp: Let_def split: if_splits)

definition pop :: "heap_entry list \<Rightarrow> (heap_entry \<times> heap_entry list) option" where
  "pop heap =
     (case heap of
        [] \<Rightarrow> None
      | first # _ \<Rightarrow>
          (let rest = butlast heap
           in if rest = [] then Some (first, rest) else Some (first, sift_down (last heap) rest 0)))"

declare sift_up.simps [simp del] sift_down.simps [simp del]

section \<open>The heap order\<close>

definition heap_ok :: "heap_entry list \<Rightarrow> bool" where
  "heap_ok h \<longleftrightarrow> (\<forall>i. 0 < i \<longrightarrow> i < length h \<longrightarrow> rank (h ! parent i) \<le> rank (h ! i))"

text \<open>
  With a hole at \<open>i\<close>: the order holds between the other positions, and the parent of the
  hole bounds the children of the hole.
\<close>

definition heap_but :: "heap_entry list \<Rightarrow> nat \<Rightarrow> bool" where
  "heap_but h i \<longleftrightarrow>
     (\<forall>j. 0 < j \<longrightarrow> j < length h \<longrightarrow>
        (j \<noteq> i \<and> parent j \<noteq> i \<longrightarrow> rank (h ! parent j) \<le> rank (h ! j))
        \<and> (parent j = i \<and> 0 < i \<longrightarrow> rank (h ! parent i) \<le> rank (h ! j)))"

lemma heap_but_fill:
  assumes "heap_but h i" "i < length h"
    and "0 < i \<Longrightarrow> rank (h ! parent i) \<le> rank e"
    and "\<And>j. 0 < j \<Longrightarrow> j < length h \<Longrightarrow> parent j = i \<Longrightarrow> rank e \<le> rank (h ! j)"
  shows "heap_ok (h[i := e])"
  unfolding heap_ok_def
proof (intro allI impI)
  fix j assume j: "0 < j" "j < length (h[i := e])"
  then have "parent j < j" by (simp add: parent_less)
  then show "rank (h[i := e] ! parent j) \<le> rank (h[i := e] ! j)"
    using assms j by (cases "j = i"; cases "parent j = i") (auto simp: heap_but_def)
qed

lemma heap_but_up:
  assumes h: "heap_but h i" and i: "i < length h" "0 < i"
  shows "heap_but (h[i := h ! parent i]) (parent i)"
  unfolding heap_but_def
proof (intro allI impI conjI)
  fix j assume j: "0 < j" "j < length (h[i := h ! parent i])"
  have p: "parent i < i" using i by (simp add: parent_less)
  show "rank (h[i := h ! parent i] ! parent j) \<le> rank (h[i := h ! parent i] ! j)"
    if "j \<noteq> parent i \<and> parent j \<noteq> parent i"
  proof -
    have "j \<noteq> i" using that by auto
    then show ?thesis using h i j that by (cases "parent j = i") (auto simp: heap_but_def)
  qed
  show "rank (h[i := h ! parent i] ! parent (parent i)) \<le> rank (h[i := h ! parent i] ! j)"
    if "parent j = parent i \<and> 0 < parent i"
  proof -
    have q: "parent (parent i) < parent i" using that by (simp add: parent_less)
    then have up: "rank (h ! parent (parent i)) \<le> rank (h ! parent i)"
      using h i p that unfolding heap_but_def by (metis less_trans not_less_iff_gr_or_eq)
    show ?thesis
    proof (cases "j = i")
      case True
      then show ?thesis using up p q i by simp
    next
      case False
      then have "rank (h ! parent i) \<le> rank (h ! j)"
        using h j that p unfolding heap_but_def by (metis length_list_update nat_neq_iff)
      then show ?thesis using up False p q by (auto intro: order_trans)
    qed
  qed
qed

lemma heap_but_down:
  assumes h: "heap_but h i" and c: "c < length h" "0 < c" "parent c = i"
    and least: "\<And>j. 0 < j \<Longrightarrow> j < length h \<Longrightarrow> parent j = i \<Longrightarrow> rank (h ! c) \<le> rank (h ! j)"
  shows "heap_but (h[i := h ! c]) c"
  unfolding heap_but_def
proof (intro allI impI conjI)
  fix j assume j: "0 < j" "j < length (h[i := h ! c])"
  have i: "i < c" using parent_less [OF c(2)] c(3) by simp
  show "rank (h[i := h ! c] ! parent j) \<le> rank (h[i := h ! c] ! j)" if "j \<noteq> c \<and> parent j \<noteq> c"
  proof (cases "j = i")
    case True
    then have "rank (h ! parent i) \<le> rank (h ! c)" using h c j by (auto simp: heap_but_def)
    then show ?thesis using True j i c(1) by (simp add: nth_list_update)
  next
    case False
    then show ?thesis using h j least i c(1) by (cases "parent j = i") (auto simp: heap_but_def)
  qed
  show "rank (h[i := h ! c] ! parent c) \<le> rank (h[i := h ! c] ! j)" if "parent j = c \<and> 0 < c"
  proof -
    have "c < j" using that parent_less [OF j(1)] by simp
    moreover from this have "j \<noteq> i" "parent j \<noteq> i" using i that by auto
    then have "rank (h ! c) \<le> rank (h ! j)" using h j that by (auto simp: heap_but_def)
    ultimately show ?thesis using i c by simp
  qed
qed

lemma mset_hole:
  assumes "i < length h"
  shows "add_mset (h ! i) (mset (h[i := x])) = add_mset x (mset h)"
  using assms by (simp add: mset_update)

lemma sift_up_ok:
  assumes "heap_but h i" "i < length h" "\<And>j. 0 < j \<Longrightarrow> j < length h \<Longrightarrow> parent j = i \<Longrightarrow> rank e \<le> rank (h ! j)"
  shows "heap_ok (sift_up e h i) \<and> add_mset (h ! i) (mset (sift_up e h i)) = add_mset e (mset h)"
  using assms
proof (induction e h i rule: sift_up.induct)
  case (1 e h i)
  show ?case
  proof (cases "i = 0 \<or> \<not> earlier e (h ! parent i)")
    case True
    then have "sift_up e h i = h[i := e]" by (subst sift_up.simps) (auto simp: Let_def)
    moreover have "heap_ok (h[i := e])"
      using 1(2-4) True by (intro heap_but_fill) (auto simp: earlier_rank not_less)
    ultimately show ?thesis using mset_hole [OF 1(3)] by simp
  next
    case False
    let ?h = "h[i := h ! parent i]"
    have p: "parent i < i" "0 < i" using False by (simp_all add: parent_less)
    have below: "rank e \<le> rank (?h ! j)" if "0 < j" "j < length ?h" "parent j = parent i" for j
    proof -
      have "rank e < rank (h ! parent i)" using False by (simp add: earlier_rank)
      moreover have "rank (h ! parent i) \<le> rank (h ! j)" if "j \<noteq> i"
        using 1(2) \<open>0 < j\<close> \<open>j < length ?h\<close> \<open>parent j = parent i\<close> that p
        unfolding heap_but_def by (metis length_list_update nat_neq_iff)
      ultimately show ?thesis using 1(3) by (cases "j = i") auto
    qed
    have "heap_ok (sift_up e ?h (parent i))
      \<and> add_mset (?h ! parent i) (mset (sift_up e ?h (parent i))) = add_mset e (mset ?h)"
      using False p 1(3) heap_but_up [OF 1(2,3) p(2)] below
      by (intro 1(1)) (auto simp: Let_def)
    moreover have "sift_up e h i = sift_up e ?h (parent i)" using False by (subst sift_up.simps) (simp add: Let_def)
    moreover have "?h ! parent i = h ! parent i" using p by simp
    ultimately show ?thesis
      using mset_hole [OF 1(3), of "h ! parent i"] by (metis add_mset_commute add_mset_remove_trivial)
  qed
qed

lemma sift_down_ok:
  assumes "heap_but h i" "i < length h" "0 < i \<Longrightarrow> rank (h ! parent i) \<le> rank e"
  shows "heap_ok (sift_down e h i) \<and> add_mset (h ! i) (mset (sift_down e h i)) = add_mset e (mset h)"
  using assms
proof (induction e h i rule: sift_down.induct)
  case (1 e h i)
  define c where "c = (if i * 2 + 1 + 1 < length h \<and> earlier (h ! (i * 2 + 1 + 1)) (h ! (i * 2 + 1))
    then i * 2 + 1 + 1 else i * 2 + 1)"
  have step: "sift_down e h i = (if length h \<le> c \<or> \<not> earlier (h ! c) e then h[i := e]
      else sift_down e (h[i := h ! c]) c)"
    by (subst sift_down.simps) (simp only: Let_def flip: c_def)
  have c: "0 < c" "parent c = i" "i < c" by (auto simp: c_def parent_def)
  have least: "c < length h \<and> rank (h ! c) \<le> rank (h ! j)" if "0 < j" "j < length h" "parent j = i" for j
    using that by (auto simp: c_def parent_child earlier_rank not_less less_imp_le)
  show ?case
  proof (cases "length h \<le> c \<or> \<not> earlier (h ! c) e")
    case True
    have "rank e \<le> rank (h ! j)" if "0 < j" "j < length h" "parent j = i" for j
      using least [OF that] True by (auto simp: earlier_rank not_less intro: order_trans)
    then have "heap_ok (h[i := e])" using 1(2-4) by (intro heap_but_fill)
    then show ?thesis using step True mset_hole [OF 1(3)] by simp
  next
    case False
    let ?h = "h[i := h ! c]"
    have "heap_but ?h c" using heap_but_down [OF 1(2) _ c(1,2)] least False by auto
    moreover have "rank (?h ! parent c) \<le> rank e"
      using False c 1(3) by (simp add: earlier_rank less_imp_le)
    ultimately have IH: "heap_ok (sift_down e ?h c) \<and> add_mset (?h ! c) (mset (sift_down e ?h c)) = add_mset e (mset ?h)"
      using False by (intro 1(1) [OF refl refl]) (auto simp: c_def Let_def)
    moreover have "?h ! c = h ! c" using c by simp
    ultimately show ?thesis
      using step False mset_hole [OF 1(3), of "h ! c"] by (metis add_mset_commute add_mset_remove_trivial)
  qed
qed

lemma push_ok: "heap_ok h \<Longrightarrow> heap_ok (push e h) \<and> mset (push e h) = add_mset e (mset h)"
proof -
  assume h: "heap_ok h"
  have "heap_but (h @ [e]) (length h)"
    unfolding heap_but_def
  proof (intro allI impI conjI)
    fix j assume j: "0 < j" "j < length (h @ [e])"
    show "rank ((h @ [e]) ! parent j) \<le> rank ((h @ [e]) ! j)" if "j \<noteq> length h \<and> parent j \<noteq> length h"
      using h j that parent_less [OF j(1)] by (auto simp: heap_ok_def nth_append)
    show "rank ((h @ [e]) ! parent (length h)) \<le> rank ((h @ [e]) ! j)" if "parent j = length h \<and> 0 < length h"
      using j that parent_less [OF j(1)] by simp
  qed
  then have "heap_ok (sift_up e (h @ [e]) (length h))
      \<and> add_mset ((h @ [e]) ! length h) (mset (sift_up e (h @ [e]) (length h))) = add_mset e (mset (h @ [e]))"
    by (rule sift_up_ok) (auto simp: parent_child)
  then show ?thesis by (simp add: push_def)
qed

lemma heap_root: "heap_ok h \<Longrightarrow> i < length h \<Longrightarrow> rank (h ! 0) \<le> rank (h ! i)"
proof (induction i rule: less_induct)
  case (less i)
  show ?case
  proof (cases "i = 0")
    case False
    then have "rank (h ! 0) \<le> rank (h ! parent i)" using less parent_less [of i] by simp
    also have "\<dots> \<le> rank (h ! i)" using less False by (auto simp: heap_ok_def)
    finally show ?thesis .
  qed simp
qed

lemma pop_ok:
  assumes "heap_ok h" "pop h = Some (e, h')"
  shows "heap_ok h' \<and> mset h = add_mset e (mset h') \<and> e = h ! 0"
proof -
  from assms(2) obtain r where h: "h = e # r" by (auto simp: pop_def Let_def split: list.splits if_splits)
  show ?thesis
  proof (cases "r = []")
    case True
    then show ?thesis using assms h by (simp add: pop_def heap_ok_def)
  next
    case False
    let ?b = "butlast h"
    have h': "h' = sift_down (last h) ?b 0" using assms(2) h False by (simp add: pop_def Let_def)
    have "heap_but ?b 0"
      unfolding heap_but_def
    proof (intro allI impI conjI)
      fix j assume j: "0 < j" "j < length ?b"
      then have "parent j < length ?b" using parent_less [OF j(1)] by simp
      then show "rank (?b ! parent j) \<le> rank (?b ! j)"
        using assms(1) j by (simp add: heap_ok_def nth_butlast)
    qed simp
    moreover have "0 < length ?b" "?b ! 0 = e" using h False by simp_all
    ultimately have "heap_ok h' \<and> add_mset e (mset h') = add_mset (last h) (mset ?b)"
      using sift_down_ok [of ?b 0 "last h"] h' by simp
    moreover have "mset h = add_mset (last h) (mset ?b)"
      using arg_cong [OF append_butlast_last_id [of h], of mset] h by simp
    ultimately show ?thesis using h by simp
  qed
qed

interpretation heap: least_first rank heap_ok mset push pop
proof
  fix q :: "heap_entry list" and e q' x
  show "heap_ok q \<Longrightarrow> heap_ok (push e q)" by (simp add: push_ok)
  show "heap_ok q \<Longrightarrow> mset (push e q) = add_mset e (mset q)" by (simp add: push_ok)
  show "(pop q = None) = (mset q = {#})" by (auto simp: pop_def Let_def split: list.splits)
  show "heap_ok q \<Longrightarrow> pop q = Some (e, q') \<Longrightarrow> heap_ok q'" by (simp add: pop_ok)
  show "heap_ok q \<Longrightarrow> pop q = Some (e, q') \<Longrightarrow> mset q = add_mset e (mset q')" by (simp add: pop_ok)
  show "rank e \<le> rank x" if h: "heap_ok q" and p: "pop q = Some (e, q')" and x: "x \<in># mset q"
  proof -
    obtain i where "i < length q" "x = q ! i" using x by (auto simp: in_set_conv_nth)
    then show ?thesis using pop_ok [OF h p] heap_root [OF h] by simp
  qed
qed

end
