(* ===== verification/TransferPairing.thy ===== *)
theory TransferPairing
  imports BankHeap
begin

text \<open>
  The detection of transfers (\<open>services/transferCandidates.ts\<close>): the index of
  transactions by bank with its lazily advanced queues, the search for the earliest counterpart,
  and the pairing of a company's pending transactions. The optional statistics that the
  functions count for the tests are left out. Times are milliseconds since the epoch.
\<close>

section \<open>What a pair is\<close>

definition three_days :: int where
  "three_days = 3 * 24 * 60 * 60 * 1000"

fun positive :: "jsnum \<Rightarrow> bool" where
  "positive (Fin x) = (0 < x)"
| "positive PInf = True"
| "positive _ = False"

fun js_neg :: "jsnum \<Rightarrow> jsnum" where
  "js_neg (Fin x) = Fin (- x)"
| "js_neg PInf = NInf"
| "js_neg NInf = PInf"
| "js_neg NaN = NaN"

definition js_minus :: "jsnum \<Rightarrow> jsnum \<Rightarrow> jsnum" where
  "js_minus a b = js_add a (js_neg b)"

fun js_sign :: "jsnum \<Rightarrow> jsnum" where
  "js_sign (Fin x) = Fin (sgn x)"
| "js_sign PInf = Fin 1"
| "js_sign NInf = Fin (- 1)"
| "js_sign NaN = NaN"

fun js_less :: "jsnum \<Rightarrow> jsnum \<Rightarrow> bool" where
  "js_less (Fin x) (Fin y) = (x < y)"
| "js_less NaN v = False"
| "js_less v NaN = False"
| "js_less NInf v = (v \<noteq> NInf)"
| "js_less v PInf = (v \<noteq> PInf)"
| "js_less v w = False"

text \<open>\<open>!==\<close> on numbers: \<open>NaN\<close> differs from itself.\<close>

definition js_differ :: "jsnum \<Rightarrow> jsnum \<Rightarrow> bool" where
  "js_differ a b \<longleftrightarrow> a = NaN \<or> b = NaN \<or> a \<noteq> b"

definition is_transfer_pair :: "pairable \<Rightarrow> pairable \<Rightarrow> bool" where
  "is_transfer_pair a b \<longleftrightarrow>
     js_differ (txn_amount a) (Fin 0)
     \<and> js_less (js_abs (js_minus (js_abs (txn_amount a)) (js_abs (txn_amount b)))) (fl (5 / 1000))
     \<and> js_differ (js_sign (txn_amount a)) (js_sign (txn_amount b))
     \<and> txn_bank a \<noteq> txn_bank b
     \<and> \<bar>txn_time a - txn_time b\<bar> \<le> three_days"

section \<open>The index of one side of a bucket\<close>

record bank_queue =
  queue_rows :: "pairable list"
  queue_head :: nat

record bank_index =
  queues :: "(jstring \<times> bank_queue) list"
  index_heap :: "heap_entry list"

definition empty_index :: bank_index where
  "empty_index = \<lparr>queues = [], index_heap = []\<rparr>"

definition add_txn :: "pairable \<Rightarrow> bank_index \<Rightarrow> bank_index" where
  "add_txn t idx =
     (let b = txn_bank t
      in case map_of (queues idx) b of
           Some q \<Rightarrow> idx\<lparr>queues := AList.update b (q\<lparr>queue_rows := queue_rows q @ [t]\<rparr>) (queues idx)\<rparr>
         | None \<Rightarrow> \<lparr>queues = AList.update b \<lparr>queue_rows = [t], queue_head = 0\<rparr> (queues idx),
                    index_heap = push (HeapEntry b t) (index_heap idx)\<rparr>)"

definition head_row :: "bank_queue \<Rightarrow> pairable option" where
  "head_row q = (if queue_head q < length (queue_rows q) then Some (queue_rows q ! queue_head q) else None)"

text \<open>\<open>stale\<close>: at or before the current position, or already used.\<close>

definition stale :: "(jstring \<Rightarrow> int option) \<Rightarrow> int \<Rightarrow> jstring set \<Rightarrow> pairable \<Rightarrow> bool" where
  "stale order current_index used t \<longleftrightarrow>
     (case order (txn_id t) of None \<Rightarrow> - 1 | Some i \<Rightarrow> i) \<le> current_index \<or> txn_id t \<in> used"

function advance :: "(pairable \<Rightarrow> bool) \<Rightarrow> bank_queue \<Rightarrow> bank_queue" where
  "advance skip q =
     (case head_row q of
        None \<Rightarrow> q
      | Some t \<Rightarrow> if skip t then advance skip (q\<lparr>queue_head := queue_head q + 1\<rparr>) else q)"
  by pat_completeness auto
termination
  by (relation "measure (\<lambda>(skip, q). length (queue_rows q) - queue_head q)")
     (auto simp: head_row_def split: if_splits)

declare advance.simps [simp del]

text \<open>The rows of a queue that are still to come.\<close>

definition pending :: "bank_queue \<Rightarrow> pairable list" where
  "pending q = drop (queue_head q) (queue_rows q)"

lemma head_row_pending: "head_row q = (case pending q of [] \<Rightarrow> None | t # _ \<Rightarrow> Some t)"
  by (auto simp: head_row_def pending_def split: list.splits simp flip: hd_drop_conv_nth)

lemma pending_next [simp]: "pending (q\<lparr>queue_head := Suc (queue_head q)\<rparr>) = tl (pending q)"
  by (simp add: pending_def tl_drop drop_Suc)

lemma pending_advance: "pending (advance skip q) = dropWhile skip (pending q)"
proof (induction skip q rule: advance.induct)
  case (1 skip q)
  show ?case
  proof (cases "pending q")
    case Nil
    then show ?thesis by (subst advance.simps) (simp add: head_row_pending)
  next
    case (Cons t ts)
    then have head: "head_row q = Some t" by (simp add: head_row_pending)
    show ?thesis
    proof (cases "skip t")
      case True
      then have "pending (advance skip q) = pending (advance skip (q\<lparr>queue_head := queue_head q + 1\<rparr>))"
        by (subst advance.simps) (simp add: head)
      also have "\<dots> = dropWhile skip (pending q)"
        using 1 [OF head True] Cons True by simp
      finally show ?thesis .
    next
      case False
      then have "advance skip q = q" by (subst advance.simps) (simp add: head)
      then show ?thesis using Cons False by simp
    qed
  qed
qed

section \<open>Termination of the search\<close>

definition remaining :: "(jstring \<times> bank_queue) list \<Rightarrow> nat" where
  "remaining qs = sum_list (map (\<lambda>(b, q). length (pending q)) qs)"

lemma remaining_update:
  "map_of qs b = Some q \<Longrightarrow> remaining (AList.update b q' qs) + length (pending q) = remaining qs + length (pending q')"
  by (induction qs) (auto simp: remaining_def split: if_splits)

lemma remaining_delete: "remaining (AList.delete b qs) \<le> remaining qs"
  by (induction qs) (auto simp: remaining_def AList.delete_eq)

lemma length_sift_up [simp]: "length (sift_up e h i) = length h"
  by (induction e h i rule: sift_up.induct) (subst sift_up.simps, simp add: Let_def)

lemma length_push [simp]: "length (push e h) = Suc (length h)"
  by (simp add: push_def)

lemma length_sift_down [simp]: "length (sift_down e h i) = length h"
proof (induction e h i rule: sift_down.induct)
  case (1 e h i)
  then show ?case by (subst sift_down.simps) (auto simp: Let_def)
qed

lemma length_pop: "pop h = Some (e, h') \<Longrightarrow> length h = Suc (length h')"
  by (auto simp: pop_def Let_def split: list.splits if_splits)

section \<open>The search for a counterpart\<close>

record search =
  excluded_bank :: jstring
  maximum_date :: int
  skips :: "pairable \<Rightarrow> bool"

function take_loop ::
  "search \<Rightarrow> bank_index \<Rightarrow> heap_entry option \<Rightarrow> bank_index \<times> heap_entry option \<times> pairable option" where
  "take_loop s idx excluded =
     (case pop (index_heap idx) of
        None \<Rightarrow> (idx, excluded, None)
      | Some (entry, h) \<Rightarrow>
          (let b = entry_bank entry; qs = queues idx
           in case map_of qs b of
                None \<Rightarrow> take_loop s \<lparr>queues = qs, index_heap = h\<rparr> excluded
              | Some q \<Rightarrow>
                  if map_option txn_id (head_row q) \<noteq> Some (txn_id (entry_txn entry))
                  then take_loop s \<lparr>queues = qs, index_heap = h\<rparr> excluded
                  else
                    (let q1 = advance (skips s) q; qs1 = AList.update b q1 qs
                     in case head_row q1 of
                          None \<Rightarrow> take_loop s \<lparr>queues = AList.delete b qs, index_heap = h\<rparr> excluded
                        | Some head \<Rightarrow>
                            (let current = HeapEntry b head
                             in if txn_id head \<noteq> txn_id (entry_txn entry)
                                then take_loop s \<lparr>queues = qs1, index_heap = push current h\<rparr> excluded
                                else if maximum_date s < txn_time head
                                then (\<lparr>queues = qs1, index_heap = push current h\<rparr>, excluded, None)
                                else if b = excluded_bank s
                                then take_loop s \<lparr>queues = qs1, index_heap = h\<rparr> (Some current)
                                else
                                  (let q2 = q1\<lparr>queue_head := queue_head q1 + 1\<rparr>
                                   in case head_row q2 of
                                        Some next_row \<Rightarrow>
                                          (\<lparr>queues = AList.update b q2 qs1,
                                             index_heap = push (HeapEntry b next_row) h\<rparr>, excluded, Some head)
                                      | None \<Rightarrow>
                                          (\<lparr>queues = AList.delete b qs1, index_heap = h\<rparr>, excluded, Some head))))))"
  by pat_completeness auto
termination
proof (relation "measure (\<lambda>(s, idx, excluded). remaining (queues idx) + length (index_heap idx))", goal_cases)
  case 1
  then show ?case by simp
next
  case (2 s idx excluded pair entry h b qs)
  then show ?case using length_pop by fastforce
next
  case (3 s idx excluded pair entry h b qs q)
  then show ?case using length_pop by fastforce
next
  case (4 s idx excluded pair entry h b qs q q1 qs1)
  then show ?case using length_pop remaining_delete [of b qs] by fastforce
next
  case (5 s idx excluded pair entry h b qs q q1 qs1 head current)
  have "map_of qs b = Some q" and skip: "pending q1 = dropWhile (skips s) (pending q)"
    using 5 by (simp_all add: pending_advance)
  then have "remaining qs1 + length (pending q) = remaining qs + length (pending q1)"
    using 5 remaining_update by blast
  moreover have "length (pending q1) < length (pending q)"
  proof (cases "pending q")
    case (Cons r rs)
    then have "skips s r" using 5 skip by (auto simp: head_row_pending split: if_splits)
    then show ?thesis using Cons skip le_imp_less_Suc [OF length_dropWhile_le] by simp
  qed (use 5 skip in \<open>auto simp: head_row_pending\<close>)
  moreover have "length (index_heap idx) = Suc (length h)" using 5 length_pop by blast
  ultimately show ?case using 5 by simp
next
  case (6 s idx excluded pair entry h b qs q q1 qs1 head current)
  have "map_of qs b = Some q" and skip: "pending q1 = dropWhile (skips s) (pending q)"
    using 6 by (simp_all add: pending_advance)
  then have "remaining qs1 + length (pending q) = remaining qs + length (pending q1)"
    using 6 remaining_update by blast
  moreover have "length (pending q1) \<le> length (pending q)" using skip length_dropWhile_le by simp
  moreover have "length (index_heap idx) = Suc (length h)" using 6 length_pop by blast
  ultimately show ?case using 6 by simp
qed

declare take_loop.simps [simp del]

definition take_future :: "search \<Rightarrow> bank_index \<Rightarrow> pairable option \<times> bank_index" where
  "take_future s idx =
     (let (idx', excluded, matched) = take_loop s idx None
      in (matched,
          case excluded of
            None \<Rightarrow> idx'
          | Some e \<Rightarrow> idx'\<lparr>index_heap := push e (index_heap idx')\<rparr>))"

section \<open>Pairing\<close>

record bucket =
  positive_side :: bank_index
  negative_side :: bank_index

record pairing =
  matched :: "(jstring \<times> jstring) list"
  used :: "jstring set"
  buckets :: "(jsnum \<times> bucket) list"

text \<open>
  The order of the code's sort: by time, then by \<open>localeCompare\<close> of the identifiers, which
  is a parameter (\<open>collate a b\<close> when it is not positive). The sort is stable.
\<close>

definition sorts_before :: "(jstring \<Rightarrow> jstring \<Rightarrow> bool) \<Rightarrow> pairable \<Rightarrow> pairable \<Rightarrow> bool" where
  "sorts_before collate a b \<longleftrightarrow>
     txn_time a < txn_time b \<or> txn_time a = txn_time b \<and> collate (txn_id a) (txn_id b)"

fun insert_by :: "('a \<Rightarrow> 'a \<Rightarrow> bool) \<Rightarrow> 'a \<Rightarrow> 'a list \<Rightarrow> 'a list" where
  "insert_by le x [] = [x]"
| "insert_by le x (y # ys) = (if le x y then x # y # ys else y # insert_by le x ys)"

definition sort_by :: "('a \<Rightarrow> 'a \<Rightarrow> bool) \<Rightarrow> 'a list \<Rightarrow> 'a list" where
  "sort_by le xs = foldr (insert_by le) xs []"

text \<open>\<open>orderOf\<close>: the last position of an identifier.\<close>

definition order_of :: "pairable list \<Rightarrow> jstring \<Rightarrow> int option" where
  "order_of ordered = map_of (rev (zip (map txn_id ordered) [0..int (length ordered) - 1]))"

definition add_to_bucket :: "pairable \<Rightarrow> (jsnum \<times> bucket) list \<Rightarrow> (jsnum \<times> bucket) list" where
  "add_to_bucket t bs =
     (if txn_amount t = Fin 0 then bs
      else
        (let cents = to_cents (txn_amount t);
             b = (case map_of bs cents of
                    Some b \<Rightarrow> b
                  | None \<Rightarrow> \<lparr>positive_side = empty_index, negative_side = empty_index\<rparr>)
         in AList.update cents
              (if positive (txn_amount t) then b\<lparr>positive_side := add_txn t (positive_side b)\<rparr>
               else b\<lparr>negative_side := add_txn t (negative_side b)\<rparr>) bs))"

definition search_for :: "pairable list \<Rightarrow> int \<Rightarrow> jstring set \<Rightarrow> pairable \<Rightarrow> search" where
  "search_for ordered index u t =
     \<lparr>excluded_bank = txn_bank t, maximum_date = txn_time t + three_days,
      skips = stale (order_of ordered) index u\<rparr>"

definition pair_one :: "pairable list \<Rightarrow> int \<Rightarrow> pairable \<Rightarrow> pairing \<Rightarrow> pairing" where
  "pair_one ordered index t st =
     (if txn_amount t = Fin 0 \<or> txn_id t \<in> used st then st
      else
        (let cents = to_cents (txn_amount t)
         in case map_of (buckets st) cents of
              None \<Rightarrow> st
            | Some b \<Rightarrow>
                (let pos = positive (txn_amount t);
                     (counterpart, idx) =
                       take_future (search_for ordered index (used st) t)
                         (if pos then negative_side b else positive_side b);
                     b' = (if pos then b\<lparr>negative_side := idx\<rparr> else b\<lparr>positive_side := idx\<rparr>);
                     st' = st\<lparr>buckets := AList.update cents b' (buckets st)\<rparr>
                 in case counterpart of
                      None \<Rightarrow> st'
                    | Some c \<Rightarrow>
                        st'\<lparr>used := insert (txn_id c) (insert (txn_id t) (used st)),
                            matched := AList.update (txn_id t) (txn_id c)
                              (AList.update (txn_id c) (txn_id t) (matched st))\<rparr>)))"

fun pair_all :: "pairable list \<Rightarrow> int \<Rightarrow> pairable list \<Rightarrow> pairing \<Rightarrow> pairing" where
  "pair_all ordered index [] st = st"
| "pair_all ordered index (t # ts) st = pair_all ordered (index + 1) ts (pair_one ordered index t st)"

fun collect_pairs ::
  "(jstring \<times> jstring) list \<Rightarrow> pairable list \<Rightarrow> (jstring \<times> jstring) list \<Rightarrow> (jstring \<times> jstring) list" where
  "collect_pairs m [] pairs = pairs"
| "collect_pairs m (t # ts) pairs =
     collect_pairs m ts
       (if map_of pairs (txn_id t) \<noteq> None then pairs
        else case map_of m (txn_id t) of
               None \<Rightarrow> pairs
             | Some c \<Rightarrow> AList.update c (txn_id t) (AList.update (txn_id t) c pairs))"

definition pair_transfers :: "(jstring \<Rightarrow> jstring \<Rightarrow> bool) \<Rightarrow> pairable list \<Rightarrow> (jstring \<times> jstring) list" where
  "pair_transfers collate txns =
     (let ordered = sort_by (sorts_before collate) txns;
          st = pair_all ordered 0 ordered
                 \<lparr>matched = [], used = {}, buckets = fold add_to_bucket ordered []\<rparr>
      in collect_pairs (matched st) ordered [])"

end
