(* ===== verification/TransferProofs.thy ===== *)
theory TransferProofs
  imports TransferPairing
begin

text \<open>
  The search for a counterpart finds the earliest eligible transaction of another bank whenever
  there is one; the pairing is symmetric, pairs only transactions that form a transfer, and
  leaves no two transactions unpaired that form one.
\<close>

section \<open>The invariant of an index\<close>

definition queue_ok :: "jstring \<Rightarrow> bank_queue \<Rightarrow> bool" where
  "queue_ok b q \<longleftrightarrow> pending q \<noteq> [] \<and> (\<forall>t \<in> set (pending q). txn_bank t = b)
     \<and> sorted (map txn_time (pending q)) \<and> distinct (map txn_id (pending q))"

definition front :: "jstring \<times> bank_queue \<Rightarrow> heap_entry" where
  "front x = HeapEntry (fst x) (hd (pending (snd x)))"

text \<open>The heap holds the front of every queue but the one set aside.\<close>

definition index_inv :: "bank_index \<Rightarrow> heap_entry option \<Rightarrow> bool" where
  "index_inv idx aside \<longleftrightarrow> distinct (map fst (queues idx)) \<and> heap_ok (index_heap idx)
     \<and> (\<forall>b q. map_of (queues idx) b = Some q \<longrightarrow> queue_ok b q)
     \<and> image_mset front (mset (queues idx)) = mset (index_heap idx) + mset (case aside of None \<Rightarrow> [] | Some e \<Rightarrow> [e])"

definition rows :: "bank_index \<Rightarrow> pairable set" where
  "rows idx = {t. \<exists>b q. map_of (queues idx) b = Some q \<and> t \<in> set (pending q)}"

definition eligible :: "search \<Rightarrow> bank_index \<Rightarrow> pairable set" where
  "eligible s idx = {t \<in> rows idx. \<not> skips s t}"

lemma delete_update: "AList.delete b (AList.update b v qs) = AList.delete b qs"
  by (induction qs) (auto simp: AList.delete_eq)

lemma update_update: "AList.update b w (AList.update b v qs) = AList.update b w qs"
  by (induction qs) auto

lemma front_update:
  assumes "map_of qs b = Some q"
  shows "add_mset (front (b, q)) (image_mset front (mset (AList.update b q' qs)))
    = add_mset (front (b, q')) (image_mset front (mset qs))"
  using assms by (induction qs) (auto split: if_splits)

lemma front_delete:
  assumes "map_of qs b = Some q" "distinct (map fst qs)"
  shows "add_mset (front (b, q)) (image_mset front (mset (AList.delete b qs))) = image_mset front (mset qs)"
  using assms
proof (induction qs)
  case (Cons x qs)
  show ?case
  proof (cases "fst x = b")
    case True
    then have "AList.delete b (x # qs) = qs"
      using Cons.prems by (force simp: AList.delete_eq intro!: filter_True)
    then show ?thesis using True Cons.prems by (cases x) simp
  next
    case False
    then show ?thesis using Cons by (cases x) (auto simp: AList.delete_eq)
  qed
qed simp

lemma front_in_heap:
  assumes "index_inv idx aside" "e \<in># mset (index_heap idx)"
  shows "\<exists>q. map_of (queues idx) (entry_bank e) = Some q \<and> entry_txn e = hd (pending q) \<and> queue_ok (entry_bank e) q"
proof -
  have "e \<in># image_mset front (mset (queues idx))" using assms by (simp add: index_inv_def)
  then obtain b q where "(b, q) \<in> set (queues idx)" "e = front (b, q)" by auto
  then show ?thesis using assms(1) by (auto simp: index_inv_def front_def)
qed

lemma front_entry:
  assumes "index_inv idx aside" "map_of (queues idx) b = Some q"
  shows "front (b, q) \<in># mset (index_heap idx) \<or> aside = Some (front (b, q))"
proof -
  have "front (b, q) \<in># image_mset front (mset (queues idx))"
    using map_of_SomeD [OF assms(2)] by (auto intro: image_eqI)
  then have "front (b, q) \<in># mset (index_heap idx) + mset (case aside of None \<Rightarrow> [] | Some e \<Rightarrow> [e])"
    using assms(1) unfolding index_inv_def by metis
  then show ?thesis by (auto split: option.splits)
qed

lemma front_time_le: "queue_ok b q \<Longrightarrow> t \<in> set (pending q) \<Longrightarrow> txn_time (hd (pending q)) \<le> txn_time t"
  by (cases "pending q") (auto simp: queue_ok_def)

lemma rank_time: "rank e \<le> rank f \<Longrightarrow> txn_time (entry_txn e) \<le> txn_time (entry_txn f)"
  by (auto simp: rank_def less_eq_prod_def)

text \<open>Everything outside the queue set aside is no earlier than the least entry of the heap.\<close>

lemma least_entry:
  assumes inv: "index_inv idx aside" and pop: "pop (index_heap idx) = Some (e, h)" and t: "t \<in> rows idx"
    and aside: "\<And>x. aside = Some x \<Longrightarrow> entry_bank x = b" and "txn_bank t \<noteq> b"
  shows "txn_time (entry_txn e) \<le> txn_time t"
proof -
  from t obtain c q where q: "map_of (queues idx) c = Some q" "t \<in> set (pending q)" by (auto simp: rows_def)
  have ok: "queue_ok c q" using inv q by (simp add: index_inv_def)
  then have "txn_bank t = c" using q by (simp add: queue_ok_def)
  then have "aside \<noteq> Some (front (c, q))" using aside assms(5) by (auto simp: front_def)
  then have "front (c, q) \<in># mset (index_heap idx)" using front_entry [OF inv q(1)] by blast
  then have "rank e \<le> rank (front (c, q))"
    using heap.take_least [OF _ pop] inv by (simp add: index_inv_def)
  then have "txn_time (entry_txn e) \<le> txn_time (hd (pending q))" using rank_time by (fastforce simp: front_def)
  also have "\<dots> \<le> txn_time t" using front_time_le ok q(2) .
  finally show ?thesis .
qed

section \<open>One round of the search\<close>

definition found_ok :: "search \<Rightarrow> bank_index \<Rightarrow> bank_index \<times> heap_entry option \<times> pairable option \<Rightarrow> bool" where
  "found_ok s idx result \<longleftrightarrow> (case result of (idx', aside', m) \<Rightarrow>
     index_inv idx' aside' \<and> (\<forall>x. aside' = Some x \<longrightarrow> entry_bank x = excluded_bank s) \<and> rows idx' \<subseteq> rows idx
     \<and> (case m of
          None \<Rightarrow> eligible s idx' = eligible s idx
            \<and> (\<forall>t \<in> eligible s idx. txn_bank t = excluded_bank s \<or> maximum_date s < txn_time t)
        | Some c \<Rightarrow> c \<in> eligible s idx \<and> txn_bank c \<noteq> excluded_bank s \<and> txn_time c \<le> maximum_date s
            \<and> (\<forall>t \<in> eligible s idx. txn_bank t = excluded_bank s \<or> txn_time c \<le> txn_time t)
            \<and> eligible s idx' = eligible s idx - {c}))"

lemma found_ok_step:
  assumes "rows idx1 \<subseteq> rows idx" "eligible s idx1 = eligible s idx" "found_ok s idx1 r"
  shows "found_ok s idx r"
  using assms by (cases r) (auto simp: found_ok_def split: option.splits)

lemma queue_ok_drop: "queue_ok b q \<Longrightarrow> pending q' = drop k (pending q) \<Longrightarrow> pending q' \<noteq> [] \<Longrightarrow> queue_ok b q'"
  by (auto simp: queue_ok_def sorted_wrt_drop distinct_drop simp flip: drop_map dest: in_set_dropD)

lemma queue_ok_dropWhile:
  "queue_ok b q \<Longrightarrow> pending q' = dropWhile P (pending q) \<Longrightarrow> pending q' \<noteq> [] \<Longrightarrow> queue_ok b q'"
  by (rule queue_ok_drop) (simp_all add: dropWhile_eq_drop)

lemma one_front_per_bank:
  assumes "index_inv idx (Some x)" "e \<in># mset (index_heap idx)"
  shows "entry_bank e \<noteq> entry_bank x"
proof
  assume same: "entry_bank e = entry_bank x"
  have "image_mset front (mset (queues idx)) = add_mset x (mset (index_heap idx))"
    using assms(1) by (simp add: index_inv_def)
  then have "image_mset entry_bank (image_mset front (mset (queues idx)))
      = image_mset entry_bank (add_mset x (mset (index_heap idx)))" by simp
  moreover have "image_mset entry_bank (image_mset front (mset (queues idx))) = mset (map fst (queues idx))"
    by (simp add: image_mset.compositionality comp_def front_def)
  ultimately have all: "mset (map fst (queues idx)) = add_mset (entry_bank x) (image_mset entry_bank (mset (index_heap idx)))"
    by simp
  have "distinct (map fst (queues idx))" using assms(1) by (simp add: index_inv_def)
  then have "count (mset (map fst (queues idx))) (entry_bank x) \<le> 1" by (simp add: distinct_count_atmost_1)
  then have "entry_bank x \<notin># image_mset entry_bank (mset (index_heap idx))"
    unfolding all by (simp add: count_eq_zero_iff)
  moreover have "entry_bank x \<in># image_mset entry_bank (mset (index_heap idx))"
    using assms(2) same by (auto intro: image_eqI [where x = e])
  ultimately show False by simp
qed

text \<open>The changes a round makes to the index, with the entry it popped.\<close>

lemma popped:
  assumes "index_inv idx aside" "pop (index_heap idx) = Some (entry, h)"
  obtains q where "map_of (queues idx) (entry_bank entry) = Some q" "entry_txn entry = hd (pending q)"
    "queue_ok (entry_bank entry) q" "heap_ok h" "mset (index_heap idx) = add_mset entry (mset h)"
    "entry = front (entry_bank entry, q)"
proof -
  have ok: "heap_ok (index_heap idx)" using assms by (simp add: index_inv_def)
  have m: "mset (index_heap idx) = add_mset entry (mset h)" "heap_ok h"
    using heap.take_elements [OF ok assms(2)] heap.take_ok [OF ok assms(2)] by simp_all
  then have "entry \<in># mset (index_heap idx)" by simp
  from front_in_heap [OF assms(1) this] that m show thesis
    by (cases entry) (auto simp: front_def)
qed

lemma inv_requeue:
  assumes inv: "index_inv idx aside" and pop: "pop (index_heap idx) = Some (entry, h)"
    and q: "map_of (queues idx) (entry_bank entry) = Some q" and q1: "queue_ok (entry_bank entry) q1"
  shows "index_inv \<lparr>queues = AList.update (entry_bank entry) q1 (queues idx),
      index_heap = push (HeapEntry (entry_bank entry) (hd (pending q1))) h\<rparr> aside"
proof -
  obtain q' where p: "map_of (queues idx) (entry_bank entry) = Some q'" "heap_ok h"
    "mset (index_heap idx) = add_mset entry (mset h)" "entry = front (entry_bank entry, q')"
    using popped [OF inv pop] by metis
  have [simp]: "q' = q" using p(1) q by simp
  have "add_mset entry (image_mset front (mset (AList.update (entry_bank entry) q1 (queues idx))))
      = add_mset (front (entry_bank entry, q1)) (image_mset front (mset (queues idx)))"
    using front_update [OF q, of q1] p(4) by simp
  then show ?thesis
    using inv p q1 by (auto simp: index_inv_def update_conv' distinct_update push_ok front_def)
qed

lemma inv_delete:
  assumes inv: "index_inv idx aside" and pop: "pop (index_heap idx) = Some (entry, h)"
  shows "index_inv \<lparr>queues = AList.delete (entry_bank entry) (queues idx), index_heap = h\<rparr> aside"
proof -
  obtain q where p: "map_of (queues idx) (entry_bank entry) = Some q" "heap_ok h"
    "mset (index_heap idx) = add_mset entry (mset h)" "entry = front (entry_bank entry, q)"
    using popped [OF inv pop] by metis
  have "add_mset entry (image_mset front (mset (AList.delete (entry_bank entry) (queues idx))))
      = image_mset front (mset (queues idx))"
    using front_delete [OF p(1)] inv p(4) by (simp add: index_inv_def)
  then show ?thesis
    using inv p by (auto simp: index_inv_def delete_conv' distinct_delete)
qed

lemma inv_aside:
  assumes inv: "index_inv idx None" and pop: "pop (index_heap idx) = Some (entry, h)"
    and q1: "queue_ok (entry_bank entry) q1"
  shows "index_inv \<lparr>queues = AList.update (entry_bank entry) q1 (queues idx), index_heap = h\<rparr>
    (Some (front (entry_bank entry, q1)))"
proof -
  obtain q where p: "map_of (queues idx) (entry_bank entry) = Some q" "heap_ok h"
    "mset (index_heap idx) = add_mset entry (mset h)" "entry = front (entry_bank entry, q)"
    using popped [OF inv pop] by metis
  have "add_mset entry (image_mset front (mset (AList.update (entry_bank entry) q1 (queues idx))))
      = add_mset (front (entry_bank entry, q1)) (image_mset front (mset (queues idx)))"
    using front_update [OF p(1), of q1] p(4) by simp
  then show ?thesis
    using inv p q1 by (auto simp: index_inv_def update_conv' distinct_update)
qed

lemma inv_back:
  assumes "index_inv idx (Some e)"
  shows "index_inv (idx\<lparr>index_heap := push e (index_heap idx)\<rparr>) None"
  using assms by (simp add: index_inv_def push_ok)

text \<open>The rows and the eligible rows after a change to one queue.\<close>

lemma rows_update:
  "map_of (queues idx) b = Some q \<Longrightarrow> set (pending q1) \<subseteq> set (pending q)
    \<Longrightarrow> rows \<lparr>queues = AList.update b q1 (queues idx), index_heap = h\<rparr> \<subseteq> rows idx"
  by (auto simp: rows_def update_conv')

lemma rows_delete: "rows \<lparr>queues = AList.delete b (queues idx), index_heap = h\<rparr> \<subseteq> rows idx"
  by (auto simp: rows_def delete_conv')

lemma eligible_update:
  assumes "map_of (queues idx) b = Some q" "pending q1 = dropWhile (skips s) (pending q)"
  shows "eligible s \<lparr>queues = AList.update b q1 (queues idx), index_heap = h\<rparr> = eligible s idx"
proof -
  have "t \<in> set (pending q1) \<longleftrightarrow> t \<in> set (pending q)" if "\<not> skips s t" for t
    using that assms(2) by (metis UnE set_append set_dropWhileD set_takeWhileD takeWhile_dropWhile_id)
  then show ?thesis
    using assms(1) by (intro set_eqI) (simp add: eligible_def rows_def update_conv', metis option.inject)
qed

lemma eligible_delete:
  assumes "map_of (queues idx) b = Some q" "dropWhile (skips s) (pending q) = []"
  shows "eligible s \<lparr>queues = AList.delete b (queues idx), index_heap = h\<rparr> = eligible s idx"
proof -
  have "\<forall>t \<in> set (pending q). skips s t" using assms(2) by (simp add: dropWhile_eq_Nil_conv)
  then show ?thesis
    using assms(1) by (intro set_eqI) (simp add: eligible_def rows_def delete_conv', metis option.inject)
qed

text \<open>One round with its dead branches removed.\<close>

lemma take_loop_round:
  assumes inv: "index_inv idx aside" and pop: "pop (index_heap idx) = Some (entry, h)"
    and q: "map_of (queues idx) (entry_bank entry) = Some q"
    and q1: "q1 = advance (skips s) q" "pending q1 = t # ts"
    and qs1: "qs1 = AList.update (entry_bank entry) q1 (queues idx)"
  shows "take_loop s idx aside =
    (if t \<noteq> entry_txn entry
     then take_loop s \<lparr>queues = qs1, index_heap = push (HeapEntry (entry_bank entry) t) h\<rparr> aside
     else if maximum_date s < txn_time t
     then (\<lparr>queues = qs1, index_heap = push (HeapEntry (entry_bank entry) t) h\<rparr>, aside, None)
     else if entry_bank entry = excluded_bank s
     then take_loop s \<lparr>queues = qs1, index_heap = h\<rparr> (Some (HeapEntry (entry_bank entry) t))
     else case ts of
            u # _ \<Rightarrow> (\<lparr>queues = AList.update (entry_bank entry) (q1\<lparr>queue_head := Suc (queue_head q1)\<rparr>) qs1,
                       index_heap = push (HeapEntry (entry_bank entry) u) h\<rparr>, aside, Some t)
          | [] \<Rightarrow> (\<lparr>queues = AList.delete (entry_bank entry) qs1, index_heap = h\<rparr>, aside, Some t))"
proof -
  obtain q' where "map_of (queues idx) (entry_bank entry) = Some q'" "entry_txn entry = hd (pending q')"
    "queue_ok (entry_bank entry) q'"
    using popped [OF inv pop] by metis
  then have e: "entry_txn entry = hd (pending q)" "queue_ok (entry_bank entry) q" using q by simp_all
  then obtain r rs where r: "pending q = r # rs" "r = entry_txn entry" by (cases "pending q") (auto simp: queue_ok_def)
  have "t \<in> set (pending q)" using q1 by (metis list.set_intros(1) pending_advance set_dropWhileD)
  moreover have "inj_on txn_id (set (pending q))" using e(2) by (simp add: queue_ok_def distinct_map)
  ultimately have "txn_id t = txn_id (entry_txn entry) \<longleftrightarrow> t = entry_txn entry"
    using r by (metis inj_on_eq_iff list.set_intros(1))
  then show ?thesis
    using q1 q r pop
    by (subst take_loop.simps) (simp add: Let_def head_row_pending qs1 flip: q1(1) split: list.splits)
qed

lemma take_loop_empty_queue:
  assumes inv: "index_inv idx aside" and pop: "pop (index_heap idx) = Some (entry, h)"
    and q: "map_of (queues idx) (entry_bank entry) = Some q" and q1: "pending (advance (skips s) q) = []"
  shows "take_loop s idx aside
    = take_loop s \<lparr>queues = AList.delete (entry_bank entry) (queues idx), index_heap = h\<rparr> aside"
proof -
  obtain q' where "map_of (queues idx) (entry_bank entry) = Some q'" "entry_txn entry = hd (pending q')"
    "queue_ok (entry_bank entry) q'"
    using popped [OF inv pop] by metis
  then have e: "entry_txn entry = hd (pending q)" "queue_ok (entry_bank entry) q" using q by simp_all
  then obtain r rs where r: "pending q = r # rs" "r = entry_txn entry" by (cases "pending q") (auto simp: queue_ok_def)
  then show ?thesis
    using q1 q pop by (subst take_loop.simps) (simp add: Let_def head_row_pending)
qed

definition work :: "bank_index \<Rightarrow> nat" where
  "work idx = remaining (queues idx) + length (index_heap idx)"

lemma work_update:
  assumes "pop (index_heap idx) = Some (entry, h)" "map_of (queues idx) b = Some q"
    "pending q1 = dropWhile P (pending q)"
  shows "work \<lparr>queues = AList.update b q1 (queues idx), index_heap = h\<rparr> < work idx"
    "hd (pending q1) \<noteq> hd (pending q) \<Longrightarrow> pending q \<noteq> []
      \<Longrightarrow> work \<lparr>queues = AList.update b q1 (queues idx), index_heap = push e h\<rparr> < work idx"
proof -
  have r: "remaining (AList.update b q1 (queues idx)) + length (pending q) = remaining (queues idx) + length (pending q1)"
    using remaining_update [OF assms(2)] .
  have h: "length (index_heap idx) = Suc (length h)" using assms(1) length_pop by blast
  have "length (pending q1) \<le> length (pending q)" using assms(3) length_dropWhile_le by simp
  then show "work \<lparr>queues = AList.update b q1 (queues idx), index_heap = h\<rparr> < work idx"
    using r h by (simp add: work_def)
  assume "hd (pending q1) \<noteq> hd (pending q)" "pending q \<noteq> []"
  then have "length (pending q1) < length (pending q)"
    using assms(3) by (cases "pending q") (auto simp: le_imp_less_Suc length_dropWhile_le split: if_splits)
  then show "work \<lparr>queues = AList.update b q1 (queues idx), index_heap = push e h\<rparr> < work idx"
    using r h by (simp add: work_def)
qed

lemma work_delete:
  "pop (index_heap idx) = Some (entry, h)
    \<Longrightarrow> work \<lparr>queues = AList.delete b (queues idx), index_heap = h\<rparr> < work idx"
  using length_pop [of "index_heap idx" entry h] remaining_delete [of b "queues idx"] by (simp add: work_def)

lemma found_exhausted:
  assumes "index_inv idx aside" "\<And>x. aside = Some x \<Longrightarrow> entry_bank x = excluded_bank s"
    and "pop (index_heap idx) = None"
  shows "found_ok s idx (idx, aside, None)"
proof -
  have empty: "mset (index_heap idx) = {#}" using heap.take_None assms(3) by blast
  have "txn_bank t = excluded_bank s" if "t \<in> rows idx" for t
  proof -
    from that obtain b q where q: "map_of (queues idx) b = Some q" "t \<in> set (pending q)" by (auto simp: rows_def)
    then have "aside = Some (front (b, q))" using front_entry [OF assms(1) q(1)] empty by simp
    then have "b = excluded_bank s" using assms(2) by (simp add: front_def)
    then show ?thesis using assms(1) q by (auto simp: index_inv_def queue_ok_def)
  qed
  then show ?thesis using assms(1,2) by (auto simp: found_ok_def eligible_def)
qed

lemma found_too_late:
  assumes inv: "index_inv idx aside" and pop: "pop (index_heap idx) = Some (entry, h)"
    and q: "map_of (queues idx) (entry_bank entry) = Some q" and q1: "pending q1 = dropWhile (skips s) (pending q)"
    and t: "pending q1 = t # ts" "t = entry_txn entry" "maximum_date s < txn_time t"
    and aside: "\<And>x. aside = Some x \<Longrightarrow> entry_bank x = excluded_bank s"
  shows "found_ok s idx (\<lparr>queues = AList.update (entry_bank entry) q1 (queues idx),
      index_heap = push (HeapEntry (entry_bank entry) t) h\<rparr>, aside, None)"
proof -
  have "queue_ok (entry_bank entry) q" using inv q by (simp add: index_inv_def)
  then have "queue_ok (entry_bank entry) q1" using queue_ok_dropWhile [OF _ q1] t(1) by simp
  then have "index_inv \<lparr>queues = AList.update (entry_bank entry) q1 (queues idx),
      index_heap = push (HeapEntry (entry_bank entry) t) h\<rparr> aside"
    using inv_requeue [OF inv pop q] t(1) by force
  moreover have "set (pending q1) \<subseteq> set (pending q)" using q1 by (auto dest: set_dropWhileD)
  moreover have "txn_time t \<le> txn_time u" if "u \<in> rows idx" "txn_bank u \<noteq> excluded_bank s" for u
    using least_entry [OF inv pop that(1)] aside that(2) t(2) by blast
  ultimately show ?thesis
    using aside t(3) rows_update [OF q] eligible_update [OF q q1]
    by (fastforce simp: found_ok_def eligible_def)
qed

text \<open>What taking the front \<open>t\<close> out of its queue leaves.\<close>

lemma eligible_take:
  assumes "map_of qs b = Some q" "queue_ok b q" "\<And>c r. map_of qs c = Some r \<Longrightarrow> queue_ok c r"
    and "dropWhile (skips s) (pending q) = t # ts"
    and "\<And>c. map_of qs' c = (if c = b then m else map_of qs c)"
    and "\<And>r. m = Some r \<Longrightarrow> pending r = ts" "m = None \<Longrightarrow> ts = []"
  shows "eligible s \<lparr>queues = qs', index_heap = h\<rparr> = eligible s \<lparr>queues = qs, index_heap = h'\<rparr> - {t}"
    and "rows \<lparr>queues = qs', index_heap = h\<rparr> \<subseteq> rows \<lparr>queues = qs, index_heap = h'\<rparr>"
    and "t \<in> eligible s \<lparr>queues = qs, index_heap = h'\<rparr>" "txn_bank t = b"
proof -
  have split: "pending q = takeWhile (skips s) (pending q) @ t # ts"
    using assms(4) takeWhile_dropWhile_id [of "skips s" "pending q"] by simp
  have fresh: "t \<notin> set ts"
  proof -
    have "distinct (map txn_id (pending q))" using assms(2) by (simp add: queue_ok_def)
    then have "distinct (map txn_id (takeWhile (skips s) (pending q) @ t # ts))" using split by simp
    then show ?thesis by auto
  qed
  have not: "\<not> skips s t" using assms(4) hd_dropWhile [of "skips s" "pending q"] by (metis list.distinct(1) list.sel(1))
  have mem: "u \<in> set (pending q) \<longleftrightarrow> u = t \<or> u \<in> set ts \<or> u \<in> set (takeWhile (skips s) (pending q))" for u
    by (subst split) auto
  have skip: "u \<in> set (takeWhile (skips s) (pending q)) \<Longrightarrow> skips s u" for u by (auto dest: set_takeWhileD)
  have bank: "c = b" if "map_of qs c = Some r" "t \<in> set (pending r)" for c r
    using that assms(2,3) mem [of t] by (auto simp: queue_ok_def)
  show "txn_bank t = b" using assms(2) mem [of t] by (auto simp: queue_ok_def)
  show "t \<in> eligible s \<lparr>queues = qs, index_heap = h'\<rparr>"
    using not mem [of t] assms(1) by (auto simp: eligible_def rows_def)
  show "rows \<lparr>queues = qs', index_heap = h\<rparr> \<subseteq> rows \<lparr>queues = qs, index_heap = h'\<rparr>"
    using assms(1,5,6) mem by (fastforce simp: rows_def split: if_splits)
  show "eligible s \<lparr>queues = qs', index_heap = h\<rparr> = eligible s \<lparr>queues = qs, index_heap = h'\<rparr> - {t}"
  proof (intro set_eqI iffI)
    fix u assume "u \<in> eligible s \<lparr>queues = qs', index_heap = h\<rparr>"
    then obtain c r where c: "map_of qs' c = Some r" "u \<in> set (pending r)" "\<not> skips s u"
      by (auto simp: eligible_def rows_def)
    show "u \<in> eligible s \<lparr>queues = qs, index_heap = h'\<rparr> - {t}"
    proof (cases "c = b")
      case True
      then have "u \<in> set ts" using c assms(5,6) by auto
      then show ?thesis using fresh mem [of u] c(3) assms(1) by (auto simp: eligible_def rows_def)
    next
      case False
      then have "map_of qs c = Some r" using c(1) assms(5) by simp
      then show ?thesis using False bank c(2,3) by (auto simp: eligible_def rows_def)
    qed
  next
    fix u assume "u \<in> eligible s \<lparr>queues = qs, index_heap = h'\<rparr> - {t}"
    then obtain c r where c: "map_of qs c = Some r" "u \<in> set (pending r)" "\<not> skips s u" "u \<noteq> t"
      by (auto simp: eligible_def rows_def)
    show "u \<in> eligible s \<lparr>queues = qs', index_heap = h\<rparr>"
    proof (cases "c = b")
      case True
      then have "u \<in> set ts" using c mem [of u] skip assms(1) by auto
      then show ?thesis using True c(3) assms(5-7) by (cases m) (auto simp: eligible_def rows_def)
    next
      case False
      then show ?thesis using c assms(5) by (auto simp: eligible_def rows_def)
    qed
  qed
qed

lemma rows_heap: "rows \<lparr>queues = queues idx, index_heap = h\<rparr> = rows idx"
  "eligible s \<lparr>queues = queues idx, index_heap = h\<rparr> = eligible s idx"
  by (simp_all add: eligible_def rows_def)

lemma index_inv_queue: "index_inv idx aside \<Longrightarrow> map_of (queues idx) c = Some r \<Longrightarrow> queue_ok c r"
  by (simp add: index_inv_def)

lemma found_match:
  assumes inv: "index_inv idx aside" and pop: "pop (index_heap idx) = Some (entry, h)"
    and q: "map_of (queues idx) (entry_bank entry) = Some q" and q1: "pending q1 = dropWhile (skips s) (pending q)"
    and t: "pending q1 = t # ts" "t = entry_txn entry" "txn_time t \<le> maximum_date s"
    and bank: "entry_bank entry \<noteq> excluded_bank s"
    and aside: "\<And>x. aside = Some x \<Longrightarrow> entry_bank x = excluded_bank s"
    and idx': "ts = [] \<and> idx' = \<lparr>queues = AList.delete (entry_bank entry) (AList.update (entry_bank entry) q1 (queues idx)), index_heap = h\<rparr>
      \<or> (\<exists>u us. ts = u # us \<and> idx' = \<lparr>queues = AList.update (entry_bank entry) (q1\<lparr>queue_head := Suc (queue_head q1)\<rparr>)
            (AList.update (entry_bank entry) q1 (queues idx)), index_heap = push (HeapEntry (entry_bank entry) u) h\<rparr>)"
  shows "found_ok s idx (idx', aside, Some t)"
proof -
  let ?b = "entry_bank entry"
  let ?m = "if ts = [] then None else Some (q1\<lparr>queue_head := Suc (queue_head q1)\<rparr>)"
  have ok: "queue_ok ?b q" using inv q by (simp add: index_inv_def)
  have dw: "dropWhile (skips s) (pending q) = t # ts" using q1 t(1) by simp
  have map: "map_of (queues idx') c = (if c = ?b then ?m else map_of (queues idx) c)" for c
    using idx' by (auto simp: update_conv' delete_conv')
  have eq: "idx' = \<lparr>queues = queues idx', index_heap = index_heap idx'\<rparr>" by simp
  have pend: "pending r = ts" if "?m = Some r" for r using that t(1) by (auto split: if_splits)
  have none: "?m = None \<Longrightarrow> ts = []" by (simp split: if_splits)
  note facts = q ok index_inv_queue [OF inv] dw map pend none
  have el: "eligible s idx' = eligible s idx - {t}" "rows idx' \<subseteq> rows idx" "t \<in> eligible s idx" "txn_bank t = ?b"
    using eligible_take(1) [OF facts, of "index_heap idx'" "index_heap idx"]
      eligible_take(2) [OF facts, of "index_heap idx'" "index_heap idx"]
      eligible_take(3) [OF facts, of "index_heap idx"] eligible_take(4) [OF facts]
    by (simp_all add: rows_heap)
  have inv': "index_inv idx' aside"
  proof (cases ts)
    case Nil
    then have "idx' = \<lparr>queues = AList.delete ?b (queues idx), index_heap = h\<rparr>"
      using idx' by (simp add: delete_update)
    then show ?thesis using inv_delete [OF inv pop] by simp
  next
    case (Cons u us)
    let ?q2 = "q1\<lparr>queue_head := Suc (queue_head q1)\<rparr>"
    have "AList.update ?b ?q2 (AList.update ?b q1 (queues idx)) = AList.update ?b ?q2 (queues idx)"
      by (rule update_update)
    moreover have "queue_ok ?b ?q2"
      using ok Cons t(1) q1 by (intro queue_ok_drop [OF queue_ok_dropWhile [OF ok q1], of ?q2 1]) auto
    ultimately show ?thesis using inv_requeue [OF inv pop q, of ?q2] idx' Cons t(1) by simp
  qed
  have "txn_time t \<le> txn_time u" if "u \<in> rows idx" "txn_bank u \<noteq> excluded_bank s" for u
    using least_entry [OF inv pop that(1)] aside that(2) t(2) by blast
  then show ?thesis
    using inv' el aside t(3) bank by (auto simp: found_ok_def eligible_def)
qed

lemma take_loop_found:
  assumes "index_inv idx aside" "\<And>x. aside = Some x \<Longrightarrow> entry_bank x = excluded_bank s"
  shows "found_ok s idx (take_loop s idx aside)"
  using assms
proof (induction "work idx" arbitrary: idx aside rule: less_induct)
  case less
  note inv = less.prems(1) and aside = less.prems(2)
  show ?case
  proof (cases "pop (index_heap idx)")
    case None
    then have "take_loop s idx aside = (idx, aside, None)" by (subst take_loop.simps) simp
    then show ?thesis using found_exhausted [OF inv aside None] by simp
  next
    case (Some r)
    obtain entry h where r: "r = (entry, h)" by (cases r)
    note pop = Some [unfolded r]
    let ?b = "entry_bank entry"
    obtain q where q: "map_of (queues idx) ?b = Some q" "entry_txn entry = hd (pending q)" "queue_ok ?b q"
      using popped [OF inv pop] by metis
    define q1 where "q1 = advance (skips s) q"
    have q1: "pending q1 = dropWhile (skips s) (pending q)" by (simp add: q1_def pending_advance)
    show ?thesis
    proof (cases "pending q1")
      case Nil
      let ?idx = "\<lparr>queues = AList.delete ?b (queues idx), index_heap = h\<rparr>"
      have "found_ok s ?idx (take_loop s ?idx aside)"
        using less.hyps [OF work_delete [OF pop] inv_delete [OF inv pop]] aside by blast
      moreover have "take_loop s idx aside = take_loop s ?idx aside"
        by (rule take_loop_empty_queue [OF inv pop q(1)]) (use Nil in \<open>simp only: q1_def\<close>)
      moreover have "eligible s ?idx = eligible s idx"
        by (rule eligible_delete [OF q(1)]) (use Nil in \<open>simp only: q1\<close>)
      ultimately show ?thesis using found_ok_step [OF rows_delete] by metis
    next
      case (Cons t ts)
      let ?qs = "AList.update ?b q1 (queues idx)"
      have q1_ok: "queue_ok ?b q1" using queue_ok_dropWhile [OF q(3) q1] Cons by simp
      have sub: "set (pending q1) \<subseteq> set (pending q)" using q1 by (auto dest: set_dropWhileD)
      have el: "eligible s \<lparr>queues = ?qs, index_heap = g\<rparr> = eligible s idx" for g
        by (rule eligible_update [OF q(1) q1])
      have round: "take_loop s idx aside = (if t \<noteq> entry_txn entry
           then take_loop s \<lparr>queues = ?qs, index_heap = push (HeapEntry ?b t) h\<rparr> aside
           else if maximum_date s < txn_time t
           then (\<lparr>queues = ?qs, index_heap = push (HeapEntry ?b t) h\<rparr>, aside, None)
           else if ?b = excluded_bank s
           then take_loop s \<lparr>queues = ?qs, index_heap = h\<rparr> (Some (HeapEntry ?b t))
           else case ts of
                  u # _ \<Rightarrow> (\<lparr>queues = AList.update ?b (q1\<lparr>queue_head := Suc (queue_head q1)\<rparr>) ?qs,
                             index_heap = push (HeapEntry ?b u) h\<rparr>, aside, Some t)
                | [] \<Rightarrow> (\<lparr>queues = AList.delete ?b ?qs, index_heap = h\<rparr>, aside, Some t))"
        using take_loop_round [OF inv pop q(1) q1_def Cons refl] .
      consider (moved) "t \<noteq> entry_txn entry" | (late) "t = entry_txn entry" "maximum_date s < txn_time t"
        | (own) "t = entry_txn entry" "txn_time t \<le> maximum_date s" "?b = excluded_bank s"
        | (match) "t = entry_txn entry" "txn_time t \<le> maximum_date s" "?b \<noteq> excluded_bank s" by force
      then show ?thesis
      proof cases
        case moved
        let ?idx = "\<lparr>queues = ?qs, index_heap = push (HeapEntry ?b t) h\<rparr>"
        have "pending q \<noteq> []" using q(3) by (simp add: queue_ok_def)
        then have w: "work ?idx < work idx"
          using work_update(2) [OF pop q(1) q1] moved Cons q(2) by simp
        have "index_inv ?idx aside" using inv_requeue [OF inv pop q(1) q1_ok] Cons by simp
        then have "found_ok s ?idx (take_loop s ?idx aside)" using less.hyps [OF w] aside by blast
        moreover have "take_loop s idx aside = take_loop s ?idx aside" unfolding round using moved by (simp only: if_True not_False_eq_True simp_thms)
        ultimately show ?thesis using found_ok_step [OF rows_update [OF q(1) sub] el] by metis
      next
        case late
        then show ?thesis using found_too_late [OF inv pop q(1) q1 Cons late(1,2) aside] round by simp
      next
        case own
        let ?idx = "\<lparr>queues = ?qs, index_heap = h\<rparr>"
        have "aside = None"
        proof (cases aside)
          case (Some x)
          have "entry \<in># mset (index_heap idx)" using popped [OF inv pop] by (metis union_single_eq_member)
          then show ?thesis using one_front_per_bank inv Some aside own(3) by force
        qed
        then have "index_inv ?idx (Some (HeapEntry ?b t))"
          using inv_aside [OF _ pop q1_ok] inv Cons by (simp add: front_def)
        moreover have "entry_bank x = excluded_bank s" if "Some (HeapEntry ?b t) = Some x" for x
          using that own(3) by auto
        ultimately have "found_ok s ?idx (take_loop s ?idx (Some (HeapEntry ?b t)))"
          using less.hyps [OF work_update(1) [OF pop q(1) q1]] by blast
        moreover have "take_loop s idx aside = take_loop s ?idx (Some (HeapEntry ?b t))"
          unfolding round using own(1,3) leD [OF own(2)] by (simp only: if_True if_False simp_thms)
        ultimately show ?thesis using found_ok_step [OF rows_update [OF q(1) sub] el] by metis
      next
        case match
        then show ?thesis
          using round found_match [OF inv pop q(1) q1 Cons match aside] by (auto split: list.splits)
      qed
    qed
  qed
qed

lemma take_future_found:
  assumes "index_inv idx None" "take_future s idx = (m, idx')"
  shows "index_inv idx' None \<and> rows idx' \<subseteq> rows idx
    \<and> (case m of
         None \<Rightarrow> eligible s idx' = eligible s idx
           \<and> (\<forall>t \<in> eligible s idx. txn_bank t = excluded_bank s \<or> maximum_date s < txn_time t)
       | Some c \<Rightarrow> c \<in> eligible s idx \<and> txn_bank c \<noteq> excluded_bank s \<and> txn_time c \<le> maximum_date s
           \<and> (\<forall>t \<in> eligible s idx. txn_bank t = excluded_bank s \<or> txn_time c \<le> txn_time t)
           \<and> eligible s idx' = eligible s idx - {c})"
proof -
  obtain idx1 aside m1 where r: "take_loop s idx None = (idx1, aside, m1)" by (cases "take_loop s idx None")
  have f: "found_ok s idx (idx1, aside, m1)" using take_loop_found [OF assms(1), of s] r by simp
  have m: "m1 = m" and idx': "idx' = (case aside of None \<Rightarrow> idx1 | Some e \<Rightarrow> idx1\<lparr>index_heap := push e (index_heap idx1)\<rparr>)"
    using assms(2) r by (auto simp: take_future_def)
  have "index_inv idx' None"
    using f inv_back idx' by (auto simp: found_ok_def split: option.splits)
  moreover have "rows idx' = rows idx1" "eligible s idx' = eligible s idx1"
    using idx' by (auto simp: eligible_def rows_def split: option.splits)
  ultimately show ?thesis using f m by (cases m) (simp_all add: found_ok_def)
qed

section \<open>Building the buckets\<close>

lemma update_absent: "b \<notin> fst ` set qs \<Longrightarrow> AList.update b v qs = qs @ [(b, v)]"
  by (induction qs) auto

lemma add_txn_inv:
  assumes inv: "index_inv idx None" and late: "\<And>u. u \<in> rows idx \<Longrightarrow> txn_time u \<le> txn_time t \<and> txn_id u \<noteq> txn_id t"
  shows "index_inv (add_txn t idx) None \<and> rows (add_txn t idx) = insert t (rows idx)"
proof (cases "map_of (queues idx) (txn_bank t)")
  case None
  let ?q = "\<lparr>queue_rows = [t], queue_head = 0\<rparr>"
  have absent: "txn_bank t \<notin> fst ` set (queues idx)" using None by (simp add: map_of_eq_None_iff)
  have add: "add_txn t idx = \<lparr>queues = queues idx @ [(txn_bank t, ?q)],
      index_heap = push (HeapEntry (txn_bank t) t) (index_heap idx)\<rparr>"
    using None update_absent [OF absent] by (simp add: add_txn_def Let_def)
  have p: "pending ?q = [t]" by (simp add: pending_def)
  have map: "map_of (queues idx @ [(txn_bank t, ?q)]) = (map_of (queues idx))(txn_bank t \<mapsto> ?q)"
    using None by (auto simp: map_of_append map_add_def fun_eq_iff split: option.splits)
  have "queue_ok (txn_bank t) ?q" by (simp add: queue_ok_def p)
  then have "index_inv (add_txn t idx) None"
    using inv absent unfolding add index_inv_def by (auto simp: push_ok front_def p split: if_splits)
  moreover have "rows (add_txn t idx) = insert t (rows idx)"
    using None p unfolding add rows_def bank_index.simps map
    by (auto split: if_splits) (metis option.distinct(1))
  ultimately show ?thesis by blast
next
  case (Some q)
  let ?q = "q\<lparr>queue_rows := queue_rows q @ [t]\<rparr>"
  have ok: "queue_ok (txn_bank t) q" using index_inv_queue [OF inv Some] .
  have p: "pending ?q = pending q @ [t]" using ok by (auto simp: pending_def queue_ok_def)
  have in_rows: "u \<in> set (pending q) \<Longrightarrow> u \<in> rows idx" for u using Some by (auto simp: rows_def)
  have "txn_id t \<notin> txn_id ` set (pending q)" using late in_rows by force
  then have "queue_ok (txn_bank t) ?q"
    using ok late in_rows by (auto simp: queue_ok_def p sorted_append)
  moreover have "front (txn_bank t, ?q) = front (txn_bank t, q)"
    using ok by (simp add: front_def p queue_ok_def)
  moreover have add: "add_txn t idx = idx\<lparr>queues := AList.update (txn_bank t) ?q (queues idx)\<rparr>"
    using Some by (simp add: add_txn_def)
  ultimately have "index_inv (add_txn t idx) None"
    using inv front_update [OF Some, of ?q] by (auto simp: index_inv_def update_conv' distinct_update)
  moreover have "rows (add_txn t idx) = insert t (rows idx)"
    using Some p unfolding add by (auto simp: rows_def update_conv' split: if_splits) (metis option.inject)
  ultimately show ?thesis by blast
qed

fun side :: "bool \<Rightarrow> bucket \<Rightarrow> bank_index" where
  "side True b = positive_side b"
| "side False b = negative_side b"

definition belongs :: "jsnum \<Rightarrow> bool \<Rightarrow> pairable \<Rightarrow> bool" where
  "belongs cents p t \<longleftrightarrow> txn_amount t \<noteq> Fin 0 \<and> to_cents (txn_amount t) = cents \<and> positive (txn_amount t) = p"

definition buckets_inv :: "pairable list \<Rightarrow> (jsnum \<times> bucket) list \<Rightarrow> bool" where
  "buckets_inv ts bs \<longleftrightarrow>
     (\<forall>c b p. map_of bs c = Some b \<longrightarrow> index_inv (side p b) None \<and> rows (side p b) = {t \<in> set ts. belongs c p t})
     \<and> (\<forall>c p t. t \<in> set ts \<longrightarrow> belongs c p t \<longrightarrow> map_of bs c \<noteq> None)"

lemma empty_index_inv: "index_inv empty_index None \<and> rows empty_index = {}"
  by (simp add: index_inv_def empty_index_def rows_def heap_ok_def)

lemma side_update:
  "side p (if q then b\<lparr>positive_side := add_txn t (positive_side b)\<rparr> else b\<lparr>negative_side := add_txn t (negative_side b)\<rparr>)
     = (if p = q then add_txn t (side p b) else side p b)"
  by (cases p; cases q) simp_all

lemma add_to_bucket_inv:
  assumes inv: "buckets_inv ts bs" and late: "\<And>u. u \<in> set ts \<Longrightarrow> txn_time u \<le> txn_time t \<and> txn_id u \<noteq> txn_id t"
  shows "buckets_inv (ts @ [t]) (add_to_bucket t bs)"
proof (cases "txn_amount t = Fin 0")
  case True
  then have "\<not> belongs c p t" for c p by (simp add: belongs_def)
  then show ?thesis using inv True unfolding buckets_inv_def add_to_bucket_def by auto
next
  case False
  define cents where "cents = to_cents (txn_amount t)"
  define b where "b = (case map_of bs cents of Some b \<Rightarrow> b
    | None \<Rightarrow> \<lparr>positive_side = empty_index, negative_side = empty_index\<rparr>)"
  let ?b = "if positive (txn_amount t) then b\<lparr>positive_side := add_txn t (positive_side b)\<rparr>
    else b\<lparr>negative_side := add_txn t (negative_side b)\<rparr>"
  have add: "add_to_bucket t bs = AList.update cents ?b bs"
    using False by (simp add: add_to_bucket_def cents_def b_def Let_def)
  have before: "index_inv (side p b) None \<and> rows (side p b) = {u \<in> set ts. belongs cents p u}" for p
  proof (cases "map_of bs cents")
    case None
    then have "side p b = empty_index" by (cases p) (simp_all add: b_def)
    moreover have "\<forall>u \<in> set ts. \<not> belongs cents p u"
      using inv None unfolding buckets_inv_def by blast
    ultimately show ?thesis using empty_index_inv by auto
  next
    case (Some b')
    then have "b = b'" by (simp add: b_def)
    then show ?thesis using inv Some unfolding buckets_inv_def by blast
  qed
  have after: "index_inv (side p ?b) None \<and> rows (side p ?b) = {u \<in> set (ts @ [t]). belongs cents p u}" for p
  proof -
    have own: "belongs cents p t \<longleftrightarrow> positive (txn_amount t) = p" using False by (simp add: belongs_def cents_def)
    have "txn_time u \<le> txn_time t \<and> txn_id u \<noteq> txn_id t" if "u \<in> rows (side p b)" for u
      using that before [of p] late by auto
    then show ?thesis
      using add_txn_inv [of "side p b" t] before [of p] own
      unfolding side_update by (auto split: if_splits)
  qed
  have other: "belongs c p t \<Longrightarrow> c = cents" for c p by (simp add: belongs_def cents_def)
  show ?thesis
    unfolding buckets_inv_def add
  proof (intro conjI allI impI)
    fix c b' p assume b': "map_of (AList.update cents ?b bs) c = Some b'"
    show "index_inv (side p b') None"
      using b' after inv by (cases "c = cents") (auto simp: update_conv' buckets_inv_def)
    have "\<not> belongs c p t" if "c \<noteq> cents" using that other by blast
    then show "rows (side p b') = {u \<in> set (ts @ [t]). belongs c p u}"
      using b' after inv by (cases "c = cents") (auto simp: update_conv' buckets_inv_def)
  next
    fix c p u assume "u \<in> set (ts @ [t])" "belongs c p u"
    then show "map_of (AList.update cents ?b bs) c \<noteq> None"
      using inv other by (auto simp: update_conv' buckets_inv_def)
  qed
qed

lemma build_buckets_inv:
  assumes "sorted (map txn_time ts)" "distinct (map txn_id ts)"
  shows "buckets_inv ts (fold add_to_bucket ts [])"
  using assms
proof (induction ts rule: rev_induct)
  case Nil
  show ?case by (simp add: buckets_inv_def)
next
  case (snoc t ts)
  then have "buckets_inv ts (fold add_to_bucket ts [])" by (simp add: sorted_append)
  then have "buckets_inv (ts @ [t]) (add_to_bucket t (fold add_to_bucket ts []))"
    using snoc.prems by (intro add_to_bucket_inv) (simp_all add: sorted_append, metis imageI)
  then show ?case by simp
qed

section \<open>The pairing loop\<close>

definition compatible :: "pairable \<Rightarrow> pairable \<Rightarrow> bool" where
  "compatible a b \<longleftrightarrow> txn_amount a \<noteq> Fin 0 \<and> txn_amount b \<noteq> Fin 0
     \<and> to_cents (txn_amount a) = to_cents (txn_amount b)
     \<and> positive (txn_amount a) \<noteq> positive (txn_amount b)
     \<and> txn_bank a \<noteq> txn_bank b \<and> \<bar>txn_time a - txn_time b\<bar> \<le> three_days"

lemma compatible_sym: "compatible a b \<Longrightarrow> compatible b a"
  by (auto simp: compatible_def abs_minus_commute)

definition matching :: "pairable set \<Rightarrow> (jstring \<rightharpoonup> jstring) \<Rightarrow> bool" where
  "matching ts m \<longleftrightarrow> (\<forall>x y. m x = Some y \<longrightarrow> m y = Some x
     \<and> (\<exists>a \<in> ts. \<exists>b \<in> ts. txn_id a = x \<and> txn_id b = y \<and> compatible a b))"

definition pairing_inv :: "pairable list \<Rightarrow> nat \<Rightarrow> pairing \<Rightarrow> bool" where
  "pairing_inv ts i st \<longleftrightarrow>
     matching (set ts) (map_of (matched st)) \<and> used st = dom (map_of (matched st))
     \<and> (\<forall>c b p. map_of (buckets st) c = Some b \<longrightarrow>
          index_inv (side p b) None \<and> rows (side p b) \<subseteq> {t \<in> set ts. belongs c p t})
     \<and> (\<forall>c p t. t \<in> set (drop i ts) \<longrightarrow> txn_id t \<notin> used st \<longrightarrow> belongs c p t \<longrightarrow>
          (\<exists>b. map_of (buckets st) c = Some b \<and> t \<in> rows (side p b)))
     \<and> (\<forall>j < i. j < length ts \<longrightarrow> txn_id (ts ! j) \<notin> used st \<longrightarrow>
          (\<forall>u \<in> set (drop (Suc j) ts). txn_id u \<notin> used st \<longrightarrow> \<not> compatible (ts ! j) u))"

lemma order_of_nth:
  assumes "distinct (map txn_id ts)" "j < length ts"
  shows "order_of ts (txn_id (ts ! j)) = Some (int j)"
proof -
  let ?z = "zip (map txn_id ts) [0..int (length ts) - 1]"
  have len: "length [0..int (length ts) - 1] = length ts" by simp
  have "map fst ?z = map txn_id ts" using len by simp
  then have d: "distinct (map fst ?z)" using assms(1) by simp
  have "(txn_id (ts ! j), int j) \<in> set ?z"
    using assms(2) by (auto simp: in_set_zip intro!: exI [of _ j])
  then have "(txn_id (ts ! j), int j) \<in> set (rev ?z)" by simp
  moreover have "distinct (map fst (rev ?z))" using d by (simp add: rev_map [symmetric])
  ultimately show ?thesis unfolding order_of_def by (intro map_of_is_SomeI)
qed

lemma stale_nth:
  assumes "distinct (map txn_id ts)" "j < length ts"
  shows "stale (order_of ts) (int i) u (ts ! j) \<longleftrightarrow> j \<le> i \<or> txn_id (ts ! j) \<in> u"
  using order_of_nth [OF assms] by (simp add: stale_def)

lemma distinct_idD: "distinct (map txn_id ts) \<Longrightarrow> a \<in> set ts \<Longrightarrow> b \<in> set ts \<Longrightarrow> txn_id a = txn_id b \<Longrightarrow> a = b"
  by (auto simp: distinct_map dest: inj_onD)

lemma pairing_inv_skip:
  assumes inv: "pairing_inv ts i st" and i: "i < length ts"
    and skip: "txn_amount (ts ! i) = Fin 0 \<or> txn_id (ts ! i) \<in> used st"
  shows "pairing_inv ts (Suc i) st"
proof -
  have "set (drop (Suc i) ts) \<subseteq> set (drop i ts)" by (intro set_drop_subset_set_drop) simp
  moreover have "\<not> compatible (ts ! i) u" if "txn_id (ts ! i) \<notin> used st" for u
    using that skip by (simp add: compatible_def)
  ultimately show ?thesis
    using inv unfolding pairing_inv_def less_Suc_eq by blast
qed

lemma matching_add:
  assumes m: "matching T m" and ab: "a \<in> T" "b \<in> T" "compatible a b" "txn_id a \<notin> dom m" "txn_id b \<notin> dom m"
  shows "matching T (m(txn_id b \<mapsto> txn_id a, txn_id a \<mapsto> txn_id b))"
  unfolding matching_def
proof (intro allI impI)
  fix x y assume xy: "(m(txn_id b \<mapsto> txn_id a, txn_id a \<mapsto> txn_id b)) x = Some y"
  consider "x = txn_id a" "y = txn_id b" | "x \<noteq> txn_id a" "x = txn_id b" "y = txn_id a"
    | "x \<noteq> txn_id a" "x \<noteq> txn_id b" "m x = Some y"
    using xy by (metis fun_upd_apply option.inject)
  then show "(m(txn_id b \<mapsto> txn_id a, txn_id a \<mapsto> txn_id b)) y = Some x
      \<and> (\<exists>a \<in> T. \<exists>b \<in> T. txn_id a = x \<and> txn_id b = y \<and> compatible a b)"
  proof cases
    case 1
    then show ?thesis using ab(1-3) by auto
  next
    case 2
    then show ?thesis using ab(1,2) compatible_sym [OF ab(3)] by auto
  next
    case 3
    then have "m y = Some x" "\<exists>a \<in> T. \<exists>b \<in> T. txn_id a = x \<and> txn_id b = y \<and> compatible a b"
      using m unfolding matching_def by blast+
    moreover from this(1) have "y \<noteq> txn_id a" "y \<noteq> txn_id b" using ab(4,5) by auto
    ultimately show ?thesis by simp
  qed
qed

text \<open>One transaction of the loop, with what the search found for it.\<close>

lemma pair_one_inv:
  assumes d: "distinct (map txn_id ts)" and srt: "sorted (map txn_time ts)"
    and inv: "pairing_inv ts i st" and i: "i < length ts"
  shows "pairing_inv ts (Suc i) (pair_one ts (int i) (ts ! i) st)"
proof (cases "txn_amount (ts ! i) = Fin 0 \<or> txn_id (ts ! i) \<in> used st")
  case True
  then show ?thesis using pairing_inv_skip [OF inv i True] by (simp add: pair_one_def)
next
  case False
  let ?t = "ts ! i"
  define c where "c = to_cents (txn_amount ?t)"
  define p where "p = positive (txn_amount ?t)"
  have t: "?t \<in> set (drop i ts)" "belongs c p ?t" "txn_id ?t \<notin> used st"
    using i False by (auto simp: belongs_def c_def p_def simp flip: Cons_nth_drop_Suc)
  obtain b where b: "map_of (buckets st) c = Some b" using inv t unfolding pairing_inv_def by blast
  let ?s = "search_for ts (int i) (used st) ?t"
  obtain m idx where take: "take_future ?s (side (\<not> p) b) = (m, idx)" by (cases "take_future ?s (side (\<not> p) b)")
  have sides: "index_inv (side q b) None" "rows (side q b) \<subseteq> {t \<in> set ts. belongs c q t}" for q
    using inv b unfolding pairing_inv_def by blast+
  note found = take_future_found [OF sides(1) take]
  let ?b = "if p then b\<lparr>negative_side := idx\<rparr> else b\<lparr>positive_side := idx\<rparr>"
  let ?st = "st\<lparr>buckets := AList.update c ?b (buckets st)\<rparr>"
  have side: "side q ?b = (if q = (\<not> p) then idx else side q b)" for q by (cases p; cases q) simp_all
  have step: "pair_one ts (int i) ?t st = (case m of None \<Rightarrow> ?st
      | Some x \<Rightarrow> ?st\<lparr>used := insert (txn_id x) (insert (txn_id ?t) (used st)),
          matched := AList.update (txn_id ?t) (txn_id x) (AList.update (txn_id x) (txn_id ?t) (matched st))\<rparr>)"
    using False b take by (cases p) (simp_all add: pair_one_def Let_def c_def [symmetric] p_def [symmetric])
  have el: "u \<in> eligible ?s x \<longleftrightarrow> u \<in> rows x \<and> u \<in> set (drop (Suc i) ts) \<and> txn_id u \<notin> used st"
    if "rows x \<subseteq> set ts" for u x
  proof -
    have "\<not> skips ?s u \<longleftrightarrow> u \<in> set (drop (Suc i) ts) \<and> txn_id u \<notin> used st" if "u \<in> set ts"
    proof -
      from that obtain j where j: "u = ts ! j" "j < length ts" by (auto simp: in_set_conv_nth)
      have "distinct ts" using d by (simp add: distinct_map)
      then have "u \<in> set (drop (Suc i) ts) \<longleftrightarrow> i < j"
        using j by (auto simp: in_set_conv_nth nth_eq_iff_index_eq intro!: exI [of _ "j - Suc i"])
      then show ?thesis using stale_nth [OF d j(2), of i "used st"] j(1) by (auto simp: search_for_def)
    qed
    then show ?thesis using that by (auto simp: eligible_def)
  qed
  have t_ts: "?t \<in> set ts" using i by simp
  have others: "map_of (buckets ?st) c' = Some b' \<Longrightarrow>
      index_inv (side q b') None \<and> rows (side q b') \<subseteq> {u \<in> set ts. belongs c' q u}" for c' b' q
  proof (cases "c' = c")
    case True
    assume "map_of (buckets ?st) c' = Some b'"
    then have "side q b' = (if q = (\<not> p) then idx else side q b)" using True side by (auto simp: update_conv')
    then show ?thesis using found sides True by (auto split: if_splits)
  next
    case False
    assume "map_of (buckets ?st) c' = Some b'"
    then have "map_of (buckets st) c' = Some b'" using False by (simp add: update_conv')
    then show ?thesis using inv unfolding pairing_inv_def by blast
  qed
  have opp: "rows (side (\<not> p) b) \<subseteq> set ts" "rows idx \<subseteq> set ts" using sides found by blast+
  have later: "\<exists>b'. map_of (buckets ?st) c' = Some b' \<and> u \<in> rows (side q b')"
    if u: "u \<in> set (drop (Suc i) ts)" "txn_id u \<notin> used st" "belongs c' q u" and kept: "m \<noteq> Some u" for c' q u
  proof -
    have "u \<in> set (drop i ts)" using u(1) by (meson set_drop_subset_set_drop le_SucI order_refl subsetD)
    then obtain b' where b': "map_of (buckets st) c' = Some b'" "u \<in> rows (side q b')"
      using inv u unfolding pairing_inv_def by blast
    show ?thesis
    proof (cases "c' = c \<and> q = (\<not> p)")
      case True
      then have "u \<in> eligible ?s (side (\<not> p) b)" using b b' u el [OF opp(1)] by auto
      then have "u \<in> eligible ?s idx" using found kept by (cases m) auto
      then have "u \<in> rows idx" by (simp add: eligible_def)
      then show ?thesis using True side by (auto simp: update_conv')
    next
      case False
      then show ?thesis using b b' side by (cases "c' = c") (auto simp: update_conv')
    qed
  qed
  have drops: "set (drop (Suc j) ts) \<subseteq> set ts" for j by (rule set_drop_subset)
  show ?thesis
  proof (cases m)
    case None
    have "\<not> compatible ?t u" if u: "u \<in> set (drop (Suc i) ts)" "txn_id u \<notin> used st" for u
    proof
      assume comp: "compatible ?t u"
      then have "belongs c (\<not> p) u" by (auto simp: compatible_def belongs_def c_def p_def)
      moreover have "u \<in> set (drop i ts)" using u(1) by (meson set_drop_subset_set_drop le_SucI order_refl subsetD)
      ultimately have "u \<in> rows (side (\<not> p) b)" using inv u(2) b unfolding pairing_inv_def by (metis option.inject)
      then have "u \<in> eligible ?s (side (\<not> p) b)" using el [OF opp(1)] u by blast
      then have "txn_bank u = txn_bank ?t \<or> txn_time ?t + three_days < txn_time u"
        using found None by (auto simp: search_for_def)
      then show False using comp by (auto simp: compatible_def)
    qed
    then show ?thesis
      using inv others later None unfolding step pairing_inv_def by (auto simp: less_Suc_eq)
  next
    case (Some x)
    then have x: "x \<in> rows (side (\<not> p) b)" "x \<in> set (drop (Suc i) ts)" "txn_id x \<notin> used st"
      "txn_bank x \<noteq> txn_bank ?t" "txn_time x \<le> txn_time ?t + three_days"
      using found el [OF opp(1), of x] by (auto simp: search_for_def)
    have "belongs c (\<not> p) x" using x(1) sides by blast
    moreover have "txn_time ?t \<le> txn_time x"
    proof -
      from x(2) obtain k where "x = ts ! k" "i < k" "k < length ts"
        by (auto simp: in_set_conv_nth)
      then show ?thesis using srt by (auto simp: sorted_iff_nth_mono)
    qed
    ultimately have comp: "compatible ?t x"
      using x(4,5) False by (auto simp: compatible_def belongs_def c_def p_def)
    have x_ts: "x \<in> set ts" using x(2) drops by blast
    have fresh: "txn_id ?t \<notin> dom (map_of (matched st))" "txn_id x \<notin> dom (map_of (matched st))"
      using inv t(3) x(3) unfolding pairing_inv_def by metis+
    let ?m = "(map_of (matched st))(txn_id x \<mapsto> txn_id ?t, txn_id ?t \<mapsto> txn_id x)"
    have mm: "matching (set ts) ?m"
      using inv matching_add [OF _ t_ts x_ts comp fresh] unfolding pairing_inv_def by blast
    let ?st' = "?st\<lparr>used := insert (txn_id x) (insert (txn_id ?t) (used st)),
      matched := AList.update (txn_id ?t) (txn_id x) (AList.update (txn_id x) (txn_id ?t) (matched st))\<rparr>"
    have map: "map_of (matched ?st') = ?m" by (simp add: update_conv')
    have inv4: "matching (set ts) (map_of (matched st))" "used st = dom (map_of (matched st))"
      "\<And>j u. j < i \<Longrightarrow> j < length ts \<Longrightarrow> txn_id (ts ! j) \<notin> used st \<Longrightarrow> u \<in> set (drop (Suc j) ts)
        \<Longrightarrow> txn_id u \<notin> used st \<Longrightarrow> \<not> compatible (ts ! j) u"
      using inv unfolding pairing_inv_def by blast+
    have "pairing_inv ts (Suc i) ?st'"
      unfolding pairing_inv_def map
    proof (intro conjI allI impI ballI)
      show "matching (set ts) ?m" by (rule mm)
      show "used ?st' = dom ?m" using inv4(2) by auto
      show "index_inv (side q b') None" "rows (side q b') \<subseteq> {u \<in> set ts. belongs c' q u}"
        if "map_of (buckets ?st') c' = Some b'" for c' b' q
        using others [of c' b' q] that by auto
      show "\<exists>b. map_of (buckets ?st') c' = Some b \<and> u \<in> rows (side q b)"
        if "u \<in> set (drop (Suc i) ts)" "txn_id u \<notin> used ?st'" "belongs c' q u" for c' q u
      proof -
        have "txn_id u \<notin> used st" "m \<noteq> Some u" using that(2) Some by auto
        then show ?thesis using later [of u c' q] that by simp
      qed
      show "\<not> compatible (ts ! j) u"
        if "j < Suc i" "j < length ts" "txn_id (ts ! j) \<notin> used ?st'" "u \<in> set (drop (Suc j) ts)"
          "txn_id u \<notin> used ?st'" for j u
        using that by (intro inv4(3)) (auto simp: less_Suc_eq)
    qed
    then show ?thesis unfolding step using Some by simp
  qed
qed

lemma pair_all_inv:
  assumes "distinct (map txn_id ts)" "sorted (map txn_time ts)" "pairing_inv ts i st" "i \<le> length ts"
  shows "pairing_inv ts (length ts) (pair_all ts (int i) (drop i ts) st)"
  using assms(3,4)
proof (induction "length ts - i" arbitrary: i st)
  case 0
  then show ?case by simp
next
  case (Suc n)
  then have i: "i < length ts" by simp
  have "pairing_inv ts (Suc i) (pair_one ts (int i) (ts ! i) st)"
    using pair_one_inv [OF assms(1,2) Suc.prems(1) i] .
  then have "pairing_inv ts (length ts) (pair_all ts (int (Suc i)) (drop (Suc i) ts) (pair_one ts (int i) (ts ! i) st))"
    using Suc i by (intro Suc.hyps(1)) auto
  then show ?case by (simp add: add.commute flip: Cons_nth_drop_Suc [OF i])
qed

section \<open>The result\<close>

lemma symmetric_add:
  assumes f: "\<And>x y. f x = Some y \<Longrightarrow> f y = Some x" and new: "f a = None" "f c = None"
    and xy: "(f(a \<mapsto> c, c \<mapsto> a)) x = Some y"
  shows "(f(a \<mapsto> c, c \<mapsto> a)) y = Some x"
proof (cases "x = a \<or> x = c")
  case True
  then show ?thesis using xy by (auto split: if_splits)
next
  case False
  then have "f x = Some y" using xy by simp
  then have "f y = Some x" by (rule f)
  moreover from this have "y \<noteq> a" "y \<noteq> c" using new by auto
  ultimately show ?thesis by simp
qed

lemma collect_pairs_eq:
  assumes sym: "\<And>x y. m x = Some y \<Longrightarrow> m y = Some x" and m: "m = map_of ms"
    and sub: "map_of ps \<subseteq>\<^sub>m m" and psym: "\<And>x y. map_of ps x = Some y \<Longrightarrow> map_of ps y = Some x"
    and dom: "dom m \<subseteq> dom (map_of ps) \<union> txn_id ` set ts"
  shows "map_of (collect_pairs ms ts ps) = m"
  using sub psym dom
proof (induction ts arbitrary: ps)
  case Nil
  have "map_of ps x = m x" for x
  proof (cases "x \<in> dom (map_of ps)")
    case True
    then show ?thesis using Nil.prems(1) by (simp add: map_le_def)
  next
    case False
    then have "x \<notin> dom m" using Nil.prems(3) by auto
    then show ?thesis using False by (simp add: domIff)
  qed
  then show ?case by (simp add: fun_eq_iff)
next
  case (Cons t ts)
  let ?ps = "if map_of ps (txn_id t) \<noteq> None then ps
    else case map_of ms (txn_id t) of None \<Rightarrow> ps
      | Some c \<Rightarrow> AList.update c (txn_id t) (AList.update (txn_id t) c ps)"
  have "map_of ?ps \<subseteq>\<^sub>m m \<and> (\<forall>x y. map_of ?ps x = Some y \<longrightarrow> map_of ?ps y = Some x)
      \<and> dom m \<subseteq> dom (map_of ?ps) \<union> txn_id ` set ts"
  proof (cases "map_of ps (txn_id t) \<noteq> None \<or> m (txn_id t) = None")
    case True
    then have ps: "?ps = ps" by (auto simp: m split: option.splits)
    have "txn_id t \<in> dom (map_of ps) \<or> txn_id t \<notin> dom m" using True by (simp add: dom_def)
    then have "dom m \<subseteq> dom (map_of ps) \<union> txn_id ` set ts" using Cons.prems(3) by auto
    then show ?thesis unfolding ps using Cons.prems(1,2) by blast
  next
    case False
    then obtain c where c: "m (txn_id t) = Some c" "map_of ps (txn_id t) = None" by auto
    have partner: "m c = Some (txn_id t)" using c(1) by (rule sym)
    have "?ps = AList.update c (txn_id t) (AList.update (txn_id t) c ps)" using c unfolding m by simp
    then have ps: "map_of ?ps = (map_of ps)(txn_id t \<mapsto> c, c \<mapsto> txn_id t)" by (simp only: update_conv')
    have none: "map_of ps c = None"
    proof (rule ccontr)
      assume "map_of ps c \<noteq> None"
      then obtain z where z: "map_of ps c = Some z" by auto
      then have "m c = Some z" using Cons.prems(1) by (metis domI map_le_def)
      then show False using partner Cons.prems(2) [OF z] c(2) by simp
    qed
    have "(map_of ps)(txn_id t \<mapsto> c, c \<mapsto> txn_id t) \<subseteq>\<^sub>m m"
      using Cons.prems(1) c(1) partner by (auto simp: map_le_def)
    moreover have "((map_of ps)(txn_id t \<mapsto> c, c \<mapsto> txn_id t)) y = Some x"
      if "((map_of ps)(txn_id t \<mapsto> c, c \<mapsto> txn_id t)) x = Some y" for x y
      using symmetric_add [OF Cons.prems(2) c(2) none that] by blast
    moreover have "dom m \<subseteq> dom ((map_of ps)(txn_id t \<mapsto> c, c \<mapsto> txn_id t)) \<union> txn_id ` set ts"
      using Cons.prems(3) by auto
    ultimately show ?thesis unfolding ps by blast
  qed
  then have "map_of (collect_pairs ms ts ?ps) = m" by (intro Cons.IH) blast+
  then show ?case by simp
qed

lemma insert_by_mset [simp]: "mset (insert_by le x ys) = add_mset x (mset ys)"
  by (induction ys) auto

lemma sort_by_mset [simp]: "mset (sort_by le xs) = mset xs"
  by (induction xs) (simp_all add: sort_by_def)

lemma insert_by_sorted:
  "sorted (map txn_time ys) \<Longrightarrow> sorted (map txn_time (insert_by (sorts_before collate) x ys))"
proof (induction ys)
  case (Cons y ys)
  have s: "set (insert_by (sorts_before collate) x ys) = insert x (set ys)"
    by (metis insert_by_mset set_mset_add_mset_insert set_mset_mset)
  show ?case
    using Cons s by (cases "sorts_before collate x y") (auto simp: sorts_before_def [of collate x y])
qed simp

lemma sort_by_sorted: "sorted (map txn_time (sort_by (sorts_before collate) xs))"
  by (induction xs) (simp_all add: sort_by_def insert_by_sorted)

lemma paired_all:
  assumes "distinct (map txn_id txns)"
  shows "matching (set txns) (map_of (pair_transfers collate txns))
    \<and> (\<forall>a \<in> set txns. \<forall>b \<in> set txns. compatible a b
      \<longrightarrow> txn_id a \<in> dom (map_of (pair_transfers collate txns)) \<or> txn_id b \<in> dom (map_of (pair_transfers collate txns)))"
proof -
  define ts where "ts = sort_by (sorts_before collate) txns"
  define st where "st = pair_all ts 0 ts \<lparr>matched = [], used = {}, buckets = fold add_to_bucket ts []\<rparr>"
  have ms: "mset ts = mset txns" by (simp add: ts_def)
  then have set: "set ts = set txns" by (metis set_mset_mset)
  have d: "distinct (map txn_id ts)" using assms ms by (metis mset_eq_imp_distinct_iff mset_map)
  have srt: "sorted (map txn_time ts)" by (simp add: ts_def sort_by_sorted)
  have "pairing_inv ts 0 \<lparr>matched = [], used = {}, buckets = fold add_to_bucket ts []\<rparr>"
    using build_buckets_inv [OF srt d] unfolding pairing_inv_def buckets_inv_def
    by (simp add: matching_def) blast
  from pair_all_inv [OF d srt this] have inv: "pairing_inv ts (length ts) st" by (simp add: st_def)
  then have m: "matching (set ts) (map_of (matched st))" and u: "used st = dom (map_of (matched st))"
    and none: "\<And>j v. j < length ts \<Longrightarrow> txn_id (ts ! j) \<notin> used st \<Longrightarrow> v \<in> set (drop (Suc j) ts)
        \<Longrightarrow> txn_id v \<notin> used st \<Longrightarrow> \<not> compatible (ts ! j) v"
    unfolding pairing_inv_def by blast+
  have "map_of (pair_transfers collate txns) = map_of (matched st)"
    unfolding pair_transfers_def Let_def ts_def [symmetric] st_def [symmetric]
  proof (rule collect_pairs_eq [OF _ refl])
    show "map_of (matched st) y = Some x" if "map_of (matched st) x = Some y" for x y
      using m that unfolding matching_def by blast
    show "dom (map_of (matched st)) \<subseteq> dom (map_of []) \<union> txn_id ` set ts"
    proof
      fix x assume "x \<in> dom (map_of (matched st))"
      then obtain y where "map_of (matched st) x = Some y" by blast
      then have "\<exists>a \<in> set ts. txn_id a = x" using m unfolding matching_def by blast
      then show "x \<in> dom (map_of []) \<union> txn_id ` set ts" by auto
    qed
  qed simp_all
  moreover have "txn_id a \<in> dom (map_of (matched st)) \<or> txn_id b \<in> dom (map_of (matched st))"
    if ab: "a \<in> set ts" "b \<in> set ts" "compatible a b" for a b
  proof (rule ccontr)
    assume un: "\<not> (txn_id a \<in> dom (map_of (matched st)) \<or> txn_id b \<in> dom (map_of (matched st)))"
    obtain j k where jk: "a = ts ! j" "j < length ts" "b = ts ! k" "k < length ts" using ab by (auto simp: in_set_conv_nth)
    have "a \<noteq> b" using ab(3) by (auto simp: compatible_def)
    have later: "ts ! k' \<in> set (drop (Suc j') ts)" if "j' < k'" "k' < length ts" for j' k'
      using that by (auto simp: in_set_conv_nth intro!: exI [of _ "k' - Suc j'"])
    consider "j < k" | "k < j" using \<open>a \<noteq> b\<close> jk by (metis linorder_neqE_nat)
    then show False
    proof cases
      case 1
      then show ?thesis using none [OF jk(2), of b] later jk un u ab(3) by auto
    next
      case 2
      then show ?thesis using none [OF jk(4), of a] later jk un u compatible_sym [OF ab(3)] by auto
    qed
  qed
  ultimately show ?thesis using m unfolding set by simp
qed

text \<open>
  C7. Each pair that the detection reports is mutual and joins two of the transactions given:
  non-zero amounts of opposite sign that agree to the cent, two different bank accounts, and
  dates at most three days apart. As a map sends each transaction to at most one other, no
  transaction is in two pairs.
\<close>

theorem pairs_are_transfers:
  assumes "distinct (map txn_id txns)" and "map_of (pair_transfers collate txns) x = Some y"
  shows "map_of (pair_transfers collate txns) y = Some x
    \<and> (\<exists>a b. a \<in> set txns \<and> b \<in> set txns \<and> txn_id a = x \<and> txn_id b = y
        \<and> txn_amount a \<noteq> Fin 0 \<and> txn_amount b \<noteq> Fin 0 \<and> to_cents (txn_amount a) = to_cents (txn_amount b)
        \<and> positive (txn_amount a) \<noteq> positive (txn_amount b)
        \<and> txn_bank a \<noteq> txn_bank b \<and> \<bar>txn_time a - txn_time b\<bar> \<le> three_days)"
  using paired_all [OF assms(1), of collate] assms(2) unfolding matching_def compatible_def by blast

text \<open>
  C6. The detection is maximal: of any two transactions that could form a transfer at least one
  is in a reported pair. The heap with its stale entries, the early break at the date bound and
  the entry set aside for the transaction's own bank never hide a counterpart.
\<close>

theorem pairing_is_maximal:
  assumes "distinct (map txn_id txns)" and "a \<in> set txns" "b \<in> set txns" "compatible a b"
  shows "txn_id a \<in> dom (map_of (pair_transfers collate txns))
    \<or> txn_id b \<in> dom (map_of (pair_transfers collate txns))"
  using paired_all [OF assms(1), of collate] assms(2-4) by blast

text \<open>
  C22. The search returns the earliest eligible counterpart: within the date bound, of another
  bank and not skipped, and only that one leaves the index; it returns nothing exactly when
  there is none, and the index stays well formed.
\<close>

theorem search_finds_earliest:
  assumes "index_inv idx None"
  shows "index_inv (snd (take_future s idx)) None
    \<and> (let candidates = {t \<in> eligible s idx. txn_bank t \<noteq> excluded_bank s \<and> txn_time t \<le> maximum_date s}
       in case fst (take_future s idx) of
            None \<Rightarrow> candidates = {} \<and> eligible s (snd (take_future s idx)) = eligible s idx
          | Some c \<Rightarrow> c \<in> candidates \<and> (\<forall>t \<in> candidates. txn_time c \<le> txn_time t)
              \<and> eligible s (snd (take_future s idx)) = eligible s idx - {c})"
proof -
  obtain m idx' where r: "take_future s idx = (m, idx')" by (cases "take_future s idx")
  show ?thesis using take_future_found [OF assms r] unfolding r by (cases m) auto
qed

section \<open>The pair test on ledger amounts\<close>

lemma rnd_half_cent: "4 / 1000 \<le> rnd (5 / 1000) \<and> rnd (5 / 1000) \<le> 51 / 10000" "fl (5 / 1000) = Fin (rnd (5 / 1000))"
proof -
  have "\<bar>rnd (5 / 1000) - 5 / 1000\<bar> \<le> \<bar>5 / 1000\<bar> / 2 ^ 53" by (rule rnd_near) simp
  then have "\<bar>rnd (5 / 1000) - 5 / 1000\<bar> \<le> 1 / 10000" by simp
  then show "4 / 1000 \<le> rnd (5 / 1000) \<and> rnd (5 / 1000) \<le> 51 / 10000" unfolding abs_le_iff by linarith
  show "fl (5 / 1000) = Fin (rnd (5 / 1000))" by (rule fl_near) simp_all
qed

lemma cents_near:
  assumes "0 \<le> c" "c \<le> 2 ^ 50"
  obtains d where "dollars c = Fin d" "\<bar>d - of_int c / 100\<bar> \<le> 1 / 800" "0 \<le> d" "d \<le> 2 ^ 50"
proof (cases "c = 0")
  case True
  then show ?thesis using that [of 0] by simp
next
  case False
  obtain d where d: "dollars c = Fin d" "\<bar>d * 100 - of_int c\<bar> \<le> 1 / 8"
    using dollars_near [of c] False assms by auto
  have c: "1 \<le> (of_int c :: rat)" "(of_int c :: rat) \<le> 2 ^ 50"
    using False assms by (simp, metis of_int_le_iff of_int_numeral of_int_power)
  have "d * 100 - of_int c \<le> 1 / 8" "of_int c - d * 100 \<le> 1 / 8" using d(2) unfolding abs_le_iff by linarith+
  then have "\<bar>d - of_int c / 100\<bar> \<le> 1 / 800" "0 \<le> d" "d \<le> 2 ^ 50"
    using c unfolding abs_le_iff by linarith+
  then show ?thesis using that d(1) by blast
qed

lemma js_minus_Fin: "js_minus (Fin x) (Fin y) = fl (x - y)"
  by (simp add: js_minus_def)

lemma half_cent_apart:
  assumes "0 \<le> a" "a \<le> 2 ^ 50" "0 \<le> b" "b \<le> 2 ^ 50"
  shows "js_less (js_abs (js_minus (dollars a) (dollars b))) (fl (5 / 1000)) \<longleftrightarrow> a = b"
proof -
  obtain x where x: "dollars a = Fin x" "\<bar>x - of_int a / 100\<bar> \<le> 1 / 800" "0 \<le> x" "x \<le> 2 ^ 50"
    using cents_near [OF assms(1,2)] .
  obtain y where y: "dollars b = Fin y" "\<bar>y - of_int b / 100\<bar> \<le> 1 / 800" "0 \<le> y" "y \<le> 2 ^ 50"
    using cents_near [OF assms(3,4)] .
  show ?thesis
  proof (cases "a = b")
    case True
    then have "x = y" using x(1) y(1) by simp
    moreover have "fl 0 = Fin 0" by (simp add: fl_def)
    ultimately show ?thesis using True x(1) y(1) rnd_half_cent by (simp add: js_minus_Fin)
  next
    case False
    then have "of_int a + 1 \<le> (of_int b :: rat) \<or> of_int b + 1 \<le> (of_int a :: rat)"
    proof (cases "a < b")
      case True
      then have "of_int (a + 1) \<le> (of_int b :: rat)" unfolding of_int_le_iff by simp
      then show ?thesis by simp
    next
      case later: False
      then have "of_int (b + 1) \<le> (of_int a :: rat)" using False unfolding of_int_le_iff by simp
      then show ?thesis by simp
    qed
    moreover have "x \<le> of_int a / 100 + 1 / 800" "of_int a / 100 - 1 / 800 \<le> x"
      "y \<le> of_int b / 100 + 1 / 800" "of_int b / 100 - 1 / 800 \<le> y"
      using x(2) y(2) unfolding abs_le_iff by linarith+
    ultimately have "75 / 10000 \<le> y - x \<or> 75 / 10000 \<le> x - y"
      by (elim disjE) (rule disjI1, linarith, rule disjI2, linarith)
    then have far: "75 / 10000 \<le> \<bar>x - y\<bar>" by linarith
    have "\<bar>x - y\<bar> \<le> 2 ^ 60" using x(3,4) y(3,4) unfolding abs_le_iff by simp
    then have f: "fl (x - y) = Fin (rnd (x - y))" using far by (intro fl_near) auto
    have "\<bar>rnd (x - y) - (x - y)\<bar> \<le> \<bar>x - y\<bar> / 2 ^ 53" using far by (intro rnd_near) auto
    then have "\<bar>rnd (x - y) - (x - y)\<bar> \<le> \<bar>x - y\<bar> / 10" by (rule order_trans) simp
    then have "6 / 1000 \<le> \<bar>rnd (x - y)\<bar>" using far unfolding abs_le_iff by (auto simp: abs_if split: if_splits)
    then show ?thesis using False f x(1) y(1) rnd_half_cent by (simp add: js_minus_Fin)
  qed
qed

lemma dollars_sign:
  assumes "\<bar>c\<bar> \<le> 2 ^ 50" "c \<noteq> 0"
  obtains d where "dollars c = Fin d" "0 < d \<longleftrightarrow> 0 < c" "d \<noteq> 0"
proof -
  obtain d where d: "dollars c = Fin d" "\<bar>d * 100 - of_int c\<bar> \<le> 1 / 8"
    using dollars_near assms by blast
  have c: "1 \<le> (of_int c :: rat) \<and> 0 < c \<or> (of_int c :: rat) \<le> - 1 \<and> c < 0"
  proof (cases "0 < c")
    case True
    then have "of_int 1 \<le> (of_int c :: rat)" unfolding of_int_le_iff by simp
    then show ?thesis using True by simp
  next
    case False
    then have "of_int c \<le> (of_int (- 1) :: rat)" unfolding of_int_le_iff using assms(2) by simp
    then show ?thesis using False assms(2) by simp
  qed
  have "d * 100 - of_int c \<le> 1 / 8" "of_int c - d * 100 \<le> 1 / 8" using d(2) unfolding abs_le_iff by linarith+
  then have "0 < d \<and> 0 < c \<or> d < 0 \<and> c < 0" using c by auto
  then show ?thesis using that [OF d(1)] by auto
qed

text \<open>
  C23. On amounts of whole cents the stand-alone pair test and the bucketed detection agree:
  the difference below half a cent of two doubles is the equality of their cents, on which the
  detection buckets, and the signs decide the side.
\<close>

theorem pair_test_is_compatible:
  assumes "txn_amount a = dollars c" "txn_amount b = dollars d" "\<bar>c\<bar> \<le> 2 ^ 50" "\<bar>d\<bar> \<le> 2 ^ 50" "d \<noteq> 0"
  shows "is_transfer_pair a b \<longleftrightarrow> compatible a b"
proof (cases "c = 0")
  case True
  then show ?thesis using assms by (simp add: is_transfer_pair_def compatible_def js_differ_def)
next
  case False
  obtain x where x: "dollars c = Fin x" "0 < x \<longleftrightarrow> 0 < c" "x \<noteq> 0" using dollars_sign assms(3) False by blast
  obtain y where y: "dollars d = Fin y" "0 < y \<longleftrightarrow> 0 < d" "y \<noteq> 0" using dollars_sign assms(4,5) by blast
  have near: "js_less (js_abs (js_minus (js_abs (txn_amount a)) (js_abs (txn_amount b)))) (fl (5 / 1000)) \<longleftrightarrow> \<bar>c\<bar> = \<bar>d\<bar>"
    using half_cent_apart [of "\<bar>c\<bar>" "\<bar>d\<bar>"] assms by (simp add: js_abs_dollars)
  have cents: "to_cents (txn_amount a) = to_cents (txn_amount b) \<longleftrightarrow> \<bar>c\<bar> = \<bar>d\<bar>"
    using assms by (simp add: to_cents_dollars del: of_int_abs)
  have signs: "js_differ (js_sign (txn_amount a)) (js_sign (txn_amount b)) \<longleftrightarrow> positive (txn_amount a) \<noteq> positive (txn_amount b)"
    using x(3) y(3) assms(1,2) x(1) y(1) by (auto simp: js_differ_def sgn_if)
  show ?thesis unfolding is_transfer_pair_def compatible_def near cents signs
    using x y assms(1,2) by (auto simp: js_differ_def)
qed

end
