(* ===== verification/TransferWitness.thy ===== *)
theory TransferWitness
  imports TransferProofs
begin

text \<open>
  The theorems on the detection applied at a payment of 12.50 out of one bank account and its
  arrival a day later in another.
\<close>

section \<open>A payment and its arrival\<close>

definition payment :: pairable where
  "payment = \<lparr>txn_id = js ''p'', txn_amount = dollars (- 1250), txn_bank = js ''Checking'', txn_time = 0\<rparr>"

definition arrival :: pairable where
  "arrival = \<lparr>txn_id = js ''q'', txn_amount = dollars 1250, txn_bank = js ''Savings'', txn_time = 86400000\<rparr>"

lemma payment_compatible: "compatible payment arrival"
proof -
  obtain x where "dollars (- 1250) = Fin x" "\<not> 0 < x" "x \<noteq> 0" using dollars_sign [of "- 1250"] by auto
  moreover obtain y where "dollars 1250 = Fin y" "0 < y" using dollars_sign [of 1250] by auto
  moreover have "to_cents (dollars (- 1250)) = to_cents (dollars 1250)" by (simp add: to_cents_dollars)
  ultimately show ?thesis by (simp add: compatible_def payment_def arrival_def three_days_def)
qed

lemma payment_ids: "distinct (map txn_id [payment, arrival])"
  by (simp add: payment_def arrival_def)

lemma payment_paired: "map_of (pair_transfers (\<le>) [payment, arrival]) (txn_id payment) = Some (txn_id arrival)"
proof -
  define m where "m = map_of (pair_transfers (\<le>) [payment, arrival])"
  have p: "matching (set [payment, arrival]) m"
    and q: "txn_id payment \<in> dom m \<or> txn_id arrival \<in> dom m"
    using paired_all [OF payment_ids, of "(\<le>)"] payment_compatible unfolding m_def by (blast, simp)
  have other: "x = txn_id payment \<and> y = txn_id arrival \<or> x = txn_id arrival \<and> y = txn_id payment"
    if some: "m x = Some y" for x y
  proof -
    obtain a b where ab: "a \<in> set [payment, arrival]" "b \<in> set [payment, arrival]" "txn_id a = x" "txn_id b = y"
      and c: "compatible a b"
      using p some unfolding matching_def by blast
    have "txn_bank a \<noteq> txn_bank b" using c by (simp add: compatible_def)
    then show ?thesis using ab by auto
  qed
  from q obtain x y where xy: "m x = Some y" by blast
  then have "m y = Some x" using p unfolding matching_def by blast
  then have "m (txn_id payment) = Some (txn_id arrival)" using xy other [OF xy] by auto
  then show ?thesis by (simp only: m_def)
qed

theorem pairs_are_transfers_witness:
  "map_of (pair_transfers (\<le>) [payment, arrival]) (txn_id arrival) = Some (txn_id payment)"
  using pairs_are_transfers [OF payment_ids payment_paired] by simp

theorem pairing_is_maximal_witness:
  "txn_id payment \<in> dom (map_of (pair_transfers (\<le>) [payment, arrival]))
    \<or> txn_id arrival \<in> dom (map_of (pair_transfers (\<le>) [payment, arrival]))"
  by (rule pairing_is_maximal [OF payment_ids _ _ payment_compatible]) simp_all

definition arrival_index :: bank_index where
  "arrival_index = add_txn arrival empty_index"

definition payment_search :: search where
  "payment_search = search_for [payment, arrival] 0 {} payment"

lemma arrival_index_ok: "index_inv arrival_index None \<and> rows arrival_index = {arrival}"
  using add_txn_inv [of empty_index arrival] empty_index_inv by (simp add: arrival_index_def)

lemma arrival_fits:
  "{t \<in> eligible payment_search arrival_index.
      txn_bank t \<noteq> excluded_bank payment_search \<and> txn_time t \<le> maximum_date payment_search} = {arrival}"
proof -
  have "\<not> stale (order_of [payment, arrival]) 0 {} arrival"
    using order_of_nth [OF payment_ids, of 1] by (simp add: stale_def)
  then have "\<not> skips payment_search arrival" by (simp add: payment_search_def search_for_def)
  then have e: "eligible payment_search arrival_index = {arrival}"
    using arrival_index_ok unfolding eligible_def by blast
  have "txn_bank arrival \<noteq> excluded_bank payment_search \<and> txn_time arrival \<le> maximum_date payment_search"
    by (simp add: payment_search_def search_for_def payment_def arrival_def three_days_def)
  then show ?thesis unfolding e by blast
qed

lemma the_only_candidate:
  assumes "case r of None \<Rightarrow> C = {} \<and> P | Some c \<Rightarrow> c \<in> C \<and> Q c" "C = {x}"
  shows "r = Some x"
  using assms by (auto split: option.splits)

theorem search_finds_earliest_witness:
  "fst (take_future payment_search arrival_index) = Some arrival"
  by (rule the_only_candidate [OF
        search_finds_earliest [OF arrival_index_ok [THEN conjunct1], of payment_search, THEN conjunct2, unfolded Let_def]
        arrival_fits])

theorem pair_test_is_compatible_witness: "is_transfer_pair payment arrival"
  using pair_test_is_compatible [of payment "- 1250" arrival 1250] payment_compatible
  by (simp add: payment_def arrival_def)

end
