(* ===== verification/Decimal.thy ===== *)
theory Decimal
  imports Json
begin

text \<open>
  Exact decimals. \<open>services/tax/model.ts\<close> and \<open>lib/qbo/purchaseTax.ts\<close> read the
  decimal text of a number (\<open>toString\<close>) back as an integer and a power of ten, and compute
  with \<open>bigint\<close>s, which are the integers of the model. The only letter in the text of a
  finite number is \<open>e\<close>, so \<open>toLowerCase\<close> changes nothing.
\<close>

section \<open>Reading the text of a number\<close>

text \<open>\<open>decimal_coefficient\<close> and \<open>decimal_exponent\<close> are the parts before and after \<open>e\<close>.\<close>

definition decimal_coefficient :: "jstring \<Rightarrow> jstring" where
  "decimal_coefficient t = takeWhile (\<lambda>c. c \<noteq> 101) t"

definition digits_value :: "jstring \<Rightarrow> int" where
  "digits_value ds = foldl (\<lambda>n c. 10 * n + (uint c - 48)) 0 ds"

fun signed_value :: "jstring \<Rightarrow> int" where
  "signed_value (c # ds) =
     (if c = 45 then - digits_value ds else if c = 43 then digits_value ds else digits_value (c # ds))"
| "signed_value [] = 0"

definition decimal_exponent :: "jstring \<Rightarrow> int" where
  "decimal_exponent t =
     (case dropWhile (\<lambda>c. c \<noteq> 101) t of [] \<Rightarrow> 0 | _ # e \<Rightarrow> signed_value e)"

definition whole_part :: "jstring \<Rightarrow> jstring" where
  "whole_part t = takeWhile (\<lambda>c. c \<noteq> 46) t"

definition fraction_part :: "jstring \<Rightarrow> jstring" where
  "fraction_part t = (case dropWhile (\<lambda>c. c \<noteq> 46) t of [] \<Rightarrow> [] | _ # f \<Rightarrow> f)"

definition significant_digits :: "jstring \<Rightarrow> jstring" where
  "significant_digits t =
     (let ds = dropWhile (\<lambda>c. c = 48) (whole_part t @ fraction_part t)
      in if ds = [] then [48] else ds)"

text \<open>The integer and the power of ten of an unsigned coefficient with its exponent.\<close>

definition decimal_unscaled :: "jstring \<Rightarrow> int" where
  "decimal_unscaled t = digits_value (significant_digits t)"

definition decimal_scale :: "jstring \<Rightarrow> int \<Rightarrow> int" where
  "decimal_scale t e = e - int (length (fraction_part t))"

lemma foldl_digits:
  "foldl (\<lambda>n c. 10 * n + g c) a ys = (a::int) * 10 ^ length ys + foldl (\<lambda>n c. 10 * n + g c) 0 ys"
proof (induction ys rule: rev_induct)
  case (snoc y ys)
  show ?case
    unfolding foldl_append foldl_Cons foldl_Nil length_append_singleton power_Suc
    by (subst snoc.IH) (simp add: distrib_left)
qed simp

lemma digits_value_append: "digits_value (xs @ ys) = digits_value xs * 10 ^ length ys + digits_value ys"
  unfolding digits_value_def foldl_append by (rule foldl_digits)

lemma digits_value_Nil [simp]: "digits_value [] = 0"
  by (simp add: digits_value_def)

lemma digits_value_Cons: "digits_value (c # ds) = (uint c - 48) * 10 ^ length ds + digits_value ds"
  using digits_value_append [of "[c]" ds] by (simp add: digits_value_def)

definition digit_units :: "jstring \<Rightarrow> bool" where
  "digit_units ds \<longleftrightarrow> list_all (\<lambda>c. 48 \<le> uint c \<and> uint c \<le> 57) ds"

lemma digit_units_simps [simp]:
  "digit_units []" "digit_units (c # ds) \<longleftrightarrow> 48 \<le> uint c \<and> uint c \<le> 57 \<and> digit_units ds"
  "digit_units (xs @ ys) \<longleftrightarrow> digit_units xs \<and> digit_units ys"
  by (auto simp: digit_units_def)

lemma digits_value_nonneg: "digit_units ds \<Longrightarrow> 0 \<le> digits_value ds"
  by (induction ds) (auto simp: digits_value_Cons)

lemma uint_digit: "0 \<le> n \<Longrightarrow> n \<le> 9 \<Longrightarrow> uint (of_int (48 + n) :: unit16) = 48 + n"
  by (simp only: uint_word_of_int_eq) (simp add: take_bit_int_eq_self)

lemma digits_value_dec_digits:
  assumes "0 \<le> n"
  shows "digits_value (dec_digits n) = n \<and> digit_units (dec_digits n) \<and> dec_digits n \<noteq> []"
  using assms
proof (induction n rule: dec_digits.induct)
  case (1 n)
  show ?case
  proof (cases "n < 10")
    case True
    then have "dec_digits n = [of_int (48 + n)]" by (subst dec_digits.simps) simp
    then show ?thesis using True 1(2) uint_digit [of n] by (simp add: digits_value_Cons del: of_int_add)
  next
    case False
    then have "dec_digits n = dec_digits (n div 10) @ [of_int (48 + n mod 10)]" by (subst dec_digits.simps) simp
    moreover have "uint (of_int (48 + n mod 10) :: unit16) = 48 + n mod 10" by (rule uint_digit) auto
    ultimately show ?thesis using 1(1) [OF False] 1(2) False
      by (auto simp: digits_value_append digits_value_Cons pos_imp_zdiv_nonneg_iff simp del: of_int_add)
  qed
qed

section \<open>The parts of the text of a number\<close>

lemma digit_units_take_drop: "digit_units ds \<Longrightarrow> digit_units (take n ds) \<and> digit_units (drop n ds)"
  using digit_units_simps(3) [of "take n ds" "drop n ds"] by simp

lemma digit_units_zeros [simp]: "digit_units (zeros n)"
  by (simp add: zeros_def digit_units_def list_all_iff)

lemma digit_unit_not: "digit_units ds \<Longrightarrow> c \<in> set ds \<Longrightarrow> c \<noteq> 101 \<and> c \<noteq> 46"
  by (auto simp: digit_units_def list_all_iff)

lemma js_units: "js ''.'' = [46]" "js ''e'' = [101]" "js ''0.'' = [48, 46]" "js ''-'' = [45]" "js ''+'' = [43]" "js ''0'' = [48]"
  by (simp_all add: js_def)

text \<open>The text of a number: digits, a point and more digits or not, an exponent or not.\<close>

definition number_parts :: "jstring \<Rightarrow> jstring option \<Rightarrow> jstring \<Rightarrow> jstring" where
  "number_parts a b e =
     a @ (case b of None \<Rightarrow> [] | Some f \<Rightarrow> 46 # f) @ (if e = [] then [] else 101 # e)"

definition part_digits :: "jstring option \<Rightarrow> jstring" where
  "part_digits b = (case b of None \<Rightarrow> [] | Some f \<Rightarrow> f)"

lemma number_parts_read:
  assumes "digit_units a" "digit_units (part_digits b)"
  shows "whole_part (decimal_coefficient (number_parts a b e)) = a"
    "fraction_part (decimal_coefficient (number_parts a b e)) = part_digits b"
    "decimal_exponent (number_parts a b e) = (if e = [] then 0 else signed_value e)"
proof -
  have n: "\<forall>c \<in> set a. c \<noteq> 101" "\<forall>c \<in> set a. c \<noteq> 46" "\<forall>c \<in> set (part_digits b). c \<noteq> 101"
    using digit_unit_not assms by blast+
  have w: "takeWhile (\<lambda>c. c \<noteq> 46) a = a" "dropWhile (\<lambda>c. c \<noteq> 46) a = []"
    "takeWhile (\<lambda>c. c \<noteq> 101) a = a" "dropWhile (\<lambda>c. c \<noteq> 101) a = []"
    using n by (simp_all add: takeWhile_eq_all_conv)
  have co: "decimal_coefficient (number_parts a b e) = a @ (case b of None \<Rightarrow> [] | Some f \<Rightarrow> 46 # f)"
    using n by (cases b) (auto simp: decimal_coefficient_def number_parts_def part_digits_def takeWhile_append)
  show "whole_part (decimal_coefficient (number_parts a b e)) = a"
    unfolding co using n w by (cases b) (auto simp: whole_part_def takeWhile_append)
  show "fraction_part (decimal_coefficient (number_parts a b e)) = part_digits b"
  proof (cases b)
    case None
    then show ?thesis unfolding co by (simp only: fraction_part_def part_digits_def option.case append_Nil2 w list.case)
  next
    case (Some f)
    then show ?thesis unfolding co using n by (simp add: fraction_part_def part_digits_def dropWhile_append)
  qed
  show "decimal_exponent (number_parts a b e) = (if e = [] then 0 else signed_value e)"
    using n w by (cases b) (auto simp: decimal_exponent_def number_parts_def part_digits_def dropWhile_append)
qed

lemma floor_quotient_nonneg: "0 < x \<Longrightarrow> 0 \<le> \<lfloor>x / 10 powi m\<rfloor>" for x :: rat
  by (simp add: zero_le_floor)

lemma digits_of_length_nonneg:
  assumes "0 < x" "s \<in> set (digits_of_length x n k)"
  shows "0 \<le> s"
proof -
  define lo where "lo = \<lfloor>x / 10 powi (n - int k)\<rfloor>"
  have "0 \<le> lo" unfolding lo_def using assms(1) by (rule floor_quotient_nonneg)
  moreover have "s = lo \<or> s = lo + 1"
    using assms(2) unfolding digits_of_length_def Let_def lo_def [symmetric] by (auto split: if_splits)
  ultimately show ?thesis by auto
qed

lemma shortest_from_nonneg: "0 < x \<Longrightarrow> 0 \<le> fst (shortest_from fuel x n k)"
proof (induction fuel x n k rule: shortest_from.induct)
  case (1 x n k)
  then show ?case by (simp add: floor_quotient_nonneg)
next
  case (2 fuel x n k)
  then show ?case
    using digits_of_length_nonneg [OF 2(2), of _ n k] by (cases "digits_of_length x n k") auto
qed

lemma digit_units_48 [simp]: "digit_units [48]"
  by simp

lemma digits_value_zeros [simp]: "digits_value (zeros n) = 0" "digits_value (48 # ds) = digits_value ds"
proof -
  have "digits_value (replicate m 48) = 0" for m by (induction m) (simp_all add: digits_value_Cons)
  then show "digits_value (zeros n) = 0" by (simp add: zeros_def)
qed (simp add: digits_value_Cons)

lemma length_zeros [simp]: "length (zeros n) = nat n"
  by (simp add: zeros_def)

lemma signed_value_dec:
  "signed_value ((if e < 0 then js ''-'' else js ''+'') @ dec_digits \<bar>e\<bar>) = e"
  using digits_value_dec_digits [of "\<bar>e\<bar>"] by (cases "e < 0") (simp_all add: js_units)

text \<open>
  The number that the parts of a text denote; the parts that \<open>Number::toString\<close> lays out for
  \<open>k\<close> digits \<open>s\<close> and the exponent \<open>n\<close> denote \<open>s * 10 powi (n - k)\<close>.
\<close>

definition parts_value :: "jstring \<Rightarrow> jstring option \<Rightarrow> jstring \<Rightarrow> rat" where
  "parts_value a b e = of_int (digits_value (a @ part_digits b))
     * 10 powi ((if e = [] then 0 else signed_value e) - int (length (part_digits b)))"

definition shortest_form :: "rat \<Rightarrow> int \<times> nat \<times> int" where
  "shortest_form x =
     (let n0 = dec_exponent x; (s0, k0) = shortest_from 17 x n0 1
      in if s0 = 10 ^ k0 then (1, 1, n0 + 1) else (s0, k0, n0))"

lemma positive_text_layout:
  assumes "0 < x" "shortest_form x = (s, k, n)"
  obtains a b e where "positive_text x = number_parts a b e" "digit_units a" "digit_units (part_digits b)" "a \<noteq> []"
    "e = [] \<or> (\<exists>m. e = (if m < 0 then js ''-'' else js ''+'') @ dec_digits \<bar>m\<bar>)"
    "length (dec_digits s) = k \<Longrightarrow> parts_value a b e = of_int s * 10 powi (n - int k)"
proof -
  obtain s0 k0 where s0: "shortest_from 17 x (dec_exponent x) 1 = (s0, k0)" by fastforce
  then have "0 \<le> s0" using shortest_from_nonneg [OF assms(1), of 17 "dec_exponent x" 1] by simp
  moreover have skn: "(if s0 = 10 ^ k0 then (1, 1, dec_exponent x + 1) else (s0, k0, dec_exponent x)) = (s, k, n)"
    using assms(2) unfolding shortest_form_def Let_def s0 by simp
  ultimately have s: "0 \<le> s" by (auto split: if_splits)
  define ds where "ds = dec_digits s"
  have ds: "digit_units ds" "ds \<noteq> []" "digits_value ds = s" using digits_value_dec_digits [OF s] by (simp_all add: ds_def)
  have split: "digit_units (take i ds)" "digit_units (drop i ds)" for i using digit_units_take_drop [OF ds(1)] by blast+
  note parts = that [unfolded parts_value_def] part_digits_def
  have shape: "positive_text x =
      (if int k \<le> n \<and> n \<le> 21 then ds @ zeros (n - int k)
       else if 0 < n \<and> n \<le> 21 then take (nat n) ds @ js ''.'' @ drop (nat n) ds
       else if - 6 < n \<and> n \<le> 0 then js ''0.'' @ zeros (- n) @ ds
       else (let e = n - 1;
                 et = js ''e'' @ (if e < 0 then js ''-'' else js ''+'') @ dec_digits \<bar>e\<bar>
             in if k = 1 then ds @ et else take 1 ds @ js ''.'' @ drop 1 ds @ et))"
    unfolding positive_text_def Let_def s0 prod.case skn ds_def by (rule refl)
  consider "int k \<le> n \<and> n \<le> 21" | "\<not> (int k \<le> n \<and> n \<le> 21)" "0 < n \<and> n \<le> 21"
    | "\<not> (int k \<le> n \<and> n \<le> 21)" "\<not> (0 < n \<and> n \<le> 21)" "- 6 < n \<and> n \<le> 0"
    | "\<not> (int k \<le> n \<and> n \<le> 21)" "\<not> (0 < n \<and> n \<le> 21)" "\<not> (- 6 < n \<and> n \<le> 0)" by blast
  then show thesis
  proof cases
    case 1
    then have "positive_text x = number_parts (ds @ zeros (n - int k)) None []" unfolding shape number_parts_def by simp
    then show ?thesis
      by (rule parts(1)) (use 1 ds in \<open>simp_all add: part_digits_def digits_value_append power_int_def\<close>)
  next
    case 2
    then have "positive_text x = number_parts (take (nat n) ds) (Some (drop (nat n) ds)) []"
      unfolding shape number_parts_def by (simp add: js_units)
    then show ?thesis
      by (rule parts(1)) (use 2 ds split in \<open>auto simp: part_digits_def ds_def [symmetric] algebra_simps of_nat_diff\<close>)
  next
    case 3
    then have "positive_text x = number_parts [48] (Some (zeros (- n) @ ds)) []"
      unfolding shape number_parts_def by (simp add: js_units)
    then show ?thesis
      by (rule parts(1)) (use 3 ds in \<open>simp_all add: part_digits_def ds_def [symmetric] digits_value_append\<close>)
  next
    case 4
    define e where "e = (if n - 1 < 0 then js ''-'' else js ''+'') @ dec_digits \<bar>n - 1\<bar>"
    have e: "e \<noteq> []" "signed_value e = n - 1" using signed_value_dec [of "n - 1"] by (simp_all add: e_def)
    have m: "\<exists>m. e = (if m < 0 then js ''-'' else js ''+'') @ dec_digits \<bar>m\<bar>" unfolding e_def by blast
    have t: "positive_text x = (if k = 1 then ds @ 101 # e else take 1 ds @ 46 # drop 1 ds @ 101 # e)"
      unfolding shape if_not_P [OF 4(1)] if_not_P [OF 4(2)] if_not_P [OF 4(3)] Let_def e_def by (simp add: js_units)
    show ?thesis
    proof (cases "k = 1")
      case True
      then have "positive_text x = number_parts ds None e" unfolding t number_parts_def using e by simp
      then show ?thesis by (rule parts(1)) (use True ds e m in \<open>simp_all add: part_digits_def\<close>)
    next
      case False
      then have whole: "positive_text x = number_parts (take 1 ds) (Some (drop 1 ds)) e" unfolding t number_parts_def using e by simp
      have "int (length ds - Suc 0) = int (length ds) - 1" using ds(2) by (cases ds) auto
      then show ?thesis
        by (intro parts(1) [OF whole]) (use ds e m split in \<open>auto simp: part_digits_def ds_def [symmetric]\<close>)
    qed
  qed
qed

lemma positive_text_parts:
  assumes "0 < x"
  obtains a b e where "positive_text x = number_parts a b e" "digit_units a" "digit_units (part_digits b)"
  using positive_text_layout [OF assms prod_cases3] by (metis prod_cases3)

lemma digits_value_strip: "digits_value (dropWhile (\<lambda>c. c = 48) ds) = digits_value ds"
  by (induction ds) (auto simp: digits_value_Cons)

lemma decimal_unscaled_digits: "decimal_unscaled t = digits_value (whole_part t @ fraction_part t)"
proof -
  define ds where "ds = whole_part t @ fraction_part t"
  have "decimal_unscaled t = digits_value (if dropWhile (\<lambda>c. c = 48) ds = [] then [48] else dropWhile (\<lambda>c. c = 48) ds)"
    by (simp only: decimal_unscaled_def significant_digits_def Let_def ds_def)
  also have "\<dots> = digits_value (dropWhile (\<lambda>c. c = 48) ds)"
    by (cases "dropWhile (\<lambda>c. c = 48) ds") (simp_all only: if_True if_False list.distinct simp_thms, simp add: digits_value_Cons)
  finally show ?thesis by (simp only: digits_value_strip ds_def)
qed

section \<open>Rounded quotients\<close>

text \<open>\<open>roundRatio\<close>: the nearest integer to a quotient, ties away from zero.\<close>

definition round_ratio :: "int \<Rightarrow> int \<Rightarrow> int" where
  "round_ratio num den =
     (let sign = (if num < 0 then - 1 else 1); u = (if num < 0 then - num else num);
          q = u div den; r = u mod den
      in sign * (if den \<le> r * 2 then q + 1 else q))"

lemma round_ratio_nonneg:
  assumes "0 \<le> n" "0 < d"
  shows "0 \<le> round_ratio n d" "2 * n - d \<le> 2 * (d * round_ratio n d)" "2 * (d * round_ratio n d) \<le> 2 * n + d"
proof -
  define q r where "q = n div d" and "r = n mod d"
  have n: "n = d * q + r" "0 \<le> r" "r < d" "0 \<le> q" using assms by (simp_all add: q_def r_def pos_imp_zdiv_nonneg_iff)
  have v: "round_ratio n d = (if d \<le> r * 2 then q + 1 else q)"
    using assms by (simp add: round_ratio_def q_def r_def)
  show "0 \<le> round_ratio n d" using v n by simp
  show "2 * n - d \<le> 2 * (d * round_ratio n d)" "2 * (d * round_ratio n d) \<le> 2 * n + d"
    using v n by (auto simp: algebra_simps)
qed

lemma round_ratio_minus: "0 < d \<Longrightarrow> round_ratio (- n) d = - round_ratio n d"
  by (auto simp: round_ratio_def Let_def)

lemma round_ratio_0 [simp]: "0 < d \<Longrightarrow> round_ratio 0 d = 0"
  by (simp add: round_ratio_def)

lemma round_ratio_nearest:
  assumes "0 < d"
  shows "2 * \<bar>d * round_ratio n d - n\<bar> \<le> d"
proof (cases "0 \<le> n")
  case True
  then show ?thesis using round_ratio_nonneg(2,3) [OF True assms] unfolding abs_if by (simp split: if_splits)
next
  case False
  then have "0 \<le> - n" by simp
  from round_ratio_nonneg(2,3) [OF this assms]
  show ?thesis unfolding round_ratio_minus [OF assms] abs_if by (simp split: if_splits)
qed

lemma round_ratio_mono:
  assumes "0 < d" "0 \<le> m" "m \<le> n"
  shows "round_ratio m d \<le> round_ratio n d"
proof -
  have eq: "round_ratio k d = (2 * k + d) div (2 * d)" if "0 \<le> k" for k
  proof -
    define q r where "q = k div d" and "r = k mod d"
    have k: "k = d * q + r" "0 \<le> r" "r < d" using assms by (simp_all add: q_def r_def)
    have v: "round_ratio k d = (if d \<le> r * 2 then q + 1 else q)"
      using that assms by (simp add: round_ratio_def q_def r_def)
    have "(2 * k + d) div (2 * d) = q + (2 * r + d) div (2 * d)"
      using div_mult_self4 [of "2 * d" q "2 * r + d"] assms(1) k(1) by (simp add: distrib_left mult.assoc add.assoc add.commute)
    moreover have "(2 * r + d) div (2 * d) = (if d \<le> r * 2 then 1 else 0)"
      using k(2,3) assms(1) by (auto simp: div_pos_geq)
    ultimately show ?thesis using v by simp
  qed
  show ?thesis using assms by (simp add: eq zdiv_mono1)
qed

section \<open>Safe integers\<close>

definition max_safe :: int where
  "max_safe = 9007199254740991"

definition safe_int :: "int \<Rightarrow> bool" where
  "safe_int n \<longleftrightarrow> \<bar>n\<bar> \<le> max_safe"

end
