(* ===== verification/TaxCalc.thy ===== *)
theory TaxCalc
  imports Decimal "HOL-Library.Product_Lexorder"
begin

text \<open>
  The sales-tax calculator of \<open>lib/qbo/purchaseTax.ts\<close>: the checks of the tax reference
  data, the resolution of a line's tax code to its rates, tax-inclusive back-calculation per
  line and the tax-exclusive allocation of each rate's tax by largest remainders. The reference
  data is the JSON value that the runtime checks inspect; cents are the integers that the
  checked numbers denote.
\<close>

section \<open>Rates\<close>

datatype tax_calculation = TaxInclusive | TaxExcluded | NotApplicable

datatype tax_direction = PurchaseTax | SalesTax

datatype treatment = Standard | ZeroRated | Exempt | OutOfScope

datatype tax_reason =
    TaxAmountInvalid | TaxAmountSignMismatch | TaxCompanyMismatch
  | TaxCodeUnavailable | TaxCodeInactive | TaxCodeMalformed | TaxCodePurchaseOnly | TaxCodeSalesOnly
  | TaxRateUnavailable | TaxRateInactive | TaxRateMalformed | TaxRateUnsupported
  | TaxTreatmentAmbiguous

text \<open>A calculation stops with a reason, at a line or not, or with an exception.\<close>

datatype tax_stop = Ineligible tax_reason "nat option" | Thrown tax_reason

type_synonym ratio = "int \<times> int"

definition max_supported_rate :: rat where
  "max_supported_rate = rnd (999999999 / 1000000)"

fun supported_rate_value :: "json option \<Rightarrow> bool" where
  "supported_rate_value (Some (JNum (Fin x))) \<longleftrightarrow> 0 \<le> x \<and> x \<le> max_supported_rate"
| "supported_rate_value _ \<longleftrightarrow> False"

fun rate_value_to_ratio :: "jsnum \<Rightarrow> tax_reason + ratio" where
  "rate_value_to_ratio (Fin x) =
     (if x < 0 then Inl TaxRateUnsupported
      else
        (let decimal = number_text (Fin x); coefficient = decimal_coefficient decimal;
             scale = decimal_scale coefficient (decimal_exponent decimal);
             unscaled = decimal_unscaled coefficient
         in if 0 \<le> scale then Inr (unscaled * 10 ^ nat scale, 1) else Inr (unscaled, 10 ^ nat (- scale))))"
| "rate_value_to_ratio _ = Inl TaxRateUnsupported"

definition to_safe_cents :: "int \<Rightarrow> int option" where
  "to_safe_cents n = (if safe_int n then Some n else None)"

definition sum_rate_ratios :: "ratio list \<Rightarrow> ratio" where
  "sum_rate_ratios rates =
     (let den = foldl (\<lambda>largest r. if largest < snd r then snd r else largest) 1 rates
      in (foldl (\<lambda>total r. total + fst r * (den div snd r)) 0 rates, den))"

section \<open>Checking the reference data\<close>

fun non_empty_identity :: "json option \<Rightarrow> bool" where
  "non_empty_identity (Some (JStr s)) \<longleftrightarrow> trim s \<noteq> []"
| "non_empty_identity _ \<longleftrightarrow> False"

definition components_for :: "json \<Rightarrow> tax_direction \<Rightarrow> json option" where
  "components_for code dir = get code (case dir of PurchaseTax \<Rightarrow> ''purchaseRates'' | SalesTax \<Rightarrow> ''salesRates'')"

fun json_array :: "json option \<Rightarrow> json list option" where
  "json_array (Some (JArr xs)) = Some xs"
| "json_array _ = None"

fun json_boolean :: "json option \<Rightarrow> bool option" where
  "json_boolean (Some (JBool b)) = Some b"
| "json_boolean _ = None"

fun first_fault :: "('a \<Rightarrow> tax_reason option) \<Rightarrow> 'a list \<Rightarrow> tax_reason option" where
  "first_fault f [] = None"
| "first_fault f (x # xs) = (case f x of Some r \<Rightarrow> Some r | None \<Rightarrow> first_fault f xs)"

definition component_ok :: "json \<Rightarrow> bool" where
  "component_ok c \<longleftrightarrow> is_record c \<and> non_empty_identity (get c ''taxRateQboId'')
     \<and> non_empty_identity (get c ''taxTypeApplicable'')"

definition code_fault :: "tax_direction \<Rightarrow> json \<Rightarrow> tax_reason option" where
  "code_fault dir code =
     (if \<not> is_record code \<or> \<not> non_empty_identity (get code ''qboId'')
         \<or> json_boolean (get code ''active'') = None
         \<or> (get code ''taxable'' \<noteq> Some JNull \<and> json_boolean (get code ''taxable'') = None)
      then Some TaxCodeMalformed
      else case json_array (components_for code dir) of
             None \<Rightarrow> Some TaxCodeMalformed
           | Some cs \<Rightarrow> first_fault (\<lambda>c. if component_ok c then None else Some TaxRateMalformed) cs)"

definition rate_fault :: "json \<Rightarrow> tax_reason option" where
  "rate_fault rate =
     (if \<not> is_record rate \<or> \<not> non_empty_identity (get rate ''qboId'')
         \<or> json_boolean (get rate ''active'') = None \<or> \<not> supported_rate_value (get rate ''rateValue'')
      then Some TaxRateMalformed else None)"

definition runtime_reference_failure :: "json \<Rightarrow> tax_direction \<Rightarrow> tax_reason option" where
  "runtime_reference_failure reference dir =
     (case (json_array (get reference ''codes''), json_array (get reference ''rates'')) of
        (Some codes, Some rates) \<Rightarrow>
          (case first_fault (code_fault dir) codes of
             Some r \<Rightarrow> Some r
           | None \<Rightarrow> first_fault rate_fault rates)
      | _ \<Rightarrow> Some TaxCodeMalformed)"

section \<open>Resolving a line\<close>

record tax_line_input =
  gross_cents :: jsnum
  tax_code :: jstring
  non_tax_treatment :: "treatment option"

record resolved_line =
  components :: "(jstring \<times> ratio) list"
  resolved_treatment :: treatment

definition find_by_id :: "jstring \<Rightarrow> json list \<Rightarrow> json option" where
  "find_by_id i xs = find (\<lambda>x. get x ''qboId'' = Some (JStr i)) xs"

abbreviation ineligible :: "tax_reason \<Rightarrow> tax_stop + 'a" where
  "ineligible r \<equiv> Inl (Ineligible r None)"

definition resolve_rate :: "json list \<Rightarrow> jstring \<Rightarrow> tax_stop + ratio" where
  "resolve_rate rates rate_id =
     (case find_by_id rate_id rates of
        None \<Rightarrow> ineligible TaxRateUnavailable
      | Some rate \<Rightarrow>
          (if \<not> non_empty_identity (get rate ''qboId'') then ineligible TaxRateMalformed
           else case json_boolean (get rate ''active'') of
                  None \<Rightarrow> ineligible TaxRateMalformed
                | Some False \<Rightarrow> ineligible TaxRateInactive
                | Some True \<Rightarrow>
                    (case get rate ''rateValue'' of
                       Some (JNum v) \<Rightarrow>
                         (if \<not> supported_rate_value (Some (JNum v)) then ineligible TaxRateMalformed
                          else case rate_value_to_ratio v of
                                 Inl e \<Rightarrow> Inl (Thrown e)
                               | Inr r \<Rightarrow> Inr r)
                     | _ \<Rightarrow> ineligible TaxRateMalformed)))"

fun resolve_components :: "json list \<Rightarrow> jstring list \<Rightarrow> json list \<Rightarrow> tax_stop + (jstring \<times> ratio) list" where
  "resolve_components rates seen [] = Inr []"
| "resolve_components rates seen (c # cs) =
     (if \<not> component_ok c then ineligible TaxRateMalformed
      else if get c ''taxTypeApplicable'' \<noteq> Some (JStr (js ''TaxOnAmount'')) then ineligible TaxRateUnsupported
      else case get c ''taxRateQboId'' of
             Some (JStr rate_id) \<Rightarrow>
               (if rate_id \<in> set seen then ineligible TaxCodeMalformed
                else case resolve_rate rates rate_id of
                       Inl stop \<Rightarrow> Inl stop
                     | Inr r \<Rightarrow>
                         (case resolve_components rates (rate_id # seen) cs of
                            Inl stop \<Rightarrow> Inl stop
                          | Inr rest \<Rightarrow> Inr ((rate_id, r) # rest)))
           | _ \<Rightarrow> ineligible TaxRateMalformed)"

definition resolve_tax_line ::
  "tax_line_input \<Rightarrow> tax_calculation \<Rightarrow> json list \<Rightarrow> json list \<Rightarrow> tax_direction \<Rightarrow> tax_stop + resolved_line" where
  "resolve_tax_line input calculation codes rates dir =
     (if trim (tax_code input) = [] then ineligible TaxCodeMalformed
      else case find_by_id (tax_code input) codes of
             None \<Rightarrow> ineligible TaxCodeUnavailable
           | Some code \<Rightarrow>
               (case json_boolean (get code ''active'') of
                  None \<Rightarrow> ineligible TaxCodeMalformed
                | Some active \<Rightarrow>
                    (if \<not> active then ineligible TaxCodeInactive
                     else if get code ''taxable'' = Some JNull then ineligible TaxCodeMalformed
                     else case json_array (components_for code dir) of
                            None \<Rightarrow> ineligible TaxCodeMalformed
                          | Some cs \<Rightarrow>
                              (if get code ''taxable'' = Some (JBool False)
                               then if cs \<noteq> [] then ineligible TaxCodeMalformed
                                    else case non_tax_treatment input of
                                           None \<Rightarrow> ineligible TaxTreatmentAmbiguous
                                         | Some t \<Rightarrow> Inr \<lparr>components = [], resolved_treatment = t\<rparr>
                               else if calculation = NotApplicable then ineligible TaxCodeMalformed
                               else if get code ''taxable'' \<noteq> Some (JBool True) then ineligible TaxCodeMalformed
                               else if cs = []
                               then ineligible (case dir of PurchaseTax \<Rightarrow> TaxCodeSalesOnly | SalesTax \<Rightarrow> TaxCodePurchaseOnly)
                               else case resolve_components rates [] cs of
                                      Inl stop \<Rightarrow> Inl stop
                                    | Inr resolved \<Rightarrow>
                                        Inr \<lparr>components = resolved,
                                             resolved_treatment =
                                               (if \<exists>c \<in> set resolved. fst (snd c) \<noteq> 0 then Standard else ZeroRated)\<rparr>))))"

fun at_line :: "nat \<Rightarrow> tax_stop + 'a \<Rightarrow> tax_stop + 'a" where
  "at_line i (Inl (Ineligible r _)) = Inl (Ineligible r (Some i))"
| "at_line i v = v"

fun resolve_lines ::
  "nat \<Rightarrow> tax_line_input list \<Rightarrow> tax_calculation \<Rightarrow> json list \<Rightarrow> json list \<Rightarrow> tax_direction
     \<Rightarrow> tax_stop + resolved_line list" where
  "resolve_lines i [] calculation codes rates dir = Inr []"
| "resolve_lines i (line # lines) calculation codes rates dir =
     (case at_line i (resolve_tax_line line calculation codes rates dir) of
        Inl stop \<Rightarrow> Inl stop
      | Inr r \<Rightarrow>
          (case resolve_lines (Suc i) lines calculation codes rates dir of
             Inl stop \<Rightarrow> Inl stop
           | Inr rs \<Rightarrow> Inr (r # rs)))"

section \<open>Tax-exclusive allocation\<close>

record tax_line =
  line_gross :: int
  line_net :: int
  line_tax :: int
  line_code :: jstring
  line_treatment :: treatment

fun sum_safe_from :: "int \<Rightarrow> int list \<Rightarrow> int option" where
  "sum_safe_from acc [] = Some acc"
| "sum_safe_from acc (v # vs) = (if safe_int (acc + v) then sum_safe_from (acc + v) vs else None)"

abbreviation sum_safe :: "int list \<Rightarrow> int option" where
  "sum_safe \<equiv> sum_safe_from 0"

record share =
  share_index :: nat
  share_tax :: int
  share_remainder :: int

definition share_of :: "ratio \<Rightarrow> tax_line list \<Rightarrow> nat \<Rightarrow> share" where
  "share_of rate lines i =
     (let num = \<bar>line_gross (lines ! i)\<bar> * fst rate; den = snd rate * 100
      in \<lparr>share_index = i, share_tax = num div den, share_remainder = num mod den\<rparr>)"

text \<open>The priority: larger remainders first, then smaller indexes.\<close>

definition by_priority :: "share list \<Rightarrow> share list" where
  "by_priority shares = sort_key (\<lambda>s. (- share_remainder s, share_index s)) shares"

fun hand_out :: "int \<Rightarrow> share list \<Rightarrow> nat list" where
  "hand_out cents [] = []"
| "hand_out cents (s # ss) = (if cents = 0 then [] else share_index s # hand_out (cents - 1) ss)"

fun add_shares :: "int \<Rightarrow> nat list \<Rightarrow> share list \<Rightarrow> tax_line list \<Rightarrow> tax_stop + tax_line list" where
  "add_shares sign extra [] lines = Inr lines"
| "add_shares sign extra (s # ss) lines =
     (case to_safe_cents (sign * (share_tax s + (if share_index s \<in> set extra then 1 else 0))) of
        None \<Rightarrow> Inl (Thrown TaxAmountInvalid)
      | Some t \<Rightarrow>
          add_shares sign extra ss
            (lines[share_index s := (lines ! share_index s)\<lparr>line_tax := line_tax (lines ! share_index s) + t\<rparr>]))"

definition allocate_excluded_tax :: "tax_line list \<Rightarrow> nat list \<Rightarrow> ratio \<Rightarrow> tax_stop + tax_line list" where
  "allocate_excluded_tax lines indexes rate =
     (let den = snd rate * 100
      in case sum_safe (map (\<lambda>i. line_gross (lines ! i)) indexes) of
           None \<Rightarrow> ineligible TaxAmountInvalid
         | Some base \<Rightarrow>
             (case to_safe_cents (round_ratio (base * fst rate) den) of
                None \<Rightarrow> ineligible TaxAmountInvalid
              | Some target \<Rightarrow>
                  (let shares = map (share_of rate lines) indexes;
                       left_over = \<bar>target\<bar> - sum_list (map share_tax shares);
                       extra = hand_out left_over (by_priority shares)
                   in add_shares (if target < 0 then - 1 else 1) extra shares lines)))"

text \<open>The lines by component rate, in the order of first use.\<close>

type_synonym rate_groups = "(jstring \<times> nat list \<times> ratio) list"

definition add_component :: "nat \<Rightarrow> jstring \<times> ratio \<Rightarrow> rate_groups \<Rightarrow> rate_groups" where
  "add_component i c groups =
     (case map_of groups (fst c) of
        Some (indexes, rate) \<Rightarrow> AList.update (fst c) (indexes @ [i], rate) groups
      | None \<Rightarrow> groups @ [(fst c, [i], snd c)])"

fun component_groups :: "nat \<Rightarrow> resolved_line list \<Rightarrow> rate_groups \<Rightarrow> rate_groups" where
  "component_groups i [] groups = groups"
| "component_groups i (r # rs) groups = component_groups (Suc i) rs (fold (add_component i) (components r) groups)"

fun allocate_groups :: "rate_groups \<Rightarrow> tax_line list \<Rightarrow> tax_stop + tax_line list" where
  "allocate_groups [] lines = Inr lines"
| "allocate_groups ((rate_id, indexes, rate) # groups) lines =
     (case allocate_excluded_tax lines indexes rate of
        Inl stop \<Rightarrow> Inl stop
      | Inr lines' \<Rightarrow> allocate_groups groups lines')"

section \<open>Tax-inclusive back-calculation\<close>

definition inclusive_line :: "nat \<Rightarrow> resolved_line \<Rightarrow> tax_line \<Rightarrow> tax_stop + tax_line" where
  "inclusive_line i r line =
     (if components r = [] then Inr line
      else
        (let rate = sum_rate_ratios (map snd (components r)); den = snd rate * 100
         in case to_safe_cents (round_ratio (line_gross line * den) (den + fst rate)) of
              None \<Rightarrow> Inl (Ineligible TaxAmountInvalid (Some i))
            | Some net \<Rightarrow> Inr (line\<lparr>line_net := net, line_tax := line_gross line - net\<rparr>)))"

fun inclusive_lines :: "nat \<Rightarrow> resolved_line list \<Rightarrow> tax_line list \<Rightarrow> tax_stop + tax_line list" where
  "inclusive_lines i (r # rs) (line # lines) =
     (case inclusive_line i r line of
        Inl stop \<Rightarrow> Inl stop
      | Inr l \<Rightarrow> (case inclusive_lines (Suc i) rs lines of Inl stop \<Rightarrow> Inl stop | Inr ls \<Rightarrow> Inr (l # ls)))"
| "inclusive_lines i _ _ = Inr []"

section \<open>The calculator\<close>

record tax_result =
  total_gross :: int
  total_net :: int
  total_tax :: int
  tax_lines :: "tax_line list"

fun cents_of :: "jsnum \<Rightarrow> int" where
  "cents_of (Fin x) = \<lfloor>x\<rfloor>"
| "cents_of _ = 0"

definition mixed_signs :: "int list \<Rightarrow> bool" where
  "mixed_signs gs \<longleftrightarrow> length (remdups (map sgn (filter (\<lambda>g. g \<noteq> 0) gs))) > 1"

definition untaxed_line :: "tax_line_input \<Rightarrow> resolved_line \<Rightarrow> tax_line" where
  "untaxed_line input r =
     \<lparr>line_gross = cents_of (gross_cents input), line_net = cents_of (gross_cents input), line_tax = 0,
      line_code = tax_code input, line_treatment = resolved_treatment r\<rparr>"

definition taxed_lines ::
  "tax_calculation \<Rightarrow> resolved_line list \<Rightarrow> tax_line list \<Rightarrow> tax_stop + tax_line list" where
  "taxed_lines calculation resolved lines =
     (case calculation of
        TaxInclusive \<Rightarrow> inclusive_lines 0 resolved lines
      | TaxExcluded \<Rightarrow> allocate_groups (component_groups 0 resolved []) lines
      | NotApplicable \<Rightarrow> Inr lines)"

definition calculate_tax ::
  "tax_direction \<Rightarrow> jstring \<Rightarrow> tax_calculation \<Rightarrow> tax_line_input list \<Rightarrow> json \<Rightarrow> tax_stop + tax_result" where
  "calculate_tax dir company calculation inputs reference =
     (if trim company = [] \<or> \<not> non_empty_identity (get reference ''companyId'')
         \<or> get reference ''companyId'' \<noteq> Some (JStr company)
      then ineligible TaxCompanyMismatch
      else if inputs = [] then ineligible TaxAmountInvalid
      else if list_ex (\<lambda>l. \<not> is_safe_integer (gross_cents l)) inputs then ineligible TaxAmountInvalid
      else case runtime_reference_failure reference dir of
             Some r \<Rightarrow> Inl (Ineligible r (Some 0))
           | None \<Rightarrow>
               (if mixed_signs (map (cents_of \<circ> gross_cents) inputs) then ineligible TaxAmountSignMismatch
                else case resolve_lines 0 inputs calculation (array_items (get reference ''codes'')) (array_items (get reference ''rates'')) dir of
                       Inl stop \<Rightarrow> Inl stop
                     | Inr resolved \<Rightarrow>
                         (case sum_safe (map (cents_of \<circ> gross_cents) inputs) of
                            None \<Rightarrow> ineligible TaxAmountInvalid
                          | Some gross \<Rightarrow>
                              (case taxed_lines calculation resolved (map2 untaxed_line inputs resolved) of
                                 Inl stop \<Rightarrow> Inl stop
                               | Inr lines \<Rightarrow>
                                   (case (sum_safe (map line_net lines), sum_safe (map line_tax lines)) of
                                      (Some net, Some tax) \<Rightarrow>
                                        Inr \<lparr>total_gross = gross, total_net = net, total_tax = tax, tax_lines = lines\<rparr>
                                    | _ \<Rightarrow> ineligible TaxAmountInvalid)))))"

end
