(* ===== verification/PurchasePrep.thy ===== *)
theory PurchasePrep
  imports TaxCalc
begin

text \<open>
  The preparation of a tax-aware recategorization of a QuickBooks purchase and of its undo
  (the second half of \<open>lib/qbo/purchaseTax.ts\<close>): money as exact cents, the snapshot of a
  purchase, the checks of the staged lines, the two kinds of preparation and the restore.

  A raw purchase is the JSON value of the provider, of the declared type: its lines and its
  references are objects. Cents of snapshots are integers (the code computes or stores them as
  such); the cents of staged lines are checked numbers. The digest of a text is a parameter;
  freezing a result does not change it.
\<close>

section \<open>Money\<close>

text \<open>\<open>TypeFault\<close> is the exception of reading a property of \<open>undefined\<close>.\<close>

datatype prep_error = AmountUnsafe | PurchaseUnsupported | DepositUnsupported | ReferenceMissing | StateDrift | SyncTokenConflict | TypeFault

definition max_exact_cents :: int where
  "max_exact_cents = \<lfloor>rnd (9007199254740991 / 100)\<rfloor>"

definition cent_tolerance :: rat where
  "cent_tolerance = rnd (1 / 10000000)"

fun exact_cents :: "json option \<Rightarrow> prep_error + int" where
  "exact_cents (Some (JNum v)) =
     (let scaled = js_times v 100
      in case (scaled, js_round scaled) of
           (Fin s, Fin c) \<Rightarrow>
             (if \<not> is_safe_integer (Fin c) \<or> max_exact_cents < \<bar>\<lfloor>c\<rfloor>\<bar> \<or> \<bar>rnd (s - c)\<bar> > cent_tolerance
              then Inl AmountUnsafe else Inr \<lfloor>c\<rfloor>)
         | _ \<Rightarrow> Inl AmountUnsafe)"
| "exact_cents _ = Inl AmountUnsafe"

text \<open>Cents that are safe for money: a safe integer of bounded magnitude.\<close>

definition money_cents :: "jsnum \<Rightarrow> bool" where
  "money_cents v \<longleftrightarrow> is_safe_integer v \<and> \<bar>cents_of v\<bar> \<le> max_exact_cents"

definition money_from_cents :: "jsnum \<Rightarrow> prep_error + json" where
  "money_from_cents v =
     (if \<not> money_cents v then Inl AmountUnsafe
      else let money = JNum (dollars \<bar>cents_of v\<bar>)
           in on_ok (exact_cents (Some money)) (\<lambda>c. if c \<noteq> \<bar>cents_of v\<bar> then Inl AmountUnsafe else Inr money))"

definition of_cents :: "int \<Rightarrow> jsnum" where
  "of_cents c = Fin (of_int c)"

fun cent_sum_from :: "int \<Rightarrow> jsnum list \<Rightarrow> prep_error + int" where
  "cent_sum_from acc [] = Inr acc"
| "cent_sum_from acc (v # vs) =
     (if \<not> money_cents v then Inl AmountUnsafe
      else let s = acc + cents_of v
           in if \<not> safe_int s \<or> max_exact_cents < \<bar>s\<bar> then Inl AmountUnsafe else cent_sum_from s vs)"

abbreviation safe_cent_sum :: "jsnum list \<Rightarrow> prep_error + int" where
  "safe_cent_sum \<equiv> cent_sum_from 0"

fun required_identity :: "json option \<Rightarrow> prep_error + jstring" where
  "required_identity (Some (JStr s)) = (if trim s = [] then Inl ReferenceMissing else Inr s)"
| "required_identity _ = Inl ReferenceMissing"

section \<open>Canonical text and hashes\<close>

text \<open>
  \<open>JSON.parse(JSON.stringify(v))\<close> of JSON data: numbers that JSON cannot write become
  \<open>null\<close>.
\<close>

function normalized_clone :: "json \<Rightarrow> json"
  and clone_items :: "json list \<Rightarrow> json list"
  and clone_fields :: "fields \<Rightarrow> fields"
where
  "normalized_clone JNull = JNull"
| "normalized_clone (JBool b) = JBool b"
| "normalized_clone (JNum v) = (if is_finite v then JNum v else JNull)"
| "normalized_clone (JStr s) = JStr s"
| "normalized_clone (JExotic e) = JExotic e"
| "normalized_clone (JArr xs) = JArr (clone_items xs)"
| "normalized_clone (JObj fs) = JObj (clone_fields fs)"
| "clone_items [] = []"
| "clone_items (x # xs) = normalized_clone x # clone_items xs"
| "clone_fields [] = []"
| "clone_fields (f # fs) = (fst f, normalized_clone (snd f)) # clone_fields fs"
  by pat_completeness auto
termination
  by (relation "measure json_rank") (auto simp: json_rank_def size_fields)

definition canonical_json :: "json \<Rightarrow> jstring" where
  "canonical_json v = canonical (normalized_clone v)"

definition fingerprint :: "(jstring \<Rightarrow> jstring) \<Rightarrow> json \<Rightarrow> jstring" where
  "fingerprint digest v = digest (canonical_json v)"

abbreviation expense_detail :: string where
  "expense_detail \<equiv> ''AccountBasedExpenseLineDetail''"

text \<open>A property is changed in place, if it is there.\<close>

definition update_field :: "string \<Rightarrow> (json \<Rightarrow> json) \<Rightarrow> json \<Rightarrow> json" where
  "update_field k f v =
     (case v of
        JObj fs \<Rightarrow> (case map_of fs (js k) of Some u \<Rightarrow> JObj (set_field k (f u) fs) | None \<Rightarrow> v)
      | _ \<Rightarrow> v)"

text \<open>\<open>{ ...ref, value }\<close>\<close>

definition with_value :: "jstring \<Rightarrow> json \<Rightarrow> json" where
  "with_value a ref = JObj (set_field ''value'' (JStr a) (spread (Some ref)))"

definition with_account :: "jstring \<Rightarrow> json \<Rightarrow> json" where
  "with_account a = update_field expense_detail (update_field ''AccountRef'' (with_value a))"

definition category_only_line :: "json \<Rightarrow> json" where
  "category_only_line raw =
     update_field expense_detail
       (update_field ''AccountRef''
          (\<lambda>ref. JObj (delete_field ''name'' (set_field ''value'' (JStr (js ''__CATEGORY_ACCOUNT__'')) (spread (Some ref))))))
       (normalized_clone raw)"

definition without_fields :: "string list \<Rightarrow> json \<Rightarrow> json" where
  "without_fields ks raw = JObj (foldr delete_field ks (spread (Some raw)))"

definition preserved_entity :: "json \<Rightarrow> json" where
  "preserved_entity =
     without_fields [''Id'', ''SyncToken'', ''TotalAmt'', ''Line'', ''GlobalTaxCalculation'', ''TxnTaxDetail'',
       ''HomeTotalAmt'', ''MetaData'', ''status'', ''sparse'', ''domain'']"

definition purchase_preserved_hash :: "(jstring \<Rightarrow> jstring) \<Rightarrow> json \<Rightarrow> jstring" where
  "purchase_preserved_hash digest raw = fingerprint digest (preserved_entity raw)"

definition purchase_raw_line_hash :: "(jstring \<Rightarrow> jstring) \<Rightarrow> json \<Rightarrow> jstring" where
  "purchase_raw_line_hash digest raw = fingerprint digest raw"

definition purchase_category_only_line_hash :: "(jstring \<Rightarrow> jstring) \<Rightarrow> json \<Rightarrow> jstring" where
  "purchase_category_only_line_hash digest raw = fingerprint digest (category_only_line raw)"

section \<open>The snapshot of a purchase\<close>

text \<open>A field that may be \<open>null\<close> holds the JSON value; \<open>None\<close> is \<open>null\<close> for cents, \<open>undefined\<close> for hashes.\<close>

record snapshot_line =
  snap_id :: json
  amount_cents :: int
  snap_description :: json
  snap_account :: json
  snap_customer :: json
  snap_class :: json
  snap_code :: json
  tax_cents :: "int option"
  inclusive_cents :: "int option"
  raw_hash :: "jstring option"
  category_hash :: "jstring option"

record purchase_snapshot =
  snap_qbo_id :: jstring
  snap_token :: jstring
  snap_total :: int
  snap_payment :: json
  snap_date :: jstring
  snap_refund :: bool
  snap_mode :: json
  snap_total_tax :: "int option"
  snap_preserved :: "jstring option"
  snap_lines :: "snapshot_line list"

fun nullish :: "json option \<Rightarrow> json" where
  "nullish None = JNull"
| "nullish (Some v) = v"

definition purchase_sign :: "json \<Rightarrow> int" where
  "purchase_sign raw = (if get raw ''Credit'' = Some (JBool True) then 1 else - 1)"

definition directional_cents :: "json option \<Rightarrow> int \<Rightarrow> prep_error + int" where
  "directional_cents v sign =
     on_ok (exact_cents v) (\<lambda>c. Inr (if c = 0 then 0 else if sign = 1 then \<bar>c\<bar> else - \<bar>c\<bar>))"

text \<open>\<open>raw.Amount ?? 0\<close>\<close>

definition amount_or_zero :: "json \<Rightarrow> json option" where
  "amount_or_zero raw =
     (case get raw ''Amount'' of None \<Rightarrow> Some (JNum (Fin 0)) | Some JNull \<Rightarrow> Some (JNum (Fin 0)) | v \<Rightarrow> v)"

definition is_mode :: "json option \<Rightarrow> string \<Rightarrow> bool" where
  "is_mode v s \<longleftrightarrow> v = Some (JStr (js s))"

definition detail_of :: "json \<Rightarrow> json option" where
  "detail_of raw = get raw expense_detail"

definition detail_ref :: "json \<Rightarrow> string \<Rightarrow> json option" where
  "detail_ref raw k = chain (chain (detail_of raw) k) ''value''"

definition snapshot_line_of ::
  "(jstring \<Rightarrow> jstring) \<Rightarrow> int \<Rightarrow> json option \<Rightarrow> json \<Rightarrow> prep_error + snapshot_line" where
  "snapshot_line_of digest sign mode raw =
     on_ok (directional_cents (amount_or_zero raw) sign) (\<lambda>amount.
     on_ok (case chain (detail_of raw) ''TaxInclusiveAmt'' of
              None \<Rightarrow> Inr None
            | v \<Rightarrow> on_ok (directional_cents v sign) (\<lambda>c. Inr (Some c))) (\<lambda>inclusive.
     on_ok (case chain (detail_of raw) ''TaxAmount'' of
              None \<Rightarrow> Inr (if is_mode mode ''TaxInclusive'' then map_option (\<lambda>i. i - amount) inclusive else None)
            | v \<Rightarrow> on_ok (directional_cents v sign) (\<lambda>c. Inr (Some c))) (\<lambda>tax.
     Inr \<lparr>snap_id = nullish (get raw ''Id''), amount_cents = amount,
          snap_description = nullish (get raw ''Description''),
          snap_account = nullish (detail_ref raw ''AccountRef''), snap_customer = nullish (detail_ref raw ''CustomerRef''),
          snap_class = nullish (detail_ref raw ''ClassRef''), snap_code = nullish (detail_ref raw ''TaxCodeRef''),
          tax_cents = tax, inclusive_cents = inclusive,
          raw_hash = Some (purchase_raw_line_hash digest raw),
          category_hash = Some (purchase_category_only_line_hash digest raw)\<rparr>)))"

definition provable_line_tax :: "int \<Rightarrow> json option \<Rightarrow> json \<Rightarrow> prep_error + int option" where
  "provable_line_tax sign mode line =
     (case chain (detail_of line) ''TaxAmount'' of
        Some v \<Rightarrow> on_ok (directional_cents (Some v) sign) (\<lambda>c. Inr (Some c))
      | None \<Rightarrow>
          (case chain (detail_of line) ''TaxInclusiveAmt'' of
             Some v \<Rightarrow>
               (if is_mode mode ''TaxInclusive''
                then on_ok (directional_cents (Some v) sign) (\<lambda>i.
                     on_ok (directional_cents (amount_or_zero line) sign) (\<lambda>a. Inr (Some (i - a))))
                else Inr (if detail_ref line ''TaxCodeRef'' = None then Some 0 else None))
           | None \<Rightarrow> Inr (if detail_ref line ''TaxCodeRef'' = None then Some 0 else None)))"

fun non_blank :: "json option \<Rightarrow> jstring option" where
  "non_blank (Some (JStr s)) = (if trim s = [] then None else Some s)"
| "non_blank _ = None"

definition map_purchase_tax_snapshot :: "(jstring \<Rightarrow> jstring) \<Rightarrow> json \<Rightarrow> prep_error + purchase_snapshot" where
  "map_purchase_tax_snapshot digest raw =
     (case (get raw ''Line'', non_blank (get raw ''Id''), non_blank (get raw ''SyncToken''), non_blank (get raw ''TxnDate''), get raw ''TotalAmt'') of
        (Some (JArr lines), Some qbo_id, Some token, Some date, Some amount) \<Rightarrow>
          (let sign = purchase_sign raw; mode = get raw ''GlobalTaxCalculation''
           in on_ok (required_identity (chain (get raw ''AccountRef'') ''value'')) (\<lambda>payment.
              on_ok (map_ok (provable_line_tax sign mode) lines) (\<lambda>taxes.
              on_ok (if mode = None \<or> None \<in> set taxes then Inr None
                     else on_ok (safe_cent_sum (map (of_cents \<circ> the) taxes)) (\<lambda>t. Inr (Some t))) (\<lambda>derived.
              on_ok (directional_cents (Some amount) sign) (\<lambda>total_cents.
              on_ok (case chain (get raw ''TxnTaxDetail'') ''TotalTax'' of
                       None \<Rightarrow> Inr derived
                     | v \<Rightarrow> on_ok (directional_cents v sign) (\<lambda>t. Inr (Some t))) (\<lambda>total_tax.
              on_ok (map_ok (snapshot_line_of digest sign mode) lines) (\<lambda>snaps.
              Inr \<lparr>snap_qbo_id = qbo_id, snap_token = token, snap_total = total_cents, snap_payment = JStr payment,
                   snap_date = date, snap_refund = (sign = 1), snap_mode = nullish mode, snap_total_tax = total_tax,
                   snap_preserved = Some (purchase_preserved_hash digest raw), snap_lines = snaps\<rparr>)))))))
      | _ \<Rightarrow> Inl PurchaseUnsupported)"

section \<open>The gross amount of holding lines\<close>

definition holding_gross_of :: "json \<Rightarrow> snapshot_line \<Rightarrow> int option" where
  "holding_gross_of mode line =
     (if is_mode (Some mode) ''TaxInclusive''
      then (case inclusive_cents line of
              Some i \<Rightarrow> Some i
            | None \<Rightarrow>
                (if snap_code line = JNull \<and> (tax_cents line = None \<or> tax_cents line = Some 0)
                 then Some (amount_cents line) else None))
      else if is_mode (Some mode) ''TaxExcluded''
      then (case tax_cents line of
              None \<Rightarrow> None
            | Some t \<Rightarrow> (if safe_int (amount_cents line + t) then Some (amount_cents line + t) else None))
      else Some (amount_cents line))"

fun holding_grosses :: "purchase_snapshot \<Rightarrow> nat list \<Rightarrow> int list option" where
  "holding_grosses snap [] = Some []"
| "holding_grosses snap (i # is) =
     (if length (snap_lines snap) \<le> i then None
      else case holding_gross_of (snap_mode snap) (snap_lines snap ! i) of
             None \<Rightarrow> None
           | Some g \<Rightarrow> map_option (\<lambda>gs. g # gs) (holding_grosses snap is))"

definition purchase_holding_gross_cents :: "purchase_snapshot \<Rightarrow> nat list \<Rightarrow> int option" where
  "purchase_holding_gross_cents snap indexes =
     (if indexes = [] then None
      else case holding_grosses snap indexes of
             None \<Rightarrow> None
           | Some gs \<Rightarrow> (case safe_cent_sum (map of_cents gs) of Inl e \<Rightarrow> None | Inr c \<Rightarrow> Some c))"

section \<open>Comparing snapshots\<close>

definition cents_json :: "int option \<Rightarrow> json" where
  "cents_json c = (case c of None \<Rightarrow> JNull | Some n \<Rightarrow> JNum (of_cents n))"

definition canonical_snapshot_line :: "snapshot_line \<Rightarrow> jstring" where
  "canonical_snapshot_line line =
     canonical (JArr
       [case raw_hash line of None \<Rightarrow> JNull | Some h \<Rightarrow> JStr h,
        snap_id line, cents_json (Some (amount_cents line)), snap_description line, snap_account line, snap_customer line,
        snap_class line, snap_code line, cents_json (tax_cents line), cents_json (inclusive_cents line)])"

fun zero_or_unspecified_tax :: "int option \<Rightarrow> bool" where
  "zero_or_unspecified_tax None \<longleftrightarrow> True"
| "zero_or_unspecified_tax (Some c) \<longleftrightarrow> c = 0"

definition purchase_total_tax_matches :: "json \<Rightarrow> int option \<Rightarrow> int option \<Rightarrow> bool" where
  "purchase_total_tax_matches mode expected actual \<longleftrightarrow>
     expected = actual
     \<or> (is_mode (Some mode) ''NotApplicable'' \<and> zero_or_unspecified_tax expected \<and> zero_or_unspecified_tax actual)"

datatype tax_disposition = SetTax | PreserveCurrent

definition provider_default_code ::
  "json \<Rightarrow> int option \<Rightarrow> int option \<Rightarrow> snapshot_line \<Rightarrow> snapshot_line \<Rightarrow> bool" where
  "provider_default_code mode expected_total actual_total expected actual \<longleftrightarrow>
     is_mode (Some mode) ''NotApplicable'' \<and> zero_or_unspecified_tax expected_total \<and> zero_or_unspecified_tax actual_total
     \<and> snap_code expected = JNull \<and> non_blank (Some (snap_code actual)) \<noteq> None
     \<and> tax_cents expected = None \<and> tax_cents actual = None
     \<and> inclusive_cents expected = None \<and> inclusive_cents actual = None"

text \<open>The last argument is \<open>'set'\<close> where it is left out.\<close>

definition purchase_target_line_matches ::
  "json \<Rightarrow> int option \<Rightarrow> int option \<Rightarrow> snapshot_line \<Rightarrow> snapshot_line \<Rightarrow> tax_disposition option \<Rightarrow> bool" where
  "purchase_target_line_matches mode expected_total actual_total expected actual disposition \<longleftrightarrow>
     (disposition = Some PreserveCurrent \<longrightarrow>
        snap_id expected \<noteq> JNull \<and> snap_id expected = snap_id actual
        \<and> category_hash expected \<noteq> None \<and> category_hash expected = category_hash actual)
     \<and> amount_cents expected = amount_cents actual \<and> snap_description expected = snap_description actual
     \<and> snap_account expected = snap_account actual \<and> snap_customer expected = snap_customer actual
     \<and> snap_class expected = snap_class actual
     \<and> (snap_code expected = snap_code actual
        \<or> disposition \<noteq> Some PreserveCurrent \<and> provider_default_code mode expected_total actual_total expected actual)
     \<and> tax_cents expected = tax_cents actual \<and> inclusive_cents expected = inclusive_cents actual"

text \<open>
  The hashes that the stored snapshot lacks are not compared. Snapshots are compared by their
  canonical text, which for their numbers, strings and nulls is equality.
\<close>

fun strip_hashes :: "snapshot_line list \<Rightarrow> snapshot_line list \<Rightarrow> prep_error + snapshot_line list" where
  "strip_hashes [] as = Inr as"
| "strip_hashes (b # bs) [] = (if raw_hash b = None \<or> category_hash b = None then Inl TypeFault else strip_hashes bs [])"
| "strip_hashes (b # bs) (a # as) =
     on_ok (strip_hashes bs as) (\<lambda>rest.
       Inr (a\<lparr>raw_hash := (if raw_hash b = None then None else raw_hash a),
              category_hash := (if category_hash b = None then None else category_hash a)\<rparr> # rest))"

definition assert_snapshot_equals_before :: "purchase_snapshot \<Rightarrow> purchase_snapshot \<Rightarrow> prep_error + unit" where
  "assert_snapshot_equals_before actual before =
     (if snap_token actual \<noteq> snap_token before then Inl SyncTokenConflict
      else on_ok (strip_hashes (snap_lines before) (snap_lines actual)) (\<lambda>ls.
        if actual\<lparr>snap_preserved := (if snap_preserved before = None then None else snap_preserved actual), snap_lines := ls\<rparr> \<noteq> before
        then Inl StateDrift else Inr ()))"

section \<open>Staged lines\<close>

record staged_line =
  staged_idx :: jsnum
  staged_subtotal :: jsnum
  staged_tax :: jsnum
  staged_total :: jsnum
  staged_category :: json
  staged_code :: json
  staged_memo :: json
  staged_tags :: "jstring list option"

record staged_categorization =
  staged_disposition :: "tax_disposition option"
  staged_mode :: tax_calculation
  staged_totals :: "jsnum \<times> jsnum \<times> jsnum"
  staged_lines :: "staged_line list"
  staged_tag_ids :: "jstring list"

fun mode_name :: "tax_calculation \<Rightarrow> string" where
  "mode_name TaxInclusive = ''TaxInclusive''"
| "mode_name TaxExcluded = ''TaxExcluded''"
| "mode_name NotApplicable = ''NotApplicable''"

definition mode_json :: "tax_calculation \<Rightarrow> json" where
  "mode_json m = JStr (js (mode_name m))"

definition not_applicable_code :: json where
  "not_applicable_code = JStr (js ''NON'')"

abbreviation ref_field :: "string \<Rightarrow> json \<Rightarrow> jstring \<times> json" where
  "ref_field k v \<equiv> (js k, JObj [(js ''value'', v)])"

definition staged_tax_fields :: "staged_line \<Rightarrow> tax_calculation \<Rightarrow> prep_error + fields" where
  "staged_tax_fields line mode =
     (if mode \<noteq> NotApplicable
      then on_ok (required_identity (Some (staged_code line))) (\<lambda>code.
           on_ok (money_from_cents (staged_tax line)) (\<lambda>tax.
           on_ok (if mode = TaxInclusive
                  then on_ok (money_from_cents (staged_total line)) (\<lambda>t. Inr [(js ''TaxInclusiveAmt'', t)])
                  else Inr []) (\<lambda>inclusive.
           Inr ([ref_field ''TaxCodeRef'' (JStr code), (js ''TaxAmount'', tax)] @ inclusive))))
      else if staged_code line = not_applicable_code then Inr [ref_field ''TaxCodeRef'' not_applicable_code]
      else if staged_code line \<noteq> JNull then Inl PurchaseUnsupported else Inr [])"

definition staged_line_to_raw :: "tax_calculation \<Rightarrow> staged_line \<Rightarrow> prep_error + json" where
  "staged_line_to_raw mode line =
     on_ok (required_identity (Some (staged_category line))) (\<lambda>account.
       if (case staged_idx line of Fin x \<Rightarrow> x < 0 | NInf \<Rightarrow> True | _ \<Rightarrow> False) \<or> \<not> is_safe_integer (staged_idx line)
       then Inl PurchaseUnsupported
       else on_ok (staged_tax_fields line mode) (\<lambda>tax_fields.
            on_ok (money_from_cents (staged_subtotal line)) (\<lambda>amount.
            Inr (JObj
              ([(js ''Amount'', amount), (js ''DetailType'', JStr (js expense_detail))]
               @ (if staged_memo line = JNull then [] else [(js ''Description'', staged_memo line)])
               @ [(js expense_detail, JObj (ref_field ''AccountRef'' (JStr account) # tax_fields))])))))"

definition staged_line_to_snapshot :: "tax_calculation \<Rightarrow> staged_line \<Rightarrow> snapshot_line" where
  "staged_line_to_snapshot mode line =
     \<lparr>snap_id = JNull, amount_cents = cents_of (staged_subtotal line), snap_description = staged_memo line,
      snap_account = staged_category line, snap_customer = JNull, snap_class = JNull,
      snap_code = (if mode = NotApplicable
                   then if staged_code line = not_applicable_code then not_applicable_code else JNull
                   else staged_code line),
      tax_cents = (if mode = NotApplicable then None else Some (cents_of (staged_tax line))),
      inclusive_cents = (if mode = TaxInclusive then Some (cents_of (staged_total line)) else None),
      raw_hash = None, category_hash = None\<rparr>"

definition num_sign :: "jsnum \<Rightarrow> int" where
  "num_sign v = (case v of Fin x \<Rightarrow> (if x < 0 then - 1 else if x = 0 then 0 else 1) | PInf \<Rightarrow> 1 | NInf \<Rightarrow> - 1 | NaN \<Rightarrow> 0)"

definition staged_line_fault :: "tax_calculation \<Rightarrow> int \<Rightarrow> staged_line \<Rightarrow> prep_error option" where
  "staged_line_fault mode sign line =
     (case safe_cent_sum [staged_subtotal line, staged_tax line, staged_total line] of
        Inl e \<Rightarrow> Some e
      | Inr _ \<Rightarrow>
          (case safe_cent_sum [staged_subtotal line, staged_tax line] of
             Inl e \<Rightarrow> Some e
           | Inr s \<Rightarrow>
               (if of_cents s \<noteq> staged_total line then Some StateDrift
                else if num_sign (staged_subtotal line) \<noteq> sign \<or> (staged_tax line \<noteq> Fin 0 \<and> num_sign (staged_tax line) \<noteq> sign)
                then Some PurchaseUnsupported
                else if mode = NotApplicable \<and> staged_tax line \<noteq> Fin 0 then Some PurchaseUnsupported
                else None)))"

fun first_staged_fault :: "tax_calculation \<Rightarrow> int \<Rightarrow> staged_line list \<Rightarrow> prep_error option" where
  "first_staged_fault mode sign [] = None"
| "first_staged_fault mode sign (l # ls) =
     (case staged_line_fault mode sign l of Some e \<Rightarrow> Some e | None \<Rightarrow> first_staged_fault mode sign ls)"

text \<open>The texts of two records of finite numbers are equal exactly when the numbers are.\<close>

definition assert_staged_amounts :: "staged_categorization \<Rightarrow> purchase_snapshot \<Rightarrow> nat list \<Rightarrow> prep_error + unit" where
  "assert_staged_amounts staged current holding =
     (let lines = staged_lines staged; sign = (if snap_refund current then 1 else - 1); mode = mode_json (staged_mode staged)
      in if lines = [] then Inl PurchaseUnsupported
         else if map staged_idx lines \<noteq> map (Fin \<circ> of_nat) [0..<length lines] then Inl PurchaseUnsupported
         else case first_staged_fault (staged_mode staged) sign lines of
                Some e \<Rightarrow> Inl e
              | None \<Rightarrow>
                  on_ok (safe_cent_sum (map staged_subtotal lines)) (\<lambda>subtotal.
                  on_ok (safe_cent_sum (map staged_tax lines)) (\<lambda>tax.
                  on_ok (safe_cent_sum (map staged_total lines)) (\<lambda>whole.
                    if (of_cents subtotal, of_cents tax, of_cents whole) \<noteq> staged_totals staged then Inl StateDrift
                    else let gross = purchase_holding_gross_cents current holding
                         in on_ok (if staged_disposition staged = Some SetTax
                                      \<or> (staged_disposition staged = Some PreserveCurrent \<and> mode = snap_mode current
                                         \<and> snap_mode current \<in> {mode_json TaxInclusive, mode_json TaxExcluded} \<and> gross \<noteq> None)
                                   then Inr gross
                                   else on_ok (safe_cent_sum (map (\<lambda>i. of_cents (amount_cents (snap_lines current ! i))) holding))
                                          (\<lambda>c. Inr (Some c))) (\<lambda>total_held.
                              case total_held of
                                None \<Rightarrow> Inl StateDrift
                              | Some h \<Rightarrow>
                                  (if of_cents h \<noteq> snd (snd (staged_totals staged)) then Inl StateDrift
                                   else if list_ex (\<lambda>l. num_sign (staged_total l) \<noteq> sign) lines then Inl StateDrift
                                   else Inr ()))))))"

section \<open>Preparing a recategorization\<close>

record purchase_expected =
  exp_qbo_id :: jstring
  exp_disposition :: "tax_disposition option"
  exp_total :: int
  exp_payment :: json
  exp_date :: jstring
  exp_refund :: bool
  exp_mode :: json
  exp_total_tax :: "int option"
  exp_preserved :: "jstring option"
  exp_targets :: "snapshot_line list"
  exp_untouched :: "jstring list"

datatype purchase_operation = Recategorize | Restore

record purchase_prepared =
  pp_operation :: purchase_operation
  pp_type :: jstring
  pp_qbo_id :: jstring
  pp_request_id :: jstring
  pp_request_hash :: jstring
  pp_body :: json
  pp_before :: purchase_snapshot
  pp_expected :: purchase_expected

definition expected_base ::
  "purchase_snapshot \<Rightarrow> json \<Rightarrow> int option \<Rightarrow> tax_disposition option \<Rightarrow> snapshot_line list \<Rightarrow> jstring list \<Rightarrow> purchase_expected" where
  "expected_base snap mode aggregate disposition targets untouched =
     \<lparr>exp_qbo_id = snap_qbo_id snap, exp_disposition = disposition, exp_total = snap_total snap, exp_payment = snap_payment snap,
      exp_date = snap_date snap, exp_refund = snap_refund snap, exp_mode = mode, exp_total_tax = aggregate,
      exp_preserved = snap_preserved snap, exp_targets = targets, exp_untouched = untouched\<rparr>"

definition prepared_write ::
  "(jstring \<Rightarrow> jstring) \<Rightarrow> purchase_operation \<Rightarrow> jstring \<Rightarrow> json \<Rightarrow> purchase_snapshot \<Rightarrow> purchase_expected \<Rightarrow> purchase_prepared" where
  "prepared_write digest operation request_id body current expected =
     \<lparr>pp_operation = operation, pp_type = js ''Purchase'', pp_qbo_id = snap_qbo_id current, pp_request_id = request_id,
      pp_request_hash = fingerprint digest body, pp_body = body, pp_before = current, pp_expected = expected\<rparr>"

definition raw_lines :: "json \<Rightarrow> json list" where
  "raw_lines raw = array_items (get raw ''Line'')"

definition held_in :: "jstring list \<Rightarrow> json \<Rightarrow> bool" where
  "held_in ids raw \<longleftrightarrow> (case detail_ref raw ''AccountRef'' of Some (JStr a) \<Rightarrow> a \<in> set ids | _ \<Rightarrow> False)"

definition holding_line_ok :: "json \<Rightarrow> prep_error + unit" where
  "holding_line_ok raw =
     (if get raw ''DetailType'' \<noteq> Some (JStr (js expense_detail)) \<or> get raw ''Amount'' = None
         \<or> non_blank (detail_ref raw ''AccountRef'') = None
      then Inl PurchaseUnsupported else on_ok (exact_cents (get raw ''Amount'')) (\<lambda>_. Inr ()))"

text \<open>The indexes of the holding lines; the other lines are kept.\<close>

fun holding_indexes :: "jstring list \<Rightarrow> nat \<Rightarrow> json list \<Rightarrow> prep_error + nat list" where
  "holding_indexes ids i [] = Inr []"
| "holding_indexes ids i (l # ls) =
     (if held_in ids l
      then on_ok (holding_line_ok l) (\<lambda>_. on_ok (holding_indexes ids (Suc i) ls) (\<lambda>is. Inr (i # is)))
      else holding_indexes ids (Suc i) ls)"

definition without_indexes :: "nat list \<Rightarrow> 'a list \<Rightarrow> 'a list" where
  "without_indexes is xs = map fst (filter (\<lambda>p. snd p \<notin> set is) (zip xs [0..<length xs]))"

text \<open>The gross amount of the one source line of a category-only change.\<close>

definition source_gross_cents :: "purchase_snapshot \<Rightarrow> snapshot_line \<Rightarrow> prep_error + int" where
  "source_gross_cents current line =
     (if is_mode (Some (snap_mode current)) ''TaxInclusive''
      then Inr (case inclusive_cents line of Some i \<Rightarrow> i | None \<Rightarrow> amount_cents line)
      else if is_mode (Some (snap_mode current)) ''TaxExcluded'' \<and> tax_cents line \<noteq> None
      then safe_cent_sum [of_cents (amount_cents line), of_cents (the (tax_cents line))]
      else Inr (amount_cents line))"

definition edit_line :: "nat \<Rightarrow> (json \<Rightarrow> json) \<Rightarrow> json \<Rightarrow> json" where
  "edit_line i f =
     update_field ''Line'' (\<lambda>v. case v of JArr xs \<Rightarrow> JArr (xs[i := f (xs ! i)]) | _ \<Rightarrow> v)"

definition prepare_preserve_current ::
  "(jstring \<Rightarrow> jstring) \<Rightarrow> json \<Rightarrow> staged_categorization \<Rightarrow> purchase_snapshot \<Rightarrow> purchase_snapshot \<Rightarrow> jstring
     \<Rightarrow> nat list \<Rightarrow> prep_error + purchase_prepared" where
  "prepare_preserve_current digest raw staged before current request_id holding =
     (if mode_json (staged_mode staged) \<noteq> snap_mode current \<or> length holding \<noteq> 1 \<or> length (staged_lines staged) \<noteq> 1
         \<or> staged_tag_ids staged \<noteq> [] \<or> snap_preserved before = None
         \<or> list_ex (\<lambda>l. raw_hash l = None \<or> category_hash l = None) (snap_lines before)
      then Inl PurchaseUnsupported
      else let i = hd holding; source = raw_lines raw ! i; snap = snap_lines current ! i; line = hd (staged_lines staged)
           in on_ok (required_identity (Some (staged_category line))) (\<lambda>account.
              on_ok (required_identity (Some (staged_code line))) (\<lambda>code.
              on_ok (required_identity (get source ''Id'')) (\<lambda>_.
              on_ok (source_gross_cents current snap) (\<lambda>gross.
                if get source ''DetailType'' \<noteq> Some (JStr (js expense_detail))
                   \<or> chain (detail_of source) ''AccountRef'' = None
                   \<or> snap_code snap \<noteq> JStr code
                   \<or> of_cents gross \<noteq> staged_total line
                   \<or> staged_memo line \<noteq> JNull
                   \<or> (case staged_tags line of None \<Rightarrow> False | Some ts \<Rightarrow> ts \<noteq> [])
                then Inl StateDrift
                else let body = edit_line i (with_account account) (normalized_clone raw)
                     in on_ok (snapshot_line_of digest (purchase_sign body) (get body ''GlobalTaxCalculation'') (raw_lines body ! i)) (\<lambda>target.
                        Inr (prepared_write digest Recategorize request_id body current
                          (expected_base current (snap_mode current) (snap_total_tax current) (Some PreserveCurrent)
                             [target] (map canonical_snapshot_line (without_indexes holding (snap_lines current)))))))))))"

definition proven_tax :: "snapshot_line \<Rightarrow> int option" where
  "proven_tax line =
     (case tax_cents line of Some t \<Rightarrow> Some t | None \<Rightarrow> (if snap_code line = JNull then Some 0 else None))"

definition sum_proven :: "int option list \<Rightarrow> prep_error + int" where
  "sum_proven taxes = safe_cent_sum (map (of_cents \<circ> the) taxes)"

text \<open>The tax of the lines that stay: what the aggregate leaves, or what those lines prove.\<close>

definition kept_tax_cents :: "int option \<Rightarrow> int option list \<Rightarrow> int option list \<Rightarrow> prep_error + int" where
  "kept_tax_cents aggregate replaced kept =
     on_ok (if aggregate \<noteq> None \<and> None \<notin> set replaced \<and> None \<notin> set kept
            then on_ok (sum_proven (replaced @ kept)) (\<lambda>s. if aggregate \<noteq> Some s then Inl PurchaseUnsupported else Inr ())
            else Inr ()) (\<lambda>_.
       if aggregate \<noteq> None \<and> None \<notin> set replaced
       then on_ok (sum_proven replaced) (\<lambda>r. safe_cent_sum [of_cents (the aggregate), of_cents (- r)])
       else if None \<notin> set kept then sum_proven kept
       else Inl PurchaseUnsupported)"

text \<open>What of a single replaced line is carried over into the staged line.\<close>

definition copy_field :: "string \<Rightarrow> (json \<Rightarrow> json) \<Rightarrow> json option \<Rightarrow> fields \<Rightarrow> fields" where
  "copy_field k f source fs = (case chain source k of None \<Rightarrow> fs | Some v \<Rightarrow> set_field k (f v) fs)"

definition keep_metadata :: "json \<Rightarrow> staged_line \<Rightarrow> json \<Rightarrow> json" where
  "keep_metadata source line staged_raw =
     (let detail = JObj
            (copy_field ''ClassRef'' normalized_clone (detail_of source)
              (copy_field ''CustomerRef'' normalized_clone (detail_of source)
                (copy_field ''BillableStatus'' id (detail_of source) (spread (detail_of staged_raw)))))
      in JObj (set_field expense_detail detail
           (copy_field ''CustomField'' normalized_clone (Some source)
             ((if staged_memo line \<noteq> JNull then set_field ''Description'' (staged_memo line)
               else copy_field ''Description'' id (Some source))
               (copy_field ''Id'' id (Some source) (spread (Some staged_raw)))))))"

definition same_amounts :: "tax_calculation \<Rightarrow> snapshot_line \<Rightarrow> staged_line \<Rightarrow> bool" where
  "same_amounts mode snap line \<longleftrightarrow>
     of_cents (amount_cents snap) = staged_subtotal line \<and> snap_code snap = staged_code line
     \<and> (map_option of_cents (tax_cents snap) = Some (staged_tax line)
        \<or> (zero_or_unspecified_tax (tax_cents snap) \<and> staged_tax line = Fin 0))
     \<and> (mode = TaxInclusive \<longrightarrow> map_option of_cents (inclusive_cents snap) = Some (staged_total line))"

definition replacement_lines ::
  "json \<Rightarrow> staged_categorization \<Rightarrow> purchase_snapshot \<Rightarrow> nat list \<Rightarrow> prep_error + json list \<times> bool" where
  "replacement_lines raw staged current holding =
     (let mode = staged_mode staged; line = hd (staged_lines staged); source = raw_lines raw ! hd holding;
          snap = snap_lines current ! hd holding;
          one_to_one = (length holding = 1 \<and> length (staged_lines staged) = 1
            \<and> get source ''DetailType'' = Some (JStr (js expense_detail)) \<and> chain (detail_of source) ''AccountRef'' \<noteq> None
            \<and> mode_json mode = snap_mode current)
      in if one_to_one \<and> same_amounts mode snap line
         then on_ok (required_identity (Some (staged_category line))) (\<lambda>account.
              let cloned = with_account account (normalized_clone source)
              in Inr ([if staged_memo line = JNull then cloned
                       else JObj (set_field ''Description'' (staged_memo line) (spread (Some cloned)))], True))
         else if one_to_one
         then on_ok (staged_line_to_raw mode line) (\<lambda>r. Inr ([keep_metadata source line r], True))
         else on_ok (map_ok (staged_line_to_raw mode) (staged_lines staged)) (\<lambda>rs. Inr (rs, False)))"

definition purchase_body :: "json \<Rightarrow> jstring \<Rightarrow> json list \<Rightarrow> json option \<Rightarrow> json" where
  "purchase_body raw token lines mode =
     normalized_clone (JObj
       ((case mode of None \<Rightarrow> delete_field ''GlobalTaxCalculation'' | Some m \<Rightarrow> set_field ''GlobalTaxCalculation'' m)
          (set_field ''Line'' (JArr lines) (set_field ''SyncToken'' (JStr token)
            (delete_field ''TxnTaxDetail'' (delete_field ''status'' (spread (Some raw))))))))"

definition tax_bearing :: "snapshot_line \<Rightarrow> bool" where
  "tax_bearing line \<longleftrightarrow> snap_code line \<noteq> JNull \<or> tax_cents line \<noteq> None \<or> inclusive_cents line \<noteq> None"

definition prepare_set ::
  "(jstring \<Rightarrow> jstring) \<Rightarrow> json \<Rightarrow> staged_categorization \<Rightarrow> purchase_snapshot \<Rightarrow> jstring \<Rightarrow> nat list
     \<Rightarrow> prep_error + purchase_prepared" where
  "prepare_set digest raw staged current request_id holding =
     (let kept_raw = without_indexes holding (raw_lines raw); kept = without_indexes holding (snap_lines current);
          mode = staged_mode staged
      in if list_ex tax_bearing kept \<and> mode_json mode \<noteq> snap_mode current then Inl PurchaseUnsupported
         else on_ok (replacement_lines raw staged current holding) (\<lambda>(new_raw, from_source).
              on_ok (if from_source
                     then on_ok (snapshot_line_of digest (purchase_sign raw) (get raw ''GlobalTaxCalculation'') (hd new_raw)) (\<lambda>l. Inr [l])
                     else Inr (map (staged_line_to_snapshot mode) (staged_lines staged))) (\<lambda>targets.
              on_ok (kept_tax_cents (snap_total_tax current)
                       (map (\<lambda>i. proven_tax (snap_lines current ! i)) holding) (map proven_tax kept)) (\<lambda>kept_tax.
              on_ok (safe_cent_sum [of_cents kept_tax, fst (snd (staged_totals staged))]) (\<lambda>aggregate.
                let body = purchase_body raw (snap_token current) (kept_raw @ new_raw) (Some (mode_json mode))
                in Inr (prepared_write digest Recategorize request_id body current
                     (expected_base current (mode_json mode) (Some aggregate) None targets
                       (map canonical_snapshot_line kept))))))))"

definition prepare_purchase_recategorization ::
  "(jstring \<Rightarrow> jstring) \<Rightarrow> json \<Rightarrow> jstring list \<Rightarrow> staged_categorization \<Rightarrow> purchase_snapshot \<Rightarrow> jstring
     \<Rightarrow> prep_error + purchase_prepared" where
  "prepare_purchase_recategorization digest raw holding_ids staged before request_id =
     (if trim request_id = [] then Inl ReferenceMissing
      else if holding_ids = [] then Inl ReferenceMissing
      else if list_ex (\<lambda>i. trim i = []) holding_ids then Inl ReferenceMissing
      else on_ok (map_purchase_tax_snapshot digest raw) (\<lambda>current.
           on_ok (assert_snapshot_equals_before current before) (\<lambda>_.
           on_ok (holding_indexes holding_ids 0 (raw_lines raw)) (\<lambda>holding.
             if holding = [] then Inl StateDrift
             else on_ok (assert_staged_amounts staged current holding) (\<lambda>_.
               if staged_disposition staged = Some PreserveCurrent
               then prepare_preserve_current digest raw staged before current request_id holding
               else prepare_set digest raw staged current request_id holding)))))"

section \<open>Restoring\<close>

text \<open>Removes the first element with a property.\<close>

fun take_first :: "('a \<Rightarrow> bool) \<Rightarrow> 'a list \<Rightarrow> ('a \<times> 'a list) option" where
  "take_first P [] = None"
| "take_first P (x # xs) =
     (if P x then Some (x, xs) else map_option (\<lambda>(y, ys). (y, x # ys)) (take_first P xs))"

fun remove_untouched :: "('a \<Rightarrow> jstring) \<Rightarrow> jstring list \<Rightarrow> 'a list \<Rightarrow> 'a list option" where
  "remove_untouched f [] xs = Some xs"
| "remove_untouched f (h # hs) xs =
     (case take_first (\<lambda>x. f x = h) xs of None \<Rightarrow> None | Some (_, rest) \<Rightarrow> remove_untouched f hs rest)"

fun match_targets ::
  "(snapshot_line \<Rightarrow> snapshot_line \<Rightarrow> bool) \<Rightarrow> snapshot_line list \<Rightarrow> (snapshot_line \<times> nat) list
     \<Rightarrow> (nat list \<times> (snapshot_line \<times> nat) list) option" where
  "match_targets matches [] xs = Some ([], xs)"
| "match_targets matches (t # ts) xs =
     (case take_first (\<lambda>x. matches t (fst x)) xs of
        None \<Rightarrow> None
      | Some (x, rest) \<Rightarrow> map_option (\<lambda>(is, left_over). (snd x # is, left_over)) (match_targets matches ts rest))"

definition assert_expected_current :: "purchase_expected \<Rightarrow> purchase_snapshot \<Rightarrow> prep_error + nat list" where
  "assert_expected_current expected actual =
     (if snap_qbo_id actual \<noteq> exp_qbo_id expected \<or> snap_total actual \<noteq> exp_total expected
         \<or> snap_payment actual \<noteq> exp_payment expected \<or> snap_date actual \<noteq> exp_date expected
         \<or> snap_refund actual \<noteq> exp_refund expected \<or> snap_mode actual \<noteq> exp_mode expected
         \<or> \<not> purchase_total_tax_matches (exp_mode expected) (exp_total_tax expected) (snap_total_tax actual)
         \<or> (exp_disposition expected = Some PreserveCurrent
            \<and> (exp_preserved expected = None \<or> exp_preserved expected \<noteq> snap_preserved actual))
      then Inl StateDrift
      else case remove_untouched (canonical_snapshot_line \<circ> fst) (exp_untouched expected)
                  (zip (snap_lines actual) [0..<length (snap_lines actual)]) of
             None \<Rightarrow> Inl StateDrift
           | Some remaining \<Rightarrow>
               (case match_targets
                       (\<lambda>t l. purchase_target_line_matches (exp_mode expected) (exp_total_tax expected) (snap_total_tax actual)
                          t l (exp_disposition expected))
                       (exp_targets expected) remaining of
                  Some (is, []) \<Rightarrow> Inr is
                | _ \<Rightarrow> Inl StateDrift))"

definition before_target_lines :: "purchase_prepared \<Rightarrow> prep_error + snapshot_line list" where
  "before_target_lines prepared =
     (case remove_untouched canonical_snapshot_line (exp_untouched (pp_expected prepared)) (snap_lines (pp_before prepared)) of
        None \<Rightarrow> Inl PurchaseUnsupported
      | Some [] \<Rightarrow> Inl PurchaseUnsupported
      | Some ls \<Rightarrow> Inr ls)"

definition optional_ref :: "string \<Rightarrow> json \<Rightarrow> fields" where
  "optional_ref k v = (if v = JNull then [] else [ref_field k v])"

definition optional_money :: "string \<Rightarrow> int option \<Rightarrow> prep_error + fields" where
  "optional_money k c =
     (case c of None \<Rightarrow> Inr [] | Some n \<Rightarrow> on_ok (money_from_cents (of_cents n)) (\<lambda>m. Inr [(js k, m)]))"

definition snapshot_line_to_raw :: "snapshot_line \<Rightarrow> prep_error + json" where
  "snapshot_line_to_raw line =
     on_ok (required_identity (Some (snap_account line))) (\<lambda>account.
     on_ok (optional_money ''TaxAmount'' (tax_cents line)) (\<lambda>tax.
     on_ok (optional_money ''TaxInclusiveAmt'' (inclusive_cents line)) (\<lambda>inclusive.
     on_ok (money_from_cents (of_cents (amount_cents line))) (\<lambda>amount.
     Inr (JObj
       ((if snap_id line = JNull then [] else [(js ''Id'', snap_id line)])
        @ [(js ''Amount'', amount), (js ''DetailType'', JStr (js expense_detail))]
        @ (if snap_description line = JNull then [] else [(js ''Description'', snap_description line)])
        @ [(js expense_detail, JObj
             (ref_field ''AccountRef'' (JStr account)
              # optional_ref ''CustomerRef'' (snap_customer line) @ optional_ref ''ClassRef'' (snap_class line)
              @ optional_ref ''TaxCodeRef'' (snap_code line) @ tax @ inclusive))]))))))"

text \<open>A line that was not touched goes back as it is; every other one is rebuilt.\<close>

fun restore_lines :: "snapshot_line list \<Rightarrow> (jstring \<times> json) list \<Rightarrow> prep_error + json list" where
  "restore_lines [] untouched = Inr []"
| "restore_lines (l # ls) untouched =
     (case take_first (\<lambda>u. fst u = canonical_snapshot_line l) untouched of
        None \<Rightarrow> on_ok (snapshot_line_to_raw l) (\<lambda>r. on_ok (restore_lines ls untouched) (\<lambda>rs. Inr (r # rs)))
      | Some (u, rest) \<Rightarrow> on_ok (restore_lines ls rest) (\<lambda>rs. Inr (snd u # rs)))"

definition restore_lines_in_before_order ::
  "purchase_snapshot \<Rightarrow> json list \<Rightarrow> snapshot_line list \<Rightarrow> prep_error + json list" where
  "restore_lines_in_before_order before kept_raw kept =
     restore_lines (snap_lines before) (zip (map canonical_snapshot_line kept) kept_raw)"

definition restore_preserve_current ::
  "(jstring \<Rightarrow> jstring) \<Rightarrow> json \<Rightarrow> purchase_prepared \<Rightarrow> purchase_snapshot \<Rightarrow> jstring \<Rightarrow> nat list \<Rightarrow> snapshot_line list
     \<Rightarrow> prep_error + purchase_prepared" where
  "restore_preserve_current digest raw prepared current request_id targets befores =
     (if length (remdups targets) \<noteq> 1 \<or> length befores \<noteq> 1 then Inl PurchaseUnsupported
      else let i = hd targets
           in on_ok (required_identity (Some (snap_account (hd befores)))) (\<lambda>account.
                if chain (detail_of (raw_lines (normalized_clone raw) ! i)) ''AccountRef'' = None then Inl StateDrift
                else let body = edit_line i (with_account account) (normalized_clone raw); before = pp_before prepared
                     in on_ok (map_purchase_tax_snapshot digest body) (\<lambda>restored.
                        Inr (prepared_write digest Restore request_id body current
                          (expected_base before (snap_mode before) (snap_total_tax before) (Some PreserveCurrent)
                             [snap_lines restored ! i] (map canonical_snapshot_line (without_indexes [i] (snap_lines current))))))))"

definition prepare_purchase_restore ::
  "(jstring \<Rightarrow> jstring) \<Rightarrow> json \<Rightarrow> purchase_prepared \<Rightarrow> jstring \<Rightarrow> prep_error + purchase_prepared" where
  "prepare_purchase_restore digest raw prepared request_id =
     (if trim request_id = [] then Inl ReferenceMissing
      else if pp_operation prepared \<noteq> Recategorize \<or> pp_type prepared \<noteq> js ''Purchase'' then Inl PurchaseUnsupported
      else on_ok (map_purchase_tax_snapshot digest raw) (\<lambda>current.
           on_ok (assert_expected_current (pp_expected prepared) current) (\<lambda>targets.
           on_ok (before_target_lines prepared) (\<lambda>befores.
             if exp_disposition (pp_expected prepared) = Some PreserveCurrent
             then restore_preserve_current digest raw prepared current request_id targets befores
             else let kept = without_indexes targets (snap_lines current); before = pp_before prepared
                  in on_ok (restore_lines_in_before_order before (without_indexes targets (raw_lines raw)) kept) (\<lambda>restored.
                     let body = purchase_body raw (snap_token current) restored
                           (if snap_mode before = JNull then None else Some (snap_mode before))
                     in Inr (prepared_write digest Restore request_id body current
                          (expected_base before (snap_mode before) (snap_total_tax before) None befores
                             (map canonical_snapshot_line kept))))))))"

end
