(* ===== verification/PurchaseMoney.thy ===== *)
theory PurchaseMoney
  imports PurchasePrep
begin

text \<open>
  The exact-cents arithmetic of \<open>lib/qbo/purchaseTax.ts\<close>: which amounts survive the
  conversion to a double and back, and which do not.
\<close>

lemma rnd_bound: "\<bar>rnd x\<bar> \<le> \<bar>x\<bar> + \<bar>x\<bar> / 2 ^ 53 + 1 / 2 ^ 1000"
proof (cases "2 powi (- 1022) \<le> \<bar>x\<bar>")
  case True
  have "(0 :: rat) \<le> 1 / 2 ^ 1000" by simp
  then show ?thesis using rnd_error [OF True] by linarith
next
  case False
  show ?thesis
  proof (cases "x = 0")
    case False
    let ?l = "floor_log2 \<bar>x\<bar>"
    have "?l < - 1022" using \<open>\<not> 2 powi (- 1022) \<le> \<bar>x\<bar>\<close> False by (intro floor_log2_less) auto
    then have e: "max (?l - 52) (- 1074) = (- 1074 :: int)" by simp
    define u where "u = (2 :: rat) powi (- 1074)"
    have u: "0 < u" by (simp add: u_def)
    have r: "rnd x = of_int (round_even (x / u)) * u" using False by (simp only: rnd_def e Let_def if_False u_def)
    have "rnd x - x = (of_int (round_even (x / u)) - x / u) * u" using u by (simp add: r field_simps)
    then have "\<bar>rnd x - x\<bar> = \<bar>of_int (round_even (x / u)) - x / u\<bar> * u" using u by (simp add: abs_mult)
    also have "\<dots> \<le> 1 / 2 * u" using round_even_error u by (intro mult_right_mono) auto
    also have "\<dots> \<le> u" using u by simp
    also have "\<dots> \<le> 2 powi (- 1000)" unfolding u_def by (intro power_int_increasing) auto
    also have "\<dots> = 1 / 2 ^ 1000" by (simp add: power_int_def power_one_over inverse_eq_divide)
    finally have "\<bar>rnd x - x\<bar> \<le> 1 / 2 ^ 1000" .
    moreover have "0 \<le> \<bar>x\<bar> / 2 ^ 53" by simp
    ultimately show ?thesis by linarith
  qed simp
qed

lemma cent_tolerance_bound: "99 / 1000000000 \<le> cent_tolerance"
  by code_simp

lemma max_exact_cents_value: "max_exact_cents = 90071992547409"
  by code_simp

text \<open>The conversion of a dollar amount to cents, in doubles, is off by less than the tolerance.\<close>

lemma exact_cents_dollars:
  assumes c: "\<bar>c\<bar> \<le> 400000000"
  shows "exact_cents (Some (JNum (dollars c))) = Inr c"
proof (cases "c = 0")
  case True
  then show ?thesis by (simp add: fl_def max_exact_cents_value cent_tolerance_bound) (use cent_tolerance_bound in linarith)
next
  case False
  have "\<bar>c\<bar> \<le> 2 ^ 50" using c by simp
  let ?x = "of_int c / 100 :: rat"
  have c1: "1 \<le> \<bar>of_int c :: rat\<bar>" using False by (simp flip: of_int_abs)
  have "(of_int \<bar>c\<bar> :: rat) \<le> of_int 400000000" using c by (simp only: of_int_le_iff)
  then have c2: "\<bar>of_int c :: rat\<bar> \<le> 400000000" by simp
  have ax: "\<bar>?x\<bar> = \<bar>of_int c\<bar> / 100" by simp
  have x: "1 / 200 \<le> \<bar>?x\<bar>" "\<bar>?x\<bar> \<le> 2 ^ 60" using c1 c2 unfolding ax by auto
  define z where "z = rnd ?x * 100"
  have d: "dollars c = Fin (rnd ?x)" unfolding dollars_def using x by (rule fl_near)
  have "\<bar>rnd ?x - ?x\<bar> \<le> \<bar>of_int c\<bar> / 100 / 9007199254740992" using rnd_near [OF x(1)] unfolding ax by simp
  also have "\<dots> \<le> 4000000 / 9007199254740992" using c2 by simp
  finally have "\<bar>(rnd ?x - ?x) * 100\<bar> \<le> 400000000 / 9007199254740992" unfolding abs_mult by simp
  then have z: "\<bar>z - of_int c\<bar> \<le> 400000000 / 9007199254740992" by (simp add: z_def left_diff_distrib)
  then have z1: "1 / 200 \<le> \<bar>z\<bar>" "\<bar>z\<bar> \<le> 400000001" using c1 c2 by linarith+
  moreover have "(400000001 :: rat) \<le> 2 ^ 60" by simp
  ultimately have fz: "fl z = Fin (rnd z)" by (intro fl_near) linarith+
  have "\<bar>rnd z - z\<bar> \<le> \<bar>z\<bar> / 9007199254740992" using rnd_near [OF z1(1)] by simp
  also have "\<dots> \<le> 400000001 / 9007199254740992" using z1(2) by simp
  finally have near: "\<bar>rnd z - of_int c\<bar> \<le> 89 / 1000000000" using z by linarith
  then have r: "\<lfloor>rnd z + 1 / 2\<rfloor> = c" by linarith
  have "\<bar>rnd (rnd z - of_int c)\<bar> \<le> \<bar>rnd z - of_int c\<bar> + \<bar>rnd z - of_int c\<bar> / 2 ^ 53 + 1 / 2 ^ 1000" by (rule rnd_bound)
  moreover have "\<bar>rnd z - of_int c\<bar> / 2 ^ 53 \<le> 1 / 1000000000" using near by simp
  moreover have "(1 :: rat) / 2 ^ 1000 \<le> 1 / 1000000000" by simp
  ultimately have "\<bar>rnd (rnd z - of_int c)\<bar> \<le> 99 / 1000000000" using near by linarith
  then have "\<not> cent_tolerance < \<bar>rnd (rnd z - of_int c)\<bar>" using cent_tolerance_bound by linarith
  moreover have "is_safe_integer (Fin (of_int c))" using c2 by simp
  moreover have "\<bar>c\<bar> \<le> max_exact_cents" using c by (simp add: max_exact_cents_value)
  ultimately show ?thesis using d fz r by (simp add: z_def Let_def)
qed

lemma exact_cents_bound: "exact_cents v = Inr c \<Longrightarrow> \<bar>c\<bar> \<le> max_exact_cents"
  by (cases v rule: exact_cents.cases) (auto simp: Let_def split: jsnum.splits if_splits)

lemma money_cents_of_cents [simp]: "money_cents (of_cents c) \<longleftrightarrow> \<bar>c\<bar> \<le> max_exact_cents"
proof -
  have "is_safe_integer (Fin (of_int c))" if "\<bar>c\<bar> \<le> max_exact_cents"
  proof -
    have "(of_int \<bar>c\<bar> :: rat) \<le> of_int 90071992547409" using that unfolding max_exact_cents_value by (simp only: of_int_le_iff)
    then show ?thesis by simp
  qed
  then show ?thesis by (auto simp: money_cents_def of_cents_def)
qed

lemma cents_of_of_cents [simp]: "cents_of (of_cents c) = c"
  by (simp add: of_cents_def)

lemma of_cents_eq [simp]: "of_cents a = of_cents b \<longleftrightarrow> a = b"
  by (simp add: of_cents_def)

lemma money_from_cents_dollars:
  assumes "\<bar>c\<bar> \<le> 400000000"
  shows "money_from_cents (of_cents c) = Inr (JNum (dollars \<bar>c\<bar>))"
  using exact_cents_dollars [of "\<bar>c\<bar>"] assms by (simp add: money_from_cents_def max_exact_cents_value Let_def)

lemma money_cents_Fin: "money_cents v \<Longrightarrow> v = of_cents (cents_of v)"
  by (cases v) (auto simp: money_cents_def of_cents_def)

text \<open>Whatever was serialized is read back as it was.\<close>

lemma money_from_cents_exact:
  assumes "money_from_cents v = Inr m"
  shows "exact_cents (Some m) = Inr \<bar>cents_of v\<bar>" "v = of_cents (cents_of v)" "m = JNum (dollars \<bar>cents_of v\<bar>)"
  using assms money_cents_Fin by (auto simp: money_from_cents_def Let_def ok_simps)

lemma cent_sum_Inr:
  "cent_sum_from acc vs = Inr s \<Longrightarrow> s = acc + (\<Sum>v \<leftarrow> vs. cents_of v) \<and> (\<forall>v \<in> set vs. money_cents v)"
  by (induction acc vs rule: cent_sum_from.induct) (auto simp: Let_def split: if_splits)

text \<open>
  C31. Money below four million dollars is exact: an amount of whole cents is read from the
  provider's decimal as exactly these cents, and cents are written as that decimal again.
\<close>

theorem money_roundtrip:
  assumes "\<bar>c\<bar> \<le> 400000000"
  shows "exact_cents (Some (JNum (dollars c))) = Inr c
    \<and> on_ok (money_from_cents (of_cents c)) (\<lambda>m. exact_cents (Some m)) = Inr \<bar>c\<bar>"
  using exact_cents_dollars [OF assms] money_from_cents_dollars [OF assms] exact_cents_dollars [of "\<bar>c\<bar>"] assms by simp

theorem money_roundtrip_witness:
  "exact_cents (Some (JNum (dollars 12345))) = Inr 12345
    \<and> on_ok (money_from_cents (of_cents 12345)) (\<lambda>m. exact_cents (Some m)) = Inr \<bar>12345\<bar>"
  by (rule money_roundtrip) simp

text \<open>
  C32. Above that range amounts of whole cents are refused although they are far below the bound
  the code names: 8,388,608.03 is not read as cents, and 838,860,803 cents cannot be written.
\<close>

theorem large_money_refused:
  "exact_cents (Some (JNum (dollars 838860803))) = Inl AmountUnsafe
    \<and> money_from_cents (of_cents 838860803) = Inl AmountUnsafe
    \<and> 838860803 * 100000 < max_exact_cents"
proof -
  have "rnd (838860803 / 100) = 4503599643476623 / 536870912" by code_simp
  then have d: "dollars 838860803 = Fin (4503599643476623 / 536870912)" by (simp add: dollars_def fl_near)
  have "4503599643476623 / 536870912 * 100 = (112589991086915575 / 134217728 :: rat)" by simp
  moreover have "rnd (112589991086915575 / 134217728) = 7036874442932223 / 8388608" by code_simp
  then have "fl (112589991086915575 / 134217728) = Fin (7036874442932223 / 8388608)" by (simp add: fl_near)
  ultimately have t: "js_times (Fin (4503599643476623 / 536870912)) 100 = Fin (7036874442932223 / 8388608)" by simp
  have r: "js_round (Fin (7036874442932223 / 8388608)) = Fin 838860803" by code_simp
  have "7036874442932223 / 8388608 - 838860803 = (- 1 / 8388608 :: rat)" by simp
  moreover have "rnd (- 1 / 8388608) = - 1 / 8388608" by code_simp
  ultimately have e: "rnd (7036874442932223 / 8388608 - 838860803) = - 1 / 8388608" by simp
  have "cent_tolerance < \<bar>rnd (7036874442932223 / 8388608 - 838860803)\<bar>" unfolding e by code_simp
  then have x: "exact_cents (Some (JNum (dollars 838860803))) = Inl AmountUnsafe"
    unfolding d exact_cents.simps Let_def t r jsnum.case prod.case by (simp only: simp_thms if_True)
  moreover have "money_from_cents (of_cents 838860803) = Inl AmountUnsafe"
    using x by (simp add: money_from_cents_def max_exact_cents_value)
  ultimately show ?thesis by (simp add: max_exact_cents_value)
qed

end
