(* ===== verification/PurchaseLines.thy ===== *)
theory PurchaseLines
  imports PurchaseMoney
begin

text \<open>
  Lines of a purchase written and read back: what a staged line and a rebuilt line of
  \<open>lib/qbo/purchaseTax.ts\<close> look like in the snapshot that the provider's answer gives.
\<close>

section \<open>Amounts\<close>

lemma directional_money:
  assumes "money_from_cents v = Inr m" "sign = 1 \<or> sign = - 1" "cents_of v = 0 \<or> sgn (cents_of v) = sign"
  shows "directional_cents (Some m) sign = Inr (cents_of v)"
proof -
  have "exact_cents (Some m) = Inr \<bar>cents_of v\<bar>" using money_from_cents_exact [OF assms(1)] by simp
  then show ?thesis using assms(2,3) by (auto simp: directional_cents_def sgn_if split: if_splits)
qed

lemma num_sign_of_cents [simp]: "num_sign (of_cents c) = sgn c"
  by (auto simp: num_sign_def of_cents_def sgn_if)

lemma required_identity_Inr [ok_simps]:
  "required_identity v = Inr s \<longleftrightarrow> v = Some (JStr s) \<and> trim s \<noteq> []"
  by (cases v rule: required_identity.cases) auto

lemma money_json: "money_from_cents v = Inr m \<Longrightarrow> m \<noteq> JNull"
  using money_from_cents_exact(3) by blast

lemma staged_amounts:
  assumes "staged_line_fault mode sign line = None" "sign = 1 \<or> sign = - 1"
  shows "cents_of (staged_subtotal line) + cents_of (staged_tax line) = cents_of (staged_total line)"
    and "sgn (cents_of (staged_subtotal line)) = sign"
    and "cents_of (staged_tax line) = 0 \<or> sgn (cents_of (staged_tax line)) = sign"
    and "sgn (cents_of (staged_total line)) = sign"
    and "mode = NotApplicable \<Longrightarrow> cents_of (staged_tax line) = 0"
proof -
  from assms(1) obtain s where s: "safe_cent_sum [staged_subtotal line, staged_tax line] = Inr s" "of_cents s = staged_total line"
    "num_sign (staged_subtotal line) = sign" "staged_tax line = Fin 0 \<or> num_sign (staged_tax line) = sign"
    "mode = NotApplicable \<longrightarrow> staged_tax line = Fin 0"
    by (auto simp: staged_line_fault_def split: sum.splits if_splits)
  note sum = cent_sum_Inr [OF s(1)]
  have sub: "staged_subtotal line = of_cents (cents_of (staged_subtotal line))" "staged_tax line = of_cents (cents_of (staged_tax line))"
    using sum money_cents_Fin by simp_all
  have total: "cents_of (staged_total line) = s" using s(2) by (metis cents_of_of_cents)
  show "cents_of (staged_subtotal line) + cents_of (staged_tax line) = cents_of (staged_total line)" using sum total by simp
  show 1: "sgn (cents_of (staged_subtotal line)) = sign" using s(3) sub(1) by (metis num_sign_of_cents)
  show 2: "cents_of (staged_tax line) = 0 \<or> sgn (cents_of (staged_tax line)) = sign"
    using s(4) sub(2) by (metis cents_of.simps(1) floor_zero num_sign_of_cents)
  show "mode = NotApplicable \<Longrightarrow> cents_of (staged_tax line) = 0" using s(5) by simp
  show "sgn (cents_of (staged_total line)) = sign" using 1 2 sum total assms(2) by (auto simp: sgn_if split: if_splits)
qed

section \<open>A staged line is read back as it was staged\<close>

lemma staged_line_raw:
  assumes "staged_line_to_raw mode line = Inr raw"
  obtains account fields amount where
    "staged_category line = JStr account" "staged_tax_fields line mode = Inr fields"
    "money_from_cents (staged_subtotal line) = Inr amount"
    "raw = JObj ([(js ''Amount'', amount), (js ''DetailType'', JStr (js expense_detail))]
       @ (if staged_memo line = JNull then [] else [(js ''Description'', staged_memo line)])
       @ [(js expense_detail, JObj (ref_field ''AccountRef'' (JStr account) # fields))])"
  using assms by (auto simp: staged_line_to_raw_def ok_simps)

lemma staged_raw_fields:
  assumes "raw = JObj ([(js ''Amount'', amount), (js ''DetailType'', JStr (js expense_detail))]
       @ (if memo = JNull then [] else [(js ''Description'', memo)])
       @ [(js expense_detail, JObj detail)])"
  shows "get raw ''Amount'' = Some amount" "get raw ''Id'' = None" "nullish (get raw ''Description'') = memo"
    "detail_of raw = Some (JObj detail)" "get raw ''DetailType'' = Some (JStr (js expense_detail))"
  by (simp_all add: assms detail_of_def)

lemma amount_or_zero_present: "get raw ''Amount'' = Some v \<Longrightarrow> v \<noteq> JNull \<Longrightarrow> amount_or_zero raw = Some v"
  by (auto simp: amount_or_zero_def split: json.splits)

lemma mode_json_is_mode [simp]: "is_mode (Some (mode_json m)) s \<longleftrightarrow> mode_name m = s"
  by (simp add: is_mode_def mode_json_def)

lemma mode_name_inj [simp]: "mode_name a = mode_name b \<longleftrightarrow> a = b"
  by (cases a; cases b) auto

lemma mode_name_eq [simp]:
  "mode_name m = ''TaxInclusive'' \<longleftrightarrow> m = TaxInclusive"
  "mode_name m = ''TaxExcluded'' \<longleftrightarrow> m = TaxExcluded"
  "mode_name m = ''NotApplicable'' \<longleftrightarrow> m = NotApplicable"
  by (cases m; simp)+

lemma staged_line_snapshot:
  assumes raw: "staged_line_to_raw mode line = Inr raw"
    and ok: "staged_line_fault mode sign line = None" and sign: "sign = 1 \<or> sign = - 1"
  shows "snapshot_line_of digest sign (Some (mode_json mode)) raw =
    Inr ((staged_line_to_snapshot mode line)
      \<lparr>raw_hash := Some (purchase_raw_line_hash digest raw), category_hash := Some (purchase_category_only_line_hash digest raw)\<rparr>)"
proof -
  obtain account fields amount where f: "staged_category line = JStr account" "staged_tax_fields line mode = Inr fields"
    "money_from_cents (staged_subtotal line) = Inr amount"
    and r: "raw = JObj ([(js ''Amount'', amount), (js ''DetailType'', JStr (js expense_detail))]
       @ (if staged_memo line = JNull then [] else [(js ''Description'', staged_memo line)])
       @ [(js expense_detail, JObj (ref_field ''AccountRef'' (JStr account) # fields))])"
    using raw by (rule staged_line_raw)
  note g = staged_raw_fields [OF r]
  note am = staged_amounts [OF ok sign]
  have amount: "directional_cents (amount_or_zero raw) sign = Inr (cents_of (staged_subtotal line))"
    using amount_or_zero_present [OF g(1) money_json [OF f(3)]] directional_money [OF f(3) sign] am(2) by simp
  show ?thesis
  proof (cases "mode = NotApplicable")
    case True
    then have "fields = (if staged_code line = not_applicable_code then [ref_field ''TaxCodeRef'' not_applicable_code] else [])"
      "staged_code line \<noteq> not_applicable_code \<longrightarrow> staged_code line = JNull"
      using f(2) by (auto simp: staged_tax_fields_def split: if_splits)
    then show ?thesis
      using True amount g f(1) by (simp add: snapshot_line_of_def staged_line_to_snapshot_def chain_def detail_ref_def)
  next
    case False
    from f(2) False obtain code tax inc where c: "staged_code line = JStr code" "money_from_cents (staged_tax line) = Inr tax"
      and inc: "if mode = TaxInclusive then \<exists>t. money_from_cents (staged_total line) = Inr t \<and> inc = [(js ''TaxInclusiveAmt'', t)] else inc = []"
      and fields: "fields = [ref_field ''TaxCodeRef'' (JStr code), (js ''TaxAmount'', tax)] @ inc"
      by (auto simp: staged_tax_fields_def ok_simps split: if_splits)
    have tax: "directional_cents (Some tax) sign = Inr (cents_of (staged_tax line))"
      by (rule directional_money [OF c(2) sign am(3)])
    show ?thesis
    proof (cases "mode = TaxInclusive")
      case True
      then obtain t where t: "money_from_cents (staged_total line) = Inr t" "inc = [(js ''TaxInclusiveAmt'', t)]" using inc by auto
      have "directional_cents (Some t) sign = Inr (cents_of (staged_total line))"
        by (rule directional_money [OF t(1) sign]) (use am(4) in simp)
      then show ?thesis
        using True amount tax g f(1) c(1) fields t(2)
        by (simp add: snapshot_line_of_def staged_line_to_snapshot_def chain_def detail_ref_def)
    next
      case notinc: False
      then show ?thesis
        using False amount tax g f(1) c(1) fields inc
        by (simp add: snapshot_line_of_def staged_line_to_snapshot_def chain_def detail_ref_def)
    qed
  qed
qed

section \<open>A line that is rebuilt from its snapshot\<close>

lemma optional_money_Inr:
  "optional_money k c = Inr fs \<longleftrightarrow>
     (case c of None \<Rightarrow> fs = [] | Some n \<Rightarrow> \<exists>m. money_from_cents (of_cents n) = Inr m \<and> fs = [(js k, m)])"
  by (auto simp: optional_money_def ok_simps split: option.splits)

lemma map_of_optional_money:
  assumes "optional_money k c = Inr fs"
  shows "map_of fs x = (if x = js k then map_option (\<lambda>n. JNum (dollars \<bar>n\<bar>)) c else None)"
  using assms money_from_cents_exact(3) by (fastforce simp: optional_money_Inr split: option.splits)

lemma map_of_optional_ref:
  "map_of (optional_ref k v) x = (if x = js k \<and> v \<noteq> JNull then Some (JObj [(js ''value'', v)]) else None)"
  by (simp add: optional_ref_def)

lemma optional_directional:
  assumes "optional_money k c = Inr fs" "c = Some n" "sign = 1 \<or> sign = - 1" "n = 0 \<or> sgn n = sign"
  shows "directional_cents (Some (JNum (dollars \<bar>n\<bar>))) sign = Inr n"
proof -
  obtain m where m: "money_from_cents (of_cents n) = Inr m" using assms(1,2) by (auto simp: optional_money_Inr)
  then have "m = JNum (dollars \<bar>n\<bar>)" using money_from_cents_exact(3) by fastforce
  then show ?thesis using directional_money [OF m assms(3)] assms(4) by simp
qed

lemma rebuilt_line_snapshot:
  assumes raw: "snapshot_line_to_raw line = Inr raw" and sign: "sign = 1 \<or> sign = - 1"
    and amounts: "amount_cents line = 0 \<or> sgn (amount_cents line) = sign"
      "case tax_cents line of None \<Rightarrow> True | Some t \<Rightarrow> t = 0 \<or> sgn t = sign"
      "case inclusive_cents line of None \<Rightarrow> True | Some i \<Rightarrow> i = 0 \<or> sgn i = sign"
    and derived: "\<not> (is_mode mode ''TaxInclusive'' \<and> tax_cents line = None \<and> inclusive_cents line \<noteq> None)"
  shows "snapshot_line_of digest sign mode raw =
    Inr (line\<lparr>raw_hash := Some (purchase_raw_line_hash digest raw), category_hash := Some (purchase_category_only_line_hash digest raw)\<rparr>)"
proof -
  from raw obtain account tax inc amount where f: "snap_account line = JStr account"
      "optional_money ''TaxAmount'' (tax_cents line) = Inr tax"
      "optional_money ''TaxInclusiveAmt'' (inclusive_cents line) = Inr inc"
      "money_from_cents (of_cents (amount_cents line)) = Inr amount"
    and r: "raw = JObj
       ((if snap_id line = JNull then [] else [(js ''Id'', snap_id line)])
        @ [(js ''Amount'', amount), (js ''DetailType'', JStr (js expense_detail))]
        @ (if snap_description line = JNull then [] else [(js ''Description'', snap_description line)])
        @ [(js expense_detail, JObj
             (ref_field ''AccountRef'' (JStr account)
              # optional_ref ''CustomerRef'' (snap_customer line) @ optional_ref ''ClassRef'' (snap_class line)
              @ optional_ref ''TaxCodeRef'' (snap_code line) @ tax @ inc))])"
    by (auto simp: snapshot_line_to_raw_def ok_simps)
  have amount: "directional_cents (amount_or_zero raw) sign = Inr (amount_cents line)"
  proof -
    have "get raw ''Amount'' = Some amount" by (simp add: r)
    then show ?thesis
      using amount_or_zero_present [OF _ money_json [OF f(4)]] directional_money [OF f(4) sign] amounts(1) by simp
  qed
  define detail where "detail = ref_field ''AccountRef'' (JStr account)
      # optional_ref ''CustomerRef'' (snap_customer line) @ optional_ref ''ClassRef'' (snap_class line)
      @ optional_ref ''TaxCodeRef'' (snap_code line) @ tax @ inc"
  have detail: "detail_of raw = Some (JObj detail)" by (simp add: detail_of_def r detail_def)
  have top: "nullish (get raw ''Id'') = snap_id line" "nullish (get raw ''Description'') = snap_description line"
    by (simp_all add: r)
  note parts = map_of_optional_money [OF f(2)] map_of_optional_money [OF f(3)] map_of_optional_ref
  have refs: "nullish (detail_ref raw ''AccountRef'') = JStr account" "nullish (detail_ref raw ''CustomerRef'') = snap_customer line"
    "nullish (detail_ref raw ''ClassRef'') = snap_class line" "nullish (detail_ref raw ''TaxCodeRef'') = snap_code line"
    by (simp_all add: detail_ref_def detail chain_def detail_def map_add_def parts split: option.splits)
  have money: "chain (detail_of raw) ''TaxAmount'' = map_option (\<lambda>n. JNum (dollars \<bar>n\<bar>)) (tax_cents line)"
    "chain (detail_of raw) ''TaxInclusiveAmt'' = map_option (\<lambda>n. JNum (dollars \<bar>n\<bar>)) (inclusive_cents line)"
    by (simp_all add: detail chain_def detail_def map_add_def parts split: option.splits)
  have inc: "(case chain (detail_of raw) ''TaxInclusiveAmt'' of None \<Rightarrow> Inr None
      | v \<Rightarrow> on_ok (directional_cents v sign) (\<lambda>c. Inr (Some c))) = Inr (inclusive_cents line)"
    using optional_directional [OF f(3) _ sign] amounts(3) by (auto simp: money(2) split: option.splits)
  have tax: "(case chain (detail_of raw) ''TaxAmount'' of
        None \<Rightarrow> Inr (if is_mode mode ''TaxInclusive'' then map_option (\<lambda>i. i - amount_cents line) (inclusive_cents line) else None)
      | v \<Rightarrow> on_ok (directional_cents v sign) (\<lambda>c. Inr (Some c))) = Inr (tax_cents line)"
    using optional_directional [OF f(2) _ sign] amounts(2) derived by (auto simp: money(1) split: option.splits)
  show ?thesis
    unfolding snapshot_line_of_def amount on_ok_simps inc tax using f(1) by (simp add: top refs)
qed

section \<open>Properties\<close>

text \<open>
  What a preparation expects of a staged line is what the snapshot of the line it writes
  says: the line is matched as the expected target, in every tax mode.
\<close>

theorem staged_line_reads_back:
  assumes "staged_line_to_raw mode line = Inr raw" "staged_line_fault mode sign line = None" "sign = 1 \<or> sign = - 1"
  shows "\<exists>snap. snapshot_line_of digest sign (Some (mode_json mode)) raw = Inr snap
    \<and> purchase_target_line_matches (mode_json mode) expected_total actual_total (staged_line_to_snapshot mode line) snap None"
  unfolding staged_line_snapshot [OF assms] by (simp add: purchase_target_line_matches_def)

text \<open>
  A line that has to be rebuilt for an undo reads back as the stored snapshot of the
  original line: the same identity, amounts, description and references.
\<close>

theorem rebuilt_line_reads_back:
  assumes stored: "snapshot_line_of digest sign mode original = Inr line" and sign: "sign = 1 \<or> sign = - 1"
    and tax: "tax_cents line \<in> {None, Some 0} \<or> sgn (the (tax_cents line)) = sign"
    and raw: "snapshot_line_to_raw line = Inr raw"
  shows "map_sum id (\<lambda>l. l\<lparr>raw_hash := None, category_hash := None\<rparr>) (snapshot_line_of digest sign mode raw)
    = Inr (line\<lparr>raw_hash := None, category_hash := None\<rparr>)"
proof -
  have dir: "c = 0 \<or> sgn c = sign" if "directional_cents v sign = Inr c" for v c
    using that sign by (auto simp: directional_cents_def ok_simps sgn_if split: if_splits)
  from stored obtain a i t where parts: "directional_cents (amount_or_zero original) sign = Inr a"
      "(case chain (detail_of original) ''TaxInclusiveAmt'' of None \<Rightarrow> Inr None
        | v \<Rightarrow> on_ok (directional_cents v sign) (\<lambda>c. Inr (Some c))) = Inr i"
      "(case chain (detail_of original) ''TaxAmount'' of
          None \<Rightarrow> Inr (if is_mode mode ''TaxInclusive'' then map_option (\<lambda>i. i - a) i else None)
        | v \<Rightarrow> on_ok (directional_cents v sign) (\<lambda>c. Inr (Some c))) = Inr t"
    and line: "amount_cents line = a" "inclusive_cents line = i" "tax_cents line = t"
    by (auto simp: snapshot_line_of_def on_ok_Inr)
  have "a = 0 \<or> sgn a = sign" by (rule dir [OF parts(1)])
  moreover have "case i of None \<Rightarrow> True | Some i \<Rightarrow> i = 0 \<or> sgn i = sign"
    using parts(2) dir by (auto simp: on_ok_Inr split: option.splits)
  moreover have "\<not> (is_mode mode ''TaxInclusive'' \<and> t = None \<and> i \<noteq> None)"
    using parts(3) by (auto simp: on_ok_Inr split: option.splits)
  ultimately have "amount_cents line = 0 \<or> sgn (amount_cents line) = sign"
    "case inclusive_cents line of None \<Rightarrow> True | Some i \<Rightarrow> i = 0 \<or> sgn i = sign"
    "\<not> (is_mode mode ''TaxInclusive'' \<and> tax_cents line = None \<and> inclusive_cents line \<noteq> None)"
    by (simp_all only: line simp_thms)
  moreover have "case tax_cents line of None \<Rightarrow> True | Some t \<Rightarrow> t = 0 \<or> sgn t = sign"
    using tax by (auto split: option.splits)
  ultimately show ?thesis by (simp add: rebuilt_line_snapshot [OF raw sign])
qed

end
