(* ===== verification/PurchaseFields.thy ===== *)
theory PurchaseFields
  imports PurchaseLines
begin

text \<open>
  How the preparations of \<open>PurchasePrep\<close> change a raw purchase: reading after updating
  a property or a line, cloning, and the parts of a snapshot that such updates leave alone.
\<close>

section \<open>Cloning\<close>

lemma clone_items_map: "clone_items xs = map normalized_clone xs"
  by (induction xs) auto

lemma clone_fields_map: "clone_fields fs = map (\<lambda>f. (fst f, normalized_clone (snd f))) fs"
  by (induction fs) auto

declare normalized_clone.simps(6) [simp del] normalized_clone.simps(7) [simp del]

lemma clone_arr [simp]: "normalized_clone (JArr xs) = JArr (map normalized_clone xs)"
  by (simp add: clone_items_map normalized_clone.simps)

lemma clone_obj [simp]: "normalized_clone (JObj fs) = JObj (map (\<lambda>f. (fst f, normalized_clone (snd f))) fs)"
  by (simp add: clone_fields_map normalized_clone.simps)

lemma get_clone [simp]: "get (normalized_clone v) k = map_option normalized_clone (get v k)"
  by (cases v) (simp_all add: map_of_map_snd)

lemma clone_idem [simp]: "normalized_clone (normalized_clone v) = normalized_clone v"
  by (induction v rule: json_induct) auto

lemma chain_clone [simp]: "chain (map_option normalized_clone v) k = map_option normalized_clone (chain v k)"
  by (cases v) (simp_all add: chain_def)

lemma raw_lines_clone [simp]: "raw_lines (normalized_clone raw) = map normalized_clone (raw_lines raw)"
  unfolding raw_lines_def get_clone by (cases "get raw ''Line''" rule: array_items.cases) (auto split: if_splits)

section \<open>Updating properties\<close>

lemma set_field_overwrites: "set_field k v (set_field k w fs) = set_field k v fs"
  unfolding set_field_def by (induction fs) auto

lemma set_field_same: "map_of fs (js k) = Some v \<Longrightarrow> set_field k v fs = fs"
  unfolding set_field_def by (induction fs) (auto split: if_splits)

lemma set_field_comm:
  assumes "k \<noteq> l" "map_of fs (js k) \<noteq> None" "map_of fs (js l) \<noteq> None"
  shows "set_field k v (set_field l w fs) = set_field l w (set_field k v fs)"
  using assms unfolding set_field_def
proof (induction fs)
  case (Cons f fs)
  show ?case
  proof (cases "fst f = js k \<or> fst f = js l")
    case True
    then show ?thesis using Cons.prems by (cases f) auto
  next
    case False
    then show ?thesis using Cons by (cases f) auto
  qed
qed simp

lemma map_set_field:
  "map (\<lambda>f. (fst f, g (snd f))) (set_field k v fs) = set_field k (g v) (map (\<lambda>f. (fst f, g (snd f))) fs)"
  unfolding set_field_def by (induction fs) auto

lemma foldr_delete: "foldr delete_field ks fs = filter (\<lambda>f. fst f \<notin> js ` set ks) fs"
  by (induction ks) (auto simp: delete_field_def AList.delete_eq intro!: filter_cong)

lemma filter_set_field: "js k \<in> K \<Longrightarrow> filter (\<lambda>f. fst f \<notin> K) (set_field k v fs) = filter (\<lambda>f. fst f \<notin> K) fs"
  unfolding set_field_def by (induction fs) auto

lemma get_update_field [simp]:
  "get (update_field k f v) l = (if l = k then map_option f (get v k) else get v l)"
  by (cases v) (auto simp: update_field_def split: option.splits)

lemma clone_update_field:
  assumes "\<And>u. normalized_clone (f u) = g (normalized_clone u)"
  shows "normalized_clone (update_field k f v) = update_field k g (normalized_clone v)"
  using assms by (cases v) (auto simp: update_field_def map_of_map_snd map_set_field split: option.splits)

lemma update_field_twice: "update_field k f (update_field k g v) = update_field k (f \<circ> g) v"
  by (cases v) (auto simp: update_field_def set_field_overwrites split: option.splits)

lemma update_field_comm: "k \<noteq> l \<Longrightarrow> update_field k f (update_field l g v) = update_field l g (update_field k f v)"
proof (cases v)
  case (JObj fs)
  assume kl: "k \<noteq> l"
  show ?thesis
  proof (cases "map_of fs (js k) = None \<or> map_of fs (js l) = None")
    case False
    then show ?thesis using kl JObj set_field_comm [OF kl, of fs] by (auto simp: update_field_def)
  qed (use kl JObj in \<open>auto simp: update_field_def split: option.splits\<close>)
qed (simp_all add: update_field_def)

lemma update_field_id: "(\<And>u. get v k = Some u \<Longrightarrow> f u = u) \<Longrightarrow> update_field k f v = v"
  by (cases v) (auto simp: update_field_def set_field_same split: option.splits)

lemma update_field_cong: "(\<And>u. get v k = Some u \<Longrightarrow> f u = g u) \<Longrightarrow> update_field k f v = update_field k g v"
  by (cases v) (auto simp: update_field_def split: option.splits)

section \<open>Changing the account of a line\<close>

lemma detail_with_account:
  "detail_of (with_account a raw) = map_option (update_field ''AccountRef'' (with_value a)) (detail_of raw)"
  by (simp add: with_account_def detail_of_def)

lemma get_with_account [simp]: "k \<noteq> expense_detail \<Longrightarrow> get (with_account a raw) k = get raw k"
  by (simp add: with_account_def)

lemma chain_with_account [simp]:
  "k \<noteq> ''AccountRef'' \<Longrightarrow> chain (detail_of (with_account a raw)) k = chain (detail_of raw) k"
  by (cases "detail_of raw") (simp_all add: detail_with_account chain_def)

lemma ref_value_with_account:
  "detail_ref (with_account a raw) k =
     (if k = ''AccountRef'' then (if chain (detail_of raw) ''AccountRef'' = None then None else Some (JStr a))
      else detail_ref raw k)"
proof (cases "detail_of raw")
  case (Some d)
  then show ?thesis
    by (cases "get d ''AccountRef''") (auto simp: detail_ref_def detail_with_account chain_def with_value_def)
qed (simp add: detail_ref_def detail_with_account chain_def)

lemma clone_with_value [simp]: "normalized_clone (with_value a ref) = with_value a (normalized_clone ref)"
  by (cases ref) (simp_all add: with_value_def map_set_field)

lemma clone_with_account [simp]: "normalized_clone (with_account a raw) = with_account a (normalized_clone raw)"
  unfolding with_account_def by (intro clone_update_field clone_with_value)

lemma with_value_twice: "with_value a (with_value b ref) = with_value a ref"
  by (simp add: with_value_def set_field_overwrites)

lemma with_account_twice: "with_account a (with_account b raw) = with_account a raw"
  by (simp add: with_account_def update_field_twice o_def with_value_twice)

lemma with_account_same: "detail_ref raw ''AccountRef'' = Some (JStr a) \<Longrightarrow> with_account a raw = raw"
proof -
  assume a: "detail_ref raw ''AccountRef'' = Some (JStr a)"
  have v: "with_value a ref = ref" if "get ref ''value'' = Some (JStr a)" for ref
    using that by (cases ref) (simp_all add: with_value_def set_field_same)
  show ?thesis
    unfolding with_account_def
  proof (rule update_field_id)
    fix d assume "get raw expense_detail = Some d"
    then have "chain (get d ''AccountRef'') ''value'' = Some (JStr a)" using a by (simp add: detail_ref_def detail_of_def chain_def)
    then show "update_field ''AccountRef'' (with_value a) d = d"
      by (intro update_field_id v) (simp add: chain_def)
  qed
qed

lemma category_only_with_account: "category_only_line (with_account a raw) = category_only_line raw"
proof -
  let ?s = "\<lambda>ref. JObj (delete_field ''name'' (set_field ''value'' (JStr (js ''__CATEGORY_ACCOUNT__'')) (spread (Some ref))))"
  have "?s (with_value a ref) = ?s ref" for ref
    by (simp add: with_value_def set_field_overwrites)
  then show ?thesis
    unfolding category_only_line_def clone_with_account
    by (simp add: with_account_def update_field_twice o_def)
qed

lemma category_only_clone: "category_only_line (normalized_clone raw) = category_only_line raw"
  by (simp add: category_only_line_def)

lemma snapshot_line_with_account:
  assumes "snapshot_line_of digest sign mode raw = Inr l" "chain (detail_of raw) ''AccountRef'' \<noteq> None"
  shows "snapshot_line_of digest sign mode (with_account a raw) =
    Inr (l\<lparr>snap_account := JStr a, raw_hash := Some (purchase_raw_line_hash digest (with_account a raw))\<rparr>)"
proof -
  have same: "amount_or_zero (with_account a raw) = amount_or_zero raw"
    "chain (detail_of (with_account a raw)) ''TaxAmount'' = chain (detail_of raw) ''TaxAmount''"
    "chain (detail_of (with_account a raw)) ''TaxInclusiveAmt'' = chain (detail_of raw) ''TaxInclusiveAmt''"
    by (simp_all add: amount_or_zero_def)
  from assms(1) obtain c i t where parts: "directional_cents (amount_or_zero raw) sign = Inr c"
      "(case chain (detail_of raw) ''TaxInclusiveAmt'' of None \<Rightarrow> Inr None
        | v \<Rightarrow> on_ok (directional_cents v sign) (\<lambda>c. Inr (Some c))) = Inr i"
      "(case chain (detail_of raw) ''TaxAmount'' of
          None \<Rightarrow> Inr (if is_mode mode ''TaxInclusive'' then map_option (\<lambda>i. i - c) i else None)
        | v \<Rightarrow> on_ok (directional_cents v sign) (\<lambda>c. Inr (Some c))) = Inr t"
    and l: "l = \<lparr>snap_id = nullish (get raw ''Id''), amount_cents = c, snap_description = nullish (get raw ''Description''),
          snap_account = nullish (detail_ref raw ''AccountRef''), snap_customer = nullish (detail_ref raw ''CustomerRef''),
          snap_class = nullish (detail_ref raw ''ClassRef''), snap_code = nullish (detail_ref raw ''TaxCodeRef''),
          tax_cents = t, inclusive_cents = i, raw_hash = Some (purchase_raw_line_hash digest raw),
          category_hash = Some (purchase_category_only_line_hash digest raw)\<rparr>"
    by (auto simp: snapshot_line_of_def on_ok_Inr)
  show ?thesis
    unfolding snapshot_line_of_def same parts on_ok_simps l
    using assms(2) by (simp add: ref_value_with_account purchase_category_only_line_hash_def category_only_with_account)
qed

lemma provable_with_account: "provable_line_tax sign mode (with_account a raw) = provable_line_tax sign mode raw"
proof -
  have "amount_or_zero (with_account a raw) = amount_or_zero raw" by (simp add: amount_or_zero_def)
  moreover have "chain (detail_of (with_account a raw)) ''TaxAmount'' = chain (detail_of raw) ''TaxAmount''"
    "chain (detail_of (with_account a raw)) ''TaxInclusiveAmt'' = chain (detail_of raw) ''TaxInclusiveAmt''"
    "detail_ref (with_account a raw) ''TaxCodeRef'' = detail_ref raw ''TaxCodeRef''"
    by (simp_all add: ref_value_with_account)
  ultimately show ?thesis by (simp only: provable_line_tax_def)
qed

section \<open>Changing a line of a purchase\<close>

lemma get_update_line [simp]: "k \<noteq> ''Line'' \<Longrightarrow> get (edit_line i f raw) k = get raw k"
  by (simp add: edit_line_def)

lemma raw_lines_update_line [simp]: "raw_lines (edit_line i f raw) = (raw_lines raw)[i := f (raw_lines raw ! i)]"
  unfolding raw_lines_def edit_line_def
  by (cases "get raw ''Line''" rule: array_items.cases) auto

lemma get_line_update_line: "get raw ''Line'' = Some (JArr xs) \<Longrightarrow> get (edit_line i f raw) ''Line'' = Some (JArr (xs[i := f (xs ! i)]))"
  by (simp add: edit_line_def)

lemma without_update_field: "k \<in> set ks \<Longrightarrow> without_fields ks (update_field k f raw) = without_fields ks raw"
proof (cases raw)
  case (JObj fs)
  assume "k \<in> set ks"
  then have "filter (\<lambda>f. fst f \<notin> js ` set ks) (set_field k v fs) = filter (\<lambda>f. fst f \<notin> js ` set ks) fs" for v
    by (intro filter_set_field) simp
  then show ?thesis unfolding without_fields_def foldr_delete JObj
    by (cases "map_of fs (js k)") (simp_all only: update_field_def json.case option.case spread.simps)
qed (simp_all add: without_fields_def update_field_def)

lemma preserved_update_field:
  "k \<in> {''SyncToken'', ''Line''} \<Longrightarrow> preserved_entity (update_field k f raw) = preserved_entity raw"
  unfolding preserved_entity_def by (rule without_update_field) auto

lemma purchase_sign_update_line [simp]: "purchase_sign (edit_line i f raw) = purchase_sign raw"
  by (simp add: purchase_sign_def)

end
