(* ===== verification/PurchaseRestore.thy ===== *)
theory PurchaseRestore
  imports PurchaseProofs
begin

text \<open>
  The category-only change of a purchase line and its undo
  (\<open>preparePurchaseRestore\<close> of \<open>lib/qbo/purchaseTax.ts\<close>).
\<close>

section \<open>A category-only change\<close>

lemma preserve_Inr:
  assumes "prepare_preserve_current digest raw staged before current rid holding = Inr p"
  obtains i line account target where "holding = [i]" "staged_lines staged = [line]" "staged_category line = JStr account"
    "trim account \<noteq> []" "required_identity (get (raw_lines raw ! i) ''Id'') \<noteq> Inl ReferenceMissing"
    "chain (detail_of (raw_lines raw ! i)) ''AccountRef'' \<noteq> None"
    "snapshot_line_of digest (purchase_sign (edit_line i (with_account account) (normalized_clone raw)))
       (get (edit_line i (with_account account) (normalized_clone raw)) ''GlobalTaxCalculation'')
       (raw_lines (edit_line i (with_account account) (normalized_clone raw)) ! i) = Inr target"
    "p = prepared_write digest Recategorize rid (edit_line i (with_account account) (normalized_clone raw)) current
       (expected_base current (snap_mode current) (snap_total_tax current) (Some PreserveCurrent)
          [target] (map canonical_snapshot_line (without_indexes holding (snap_lines current))))"
proof -
  have "\<exists>i line. holding = [i] \<and> staged_lines staged = [line]"
    using assms by (auto simp: prepare_preserve_current_def length_Suc_conv split: if_splits)
  then obtain i line where one: "holding = [i]" "staged_lines staged = [line]" by blast
  from assms show thesis
    unfolding prepare_preserve_current_def Let_def if_Inl_Inr on_ok_Inr required_identity_Inr one list.sel
    by (elim conjE exE) (rule that [OF one], auto simp: one)
qed

lemma holding_one:
  assumes "filter P [0..<n] = [i]"
  shows "i < n" "P i" "\<And>j. j < n \<Longrightarrow> P j \<longleftrightarrow> j = i"
proof -
  have "set (filter P [0..<n]) = {i}" using assms by simp
  then show "i < n" "P i" "\<And>j. j < n \<Longrightarrow> P j \<longleftrightarrow> j = i" by auto
qed

text \<open>
  C28. A category-only change sends the purchase with the account of its one holding line
  replaced and nothing else changed: every other field and line is what it was, and the changed
  line has the same category-only fingerprint as before.
\<close>

theorem category_only_change:
  assumes "prepare_purchase_recategorization digest raw ids staged before rid = Inr p" "staged_disposition staged = Some PreserveCurrent"
  shows "\<exists>i account. filter (\<lambda>j. held_in ids (raw_lines raw ! j)) [0..<length (raw_lines raw)] = [i]
    \<and> map staged_category (staged_lines staged) = [JStr account]
    \<and> pp_body p = edit_line i (with_account account) (normalized_clone raw)
    \<and> detail_ref (raw_lines (pp_body p) ! i) ''AccountRef'' = Some (JStr account)
    \<and> raw_lines (pp_body p) = (map normalized_clone (raw_lines raw))[i := raw_lines (pp_body p) ! i]
    \<and> purchase_category_only_line_hash digest (raw_lines (pp_body p) ! i) = purchase_category_only_line_hash digest (raw_lines raw ! i)
    \<and> purchase_preserved_hash digest (pp_body p) = purchase_preserved_hash digest raw"
proof -
  obtain current holding where s: "map_purchase_tax_snapshot digest raw = Inr current"
    "holding = filter (\<lambda>j. held_in ids (raw_lines raw ! j)) [0..<length (raw_lines raw)]"
    "prepare_preserve_current digest raw staged before current rid holding = Inr p"
    using assms(1) by (elim prepare_stages) (simp add: assms(2))
  obtain i line account where h: "holding = [i]" "staged_lines staged = [line]" "staged_category line = JStr account"
    "chain (detail_of (raw_lines raw ! i)) ''AccountRef'' \<noteq> None"
    "pp_body p = edit_line i (with_account account) (normalized_clone raw)"
    using s(3) by (elim preserve_Inr) (simp add: prepared_write_def)
  have i: "i < length (raw_lines raw)" using holding_one(1) s(2) h(1) by metis
  have line: "raw_lines (pp_body p) ! i = with_account account (normalized_clone (raw_lines raw ! i))"
    using i by (simp add: h(5))
  have ref: "chain (detail_of (normalized_clone (raw_lines raw ! i))) ''AccountRef'' \<noteq> None"
    using h(4) by (simp add: detail_of_def)
  have "purchase_preserved_hash digest (pp_body p) = purchase_preserved_hash digest (normalized_clone raw)"
    by (simp add: purchase_preserved_hash_def h(5) edit_line_def preserved_update_field)
  also have "\<dots> = purchase_preserved_hash digest raw"
  proof -
    have "normalized_clone (preserved_entity (normalized_clone raw)) = normalized_clone (preserved_entity raw)"
      by (cases raw) (auto simp: preserved_entity_def without_fields_def foldr_delete filter_map o_def simp del: foldr_Cons foldr.simps)
    then show ?thesis by (simp add: purchase_preserved_hash_def fingerprint_def canonical_json_def)
  qed
  finally have "purchase_preserved_hash digest (pp_body p) = purchase_preserved_hash digest raw" .
  moreover have "detail_ref (raw_lines (pp_body p) ! i) ''AccountRef'' = Some (JStr account)"
    using ref unfolding line by (simp add: ref_value_with_account)
  moreover have "purchase_category_only_line_hash digest (raw_lines (pp_body p) ! i) = purchase_category_only_line_hash digest (raw_lines raw ! i)"
    unfolding line by (simp add: purchase_category_only_line_hash_def category_only_with_account category_only_clone)
  moreover have "raw_lines (pp_body p) = (map normalized_clone (raw_lines raw))[i := raw_lines (pp_body p) ! i]"
    using i unfolding line by (simp add: h(5))
  moreover have "filter (\<lambda>j. held_in ids (raw_lines raw ! j)) [0..<length (raw_lines raw)] = [i]" using s(2) h(1) by simp
  moreover have "map staged_category (staged_lines staged) = [JStr account]" using h(2,3) by simp
  moreover note h(5)
  ultimately show ?thesis by - (intro exI [of _ i] exI [of _ account] conjI, assumption+)
qed

section \<open>The snapshot of a changed purchase\<close>

lemma map_ok_map: "map f xs = map g ys \<Longrightarrow> map_ok f xs = map_ok g ys"
proof (induction xs arbitrary: ys)
  case (Cons x xs)
  then show ?case by (cases ys) auto
qed simp

lemma snapshot_cong:
  assumes raw: "map_purchase_tax_snapshot digest raw = Inr cur"
    and same: "\<And>k. k \<notin> {''Line'', ''SyncToken''} \<Longrightarrow> get raw' k = get raw k" "preserved_entity raw' = preserved_entity raw"
    and token: "get raw' ''SyncToken'' = Some (JStr t)" "trim t \<noteq> []"
    and lines: "get raw' ''Line'' = Some (JArr xs)"
      "list_all2 (\<lambda>r l. snapshot_line_of digest (purchase_sign raw) (get raw ''GlobalTaxCalculation'') r = Inr l) xs ls"
      "map (provable_line_tax (purchase_sign raw) (get raw ''GlobalTaxCalculation'')) xs
        = map (provable_line_tax (purchase_sign raw) (get raw ''GlobalTaxCalculation'')) (raw_lines raw)"
  shows "map_purchase_tax_snapshot digest raw' = Inr (cur\<lparr>snap_token := t, snap_lines := ls\<rparr>)"
proof -
  have line: "get raw ''Line'' = Some (JArr (raw_lines raw))" by (rule snapshot_Inr(1) [OF raw])
  have sign: "purchase_sign raw' = purchase_sign raw" by (simp add: purchase_sign_def same(1))
  have snaps: "map_ok (snapshot_line_of digest (purchase_sign raw) (get raw ''GlobalTaxCalculation'')) xs = Inr ls"
    using lines(2) by (simp add: map_ok_Inr)
  have taxes: "map_ok (provable_line_tax (purchase_sign raw) (get raw ''GlobalTaxCalculation'')) xs
      = map_ok (provable_line_tax (purchase_sign raw) (get raw ''GlobalTaxCalculation'')) (raw_lines raw)"
    by (rule map_ok_map [OF lines(3)])
  have tok: "non_blank (Some (JStr t)) = Some t" using token(2) by simp
  have hash: "purchase_preserved_hash digest raw' = purchase_preserved_hash digest raw"
    by (simp add: purchase_preserved_hash_def same(2))
  have gets: "get raw' ''Id'' = get raw ''Id''" "get raw' ''TxnDate'' = get raw ''TxnDate''" "get raw' ''TotalAmt'' = get raw ''TotalAmt''"
    "get raw' ''GlobalTaxCalculation'' = get raw ''GlobalTaxCalculation''" "get raw' ''AccountRef'' = get raw ''AccountRef''"
    "get raw' ''TxnTaxDetail'' = get raw ''TxnTaxDetail''"
    by (simp_all add: same(1))
  obtain qbo_id token' date amount where f: "non_blank (get raw ''Id'') = Some qbo_id" "non_blank (get raw ''SyncToken'') = Some token'"
    "non_blank (get raw ''TxnDate'') = Some date" "get raw ''TotalAmt'' = Some amount"
    using raw unfolding map_purchase_tax_snapshot_def line
    by (cases "non_blank (get raw ''Id'')"; cases "non_blank (get raw ''SyncToken'')"; cases "non_blank (get raw ''TxnDate'')";
        cases "get raw ''TotalAmt''") simp_all
  from raw [unfolded map_purchase_tax_snapshot_def Let_def line f option.case json.case prod.case]
  obtain payment tx derived tot aggregate snaps' where
    g: "required_identity (chain (get raw ''AccountRef'') ''value'') = Inr payment"
      "map_ok (provable_line_tax (purchase_sign raw) (get raw ''GlobalTaxCalculation'')) (raw_lines raw) = Inr tx"
      "(if get raw ''GlobalTaxCalculation'' = None \<or> None \<in> set tx then Inr None
        else on_ok (safe_cent_sum (map (of_cents \<circ> the) tx)) (\<lambda>t. Inr (Some t))) = Inr derived"
      "directional_cents (Some amount) (purchase_sign raw) = Inr tot"
      "(case chain (get raw ''TxnTaxDetail'') ''TotalTax'' of
          None \<Rightarrow> Inr derived | Some a \<Rightarrow> on_ok (directional_cents (Some a) (purchase_sign raw)) (\<lambda>t. Inr (Some t))) = Inr aggregate"
    and cur: "cur = \<lparr>snap_qbo_id = qbo_id, snap_token = token', snap_total = tot, snap_payment = JStr payment,
                   snap_date = date, snap_refund = (purchase_sign raw = 1), snap_mode = nullish (get raw ''GlobalTaxCalculation''),
                   snap_total_tax = aggregate, snap_preserved = Some (purchase_preserved_hash digest raw), snap_lines = snaps'\<rparr>"
    unfolding on_ok_Inr sum.inject by (elim exE conjE) (rule that, assumption+, erule sym)
  show ?thesis
    unfolding map_purchase_tax_snapshot_def Let_def lines(1) gets token(1) tok f sign option.case json.case prod.case
      g taxes on_ok_simps snaps hash cur
    by simp
qed

section \<open>Matching the stored purchase\<close>

lemma take_first_append:
  "(\<And>y. y \<in> set ys \<Longrightarrow> \<not> P y) \<Longrightarrow> P x \<Longrightarrow> take_first P (ys @ x # xs) = Some (x, ys @ xs)"
  by (induction ys) auto

lemma remove_untouched_filter:
  "distinct (map f (ys @ xs)) \<Longrightarrow>
     remove_untouched f (map f (filter P xs)) (ys @ xs) = Some (ys @ filter (\<lambda>x. \<not> P x) xs)"
proof (induction xs arbitrary: ys)
  case (Cons x xs)
  show ?case
  proof (cases "P x")
    case True
    have "take_first (\<lambda>y. f y = f x) (ys @ x # xs) = Some (x, ys @ xs)"
      using Cons.prems by (intro take_first_append) (auto simp: image_iff)
    then show ?thesis using True Cons by simp
  next
    case False
    then show ?thesis using Cons.IH [of "ys @ [x]"] Cons.prems by simp
  qed
qed simp

lemma take_first_map: "take_first P (map f xs) = map_option (\<lambda>(y, ys). (f y, map f ys)) (take_first (P \<circ> f) xs)"
  by (induction xs) (auto simp: option.map_comp o_def case_prod_beta)

lemma remove_untouched_map: "remove_untouched g hs (map f xs) = map_option (map f) (remove_untouched (g \<circ> f) hs xs)"
  by (induction hs arbitrary: xs) (auto simp: take_first_map o_def split: option.splits)

lemma remove_untouched_lines:
  assumes "distinct (map f xs)" "i < length xs"
  shows "remove_untouched f (map f (without_indexes [i] xs)) xs = Some [xs ! i]"
    "remove_untouched (f \<circ> fst) (map f (without_indexes [i] xs)) (zip xs [0..<length xs]) = Some [(xs ! i, i)]"
proof -
  let ?zs = "zip xs [0..<length xs]"
  have fs: "map (f \<circ> fst) ?zs = map f xs" by (simp add: map_fst_zip flip: map_map)
  have kept: "map f (without_indexes [i] xs) = map (f \<circ> fst) (filter (\<lambda>p. snd p \<notin> set [i]) ?zs)"
    by (simp add: without_indexes_def)
  have one: "filter (\<lambda>p. \<not> snd p \<notin> set [i]) ?zs = [(xs ! i, i)]"
  proof (rule filter_unique)
    show "distinct ?zs" by (rule distinct_zipI2) simp
    show "(xs ! i, i) \<in> set ?zs" using assms(2) by (force simp: in_set_zip)
    show "(\<not> snd p \<notin> set [i]) \<longleftrightarrow> p = (xs ! i, i)" if p: "p \<in> set ?zs" for p
    proof -
      obtain n where "p = (xs ! n, n)" using p by (force simp: in_set_zip prod_eq_iff)
      then show ?thesis by auto
    qed
  qed
  show "remove_untouched (f \<circ> fst) (map f (without_indexes [i] xs)) ?zs = Some [(xs ! i, i)]"
    unfolding kept using remove_untouched_filter [of "f \<circ> fst" "[]" ?zs] assms(1) fs one by simp
  then show "remove_untouched f (map f (without_indexes [i] xs)) xs = Some [xs ! i]"
    using remove_untouched_map [of f "map f (without_indexes [i] xs)" fst ?zs] by (simp add: map_fst_zip)
qed

section \<open>Undoing a category-only change\<close>

lemma required_identity_not_Inl: "required_identity v \<noteq> Inl ReferenceMissing \<longleftrightarrow> (\<exists>s. v = Some (JStr s) \<and> trim s \<noteq> [])"
  by (cases v rule: required_identity.cases) auto

lemma snapshot_preserved: "map_purchase_tax_snapshot digest raw = Inr snap \<Longrightarrow> snap_preserved snap \<noteq> None"
  by (auto simp: map_purchase_tax_snapshot_def on_ok_Inr Let_def split: option.splits json.splits)

lemma matches_itself:
  assumes "snap_id l \<noteq> JNull" "category_hash l \<noteq> None"
  shows "purchase_target_line_matches mode expected_total actual_total l l (Some PreserveCurrent)"
  using assms by (simp add: purchase_target_line_matches_def)

lemma update_line_as_field:
  "get raw ''Line'' = Some (JArr xs) \<Longrightarrow> edit_line i f raw = update_field ''Line'' (\<lambda>v. JArr (xs[i := f (xs ! i)])) raw"
  unfolding edit_line_def by (rule update_field_cong) simp

lemma snapshot_with_token:
  assumes "map_purchase_tax_snapshot digest raw = Inr cur" "trim token \<noteq> []"
  shows "map_purchase_tax_snapshot digest (update_field ''SyncToken'' (\<lambda>v. JStr token) raw) = Inr (cur\<lparr>snap_token := token\<rparr>)"
proof -
  have "map_purchase_tax_snapshot digest (update_field ''SyncToken'' (\<lambda>v. JStr token) raw)
      = Inr (cur\<lparr>snap_token := token, snap_lines := snap_lines cur\<rparr>)"
  proof (rule snapshot_cong [OF assms(1) _ _ _ assms(2) _ snapshot_Inr(2) [OF assms(1)]])
    show "get (update_field ''SyncToken'' (\<lambda>v. JStr token) raw) ''Line'' = Some (JArr (raw_lines raw))"
      by (simp add: snapshot_Inr(1) [OF assms(1)])
  qed (simp_all add: preserved_update_field snapshot_Inr(5) [OF assms(1)])
  then show ?thesis by simp
qed

lemma snapshot_with_account:
  assumes raw: "map_purchase_tax_snapshot digest raw = Inr cur" and i: "i < length (raw_lines raw)"
    and ref: "chain (detail_of (raw_lines raw ! i)) ''AccountRef'' \<noteq> None"
  shows "map_purchase_tax_snapshot digest (edit_line i (with_account a) raw) = Inr (cur\<lparr>snap_lines := (snap_lines cur)
    [i := (snap_lines cur ! i)\<lparr>snap_account := JStr a,
            raw_hash := Some (purchase_raw_line_hash digest (with_account a (raw_lines raw ! i)))\<rparr>]\<rparr>)"
    (is "_ = Inr (cur\<lparr>snap_lines := ?ls\<rparr>)")
proof -
  note s = snapshot_Inr [OF raw]
  let ?raw = "edit_line i (with_account a) raw"
  have "snapshot_line_of digest (purchase_sign raw) (get raw ''GlobalTaxCalculation'') (raw_lines raw ! i) = Inr (snap_lines cur ! i)"
    using s(2) i by (simp add: list_all2_conv_all_nth)
  note new = snapshot_line_with_account [OF this ref, of a]
  have "map_purchase_tax_snapshot digest ?raw = Inr (cur\<lparr>snap_token := snap_token cur, snap_lines := ?ls\<rparr>)"
  proof (rule snapshot_cong [OF raw])
    show "get ?raw ''Line'' = Some (JArr ((raw_lines raw)[i := with_account a (raw_lines raw ! i)]))"
      by (rule get_line_update_line [OF s(1)])
    show "list_all2 (\<lambda>r l. snapshot_line_of digest (purchase_sign raw) (get raw ''GlobalTaxCalculation'') r = Inr l)
        ((raw_lines raw)[i := with_account a (raw_lines raw ! i)]) ?ls"
      by (rule list_all2_update_cong [OF s(2)]) (rule new)
    let ?f = "provable_line_tax (purchase_sign raw) (get raw ''GlobalTaxCalculation'')"
    have "map ?f ((raw_lines raw)[i := with_account a (raw_lines raw ! i)]) = (map ?f (raw_lines raw))[i := map ?f (raw_lines raw) ! i]"
      using i by (simp add: map_update provable_with_account)
    then show "map ?f ((raw_lines raw)[i := with_account a (raw_lines raw ! i)]) = map ?f (raw_lines raw)"
      by (simp only: list_update_id)
    show "trim (snap_token cur) \<noteq> []" by (rule s(6))
  qed (simp_all add: s(5) edit_line_def preserved_update_field)
  then show ?thesis by simp
qed

lemma without_indexes_update:
  assumes "i \<in> set is"
  shows "without_indexes is (xs[i := y]) = without_indexes is xs"
proof -
  have "map fst (filter (\<lambda>p. snd p \<notin> set is) (zip (ys[j := y]) [k..<k + length ys]))
      = map fst (filter (\<lambda>p. snd p \<notin> set is) (zip ys [k..<k + length ys]))" if "k + j \<in> set is" for ys k j
    using that
  proof (induction ys arbitrary: k j)
    case (Cons z ys)
    have up: "[k..<k + length (z # ys)] = k # [Suc k..<Suc k + length ys]" by (simp add: upt_rec)
    show ?case using Cons.IH [of "Suc k" "j - 1"] Cons.prems unfolding up by (cases j) auto
  qed simp
  from this [of 0 i xs] show ?thesis using assms by (simp add: without_indexes_def)
qed

lemma clone_update_line:
  assumes "get raw ''Line'' = Some (JArr xs)" "i < length xs"
  shows "normalized_clone (edit_line i (with_account a) raw) = edit_line i (with_account a) (normalized_clone raw)"
proof -
  have "get (normalized_clone raw) ''Line'' = Some (JArr (map normalized_clone xs))" using assms(1) by simp
  note new = update_line_as_field [OF this]
  have "normalized_clone (edit_line i (with_account a) raw)
      = update_field ''Line'' (\<lambda>v. normalized_clone (JArr (xs[i := with_account a (xs ! i)]))) (normalized_clone raw)"
    unfolding update_line_as_field [OF assms(1)] by (rule clone_update_field) simp
  then show ?thesis using assms(2) unfolding new by (simp add: map_update)
qed

lemma undo_line:
  assumes "get raw ''Line'' = Some (JArr xs)" "i < length xs" "detail_ref (xs ! i) ''AccountRef'' = Some (JStr a0)"
  shows "edit_line i (with_account a0) (update_field ''SyncToken'' t (edit_line i (with_account a) raw)) = update_field ''SyncToken'' t raw"
proof -
  let ?F = "\<lambda>a v. case v of JArr xs \<Rightarrow> JArr (xs[i := with_account a (xs ! i)]) | _ \<Rightarrow> v"
  have "edit_line i (with_account a0) (update_field ''SyncToken'' t (edit_line i (with_account a) raw))
      = update_field ''SyncToken'' t (update_field ''Line'' (?F a0) (update_field ''Line'' (?F a) raw))"
    unfolding edit_line_def by (rule update_field_comm) simp
  also have "update_field ''Line'' (?F a0) (update_field ''Line'' (?F a) raw) = update_field ''Line'' (?F a0 \<circ> ?F a) raw"
    by (rule update_field_twice)
  also have "\<dots> = raw"
    by (rule update_field_id) (use assms in \<open>simp add: with_account_twice with_account_same\<close>)
  finally show ?thesis .
qed

text \<open>
  A category-only change as the provider stores it, under a new token: the line \<open>i\<close>, the account
  \<open>a0\<close> it had, its snapshot \<open>l\<close> and the snapshot \<open>new\<close> of what is stored.
\<close>

definition stored_change ::
  "(jstring \<Rightarrow> jstring) \<Rightarrow> json \<Rightarrow> json \<Rightarrow> jstring \<Rightarrow> purchase_prepared \<Rightarrow> nat \<Rightarrow> jstring \<Rightarrow> snapshot_line \<Rightarrow> snapshot_line
     \<Rightarrow> purchase_snapshot \<Rightarrow> bool" where
  "stored_change digest raw stored token p i a0 l target new \<longleftrightarrow>
     i < length (raw_lines raw) \<and> map_purchase_tax_snapshot digest raw = Inr (pp_before p)
     \<and> l = snap_lines (pp_before p) ! i \<and> snap_account l = JStr a0 \<and> trim a0 \<noteq> []
     \<and> snap_id target = snap_id l \<and> snap_id target \<noteq> JNull \<and> category_hash target \<noteq> None
     \<and> new = (pp_before p)\<lparr>snap_lines := (snap_lines (pp_before p))[i := target], snap_token := token\<rparr>
     \<and> map_purchase_tax_snapshot digest stored = Inr new
     \<and> pp_operation p = Recategorize \<and> pp_type p = js ''Purchase''
     \<and> pp_expected p = expected_base (pp_before p) (snap_mode (pp_before p)) (snap_total_tax (pp_before p)) (Some PreserveCurrent)
         [target] (map canonical_snapshot_line (without_indexes [i] (snap_lines (pp_before p))))
     \<and> edit_line i (with_account a0) stored = update_field ''SyncToken'' (\<lambda>v. JStr token) raw
     \<and> normalized_clone stored = stored \<and> chain (detail_of (raw_lines stored ! i)) ''AccountRef'' \<noteq> None"

lemma category_change_stored:
  assumes prep: "prepare_purchase_recategorization digest raw ids staged before rid = Inr p"
    and mode: "staged_disposition staged = Some PreserveCurrent" and data: "normalized_clone raw = raw"
    and stored: "stored = update_field ''SyncToken'' (\<lambda>v. JStr token) (pp_body p)" "trim token \<noteq> []"
  shows "\<exists>i a0 l target new. stored_change digest raw stored token p i a0 l target new"
proof -
  obtain cur holding where s: "map_purchase_tax_snapshot digest raw = Inr cur"
    "holding = filter (\<lambda>j. held_in ids (raw_lines raw ! j)) [0..<length (raw_lines raw)]"
    "\<And>j. j \<in> set holding \<Longrightarrow> holding_line_ok (raw_lines raw ! j) = Inr ()"
    "prepare_preserve_current digest raw staged before cur rid holding = Inr p"
    using prep by (elim prepare_stages) (simp add: mode)
  obtain i line account target where hs: "holding = [i]" "staged_lines staged = [line]" "staged_category line = JStr account"
    "trim account \<noteq> []" "required_identity (get (raw_lines raw ! i) ''Id'') \<noteq> Inl ReferenceMissing"
    "chain (detail_of (raw_lines raw ! i)) ''AccountRef'' \<noteq> None"
    "snapshot_line_of digest (purchase_sign (edit_line i (with_account account) raw))
       (get (edit_line i (with_account account) raw) ''GlobalTaxCalculation'')
       (raw_lines (edit_line i (with_account account) raw) ! i) = Inr target"
    "p = prepared_write digest Recategorize rid (edit_line i (with_account account) raw) cur
       (expected_base cur (snap_mode cur) (snap_total_tax cur) (Some PreserveCurrent)
          [target] (map canonical_snapshot_line (without_indexes holding (snap_lines cur))))"
    by (rule preserve_Inr [OF s(4), unfolded data])
  note h = hs(1,5-8) and snap = snapshot_Inr [OF s(1)]
  have i: "i < length (raw_lines raw)" "held_in ids (raw_lines raw ! i)" using holding_one s(2) h(1) by metis+
  define l where "l = snap_lines cur ! i"
  have l: "snapshot_line_of digest (purchase_sign raw) (get raw ''GlobalTaxCalculation'') (raw_lines raw ! i) = Inr l"
    using snap(2) i(1) by (simp add: l_def list_all2_conv_all_nth)
  have target: "target = l\<lparr>snap_account := JStr account, raw_hash := Some (purchase_raw_line_hash digest (with_account account (raw_lines raw ! i)))\<rparr>"
    using h(4) i(1) snapshot_line_with_account [OF l h(3), of account] by simp
  have body: "map_purchase_tax_snapshot digest (pp_body p) = Inr (cur\<lparr>snap_lines := (snap_lines cur)[i := target]\<rparr>)"
    using snapshot_with_account [OF s(1) i(1) h(3), of account] by (simp add: h(5) prepared_write_def target l_def)
  have current: "map_purchase_tax_snapshot digest stored = Inr (cur\<lparr>snap_lines := (snap_lines cur)[i := target], snap_token := token\<rparr>)"
    unfolding stored(1) by (rule snapshot_with_token [OF body stored(2)])
  have id: "snap_id target = snap_id l" "snap_id target \<noteq> JNull" "category_hash target \<noteq> None"
    using l h(2) by (auto simp: target snapshot_line_of_def on_ok_Inr required_identity_not_Inl)
  obtain a0 where a0: "detail_ref (raw_lines raw ! i) ''AccountRef'' = Some (JStr a0)" "trim a0 \<noteq> []"
    using i(2) s(3) [of i] h(1)
    by (auto simp: held_in_def holding_line_ok_def split: option.splits json.splits if_splits)
  have acc: "snap_account l = JStr a0" using l a0(1) by (auto simp: snapshot_line_of_def on_ok_Inr)
  have undone: "edit_line i (with_account a0) stored = update_field ''SyncToken'' (\<lambda>v. JStr token) raw"
    unfolding stored(1) h(5) prepared_write_def purchase_prepared.select_convs by (rule undo_line [OF snap(1) i(1) a0(1)])
  have "normalized_clone stored = update_field ''SyncToken'' (\<lambda>v. JStr token) (normalized_clone (pp_body p))"
    unfolding stored(1) by (rule clone_update_field) simp
  then have clone: "normalized_clone stored = stored"
    using clone_update_line [OF snap(1) i(1), of account] by (simp add: stored(1) h(5) prepared_write_def data)
  have "raw_lines (update_field ''SyncToken'' t v) = raw_lines v" for t v by (simp add: raw_lines_def)
  then have "raw_lines stored = (raw_lines raw)[i := with_account account (raw_lines raw ! i)]"
    by (simp add: stored(1) h(5) prepared_write_def)
  then have ref: "chain (detail_of (raw_lines stored ! i)) ''AccountRef'' \<noteq> None"
    using i(1) h(3) by (cases "detail_of (raw_lines raw ! i)") (simp_all add: detail_with_account chain_def)
  have "stored_change digest raw stored token p i a0 l target (cur\<lparr>snap_lines := (snap_lines cur)[i := target], snap_token := token\<rparr>)"
    unfolding stored_change_def using i(1) s(1) acc a0(2) id current undone clone ref
    by (simp add: h(1,5) prepared_write_def l_def)
  then show ?thesis by blast
qed

text \<open>
  C12. The undo of a category-only change: once the provider has stored the change under a new
  token, the prepared restore sends the original purchase with that token, so that the account of
  the line is again the holding account and every other field is the original one. (No two lines
  of the purchase read alike, before and after.)
\<close>

theorem restore_undoes_category_change:
  assumes prep: "prepare_purchase_recategorization digest raw ids staged before rid = Inr p"
    and mode: "staged_disposition staged = Some PreserveCurrent" and data: "normalized_clone raw = raw"
    and stored: "stored = update_field ''SyncToken'' (\<lambda>v. JStr token) (pp_body p)" "trim token \<noteq> []" "trim rid' \<noteq> []"
    and apart: "distinct (map canonical_snapshot_line (snap_lines (pp_before p)))"
      "on_ok (map_purchase_tax_snapshot digest stored) (\<lambda>s. Inr (distinct (map canonical_snapshot_line (snap_lines s)))) = Inr True"
  shows "map_sum id pp_body (prepare_purchase_restore digest stored p rid')
    = Inr (update_field ''SyncToken'' (\<lambda>v. JStr token) raw)"
proof -
  obtain i a0 l target new where "stored_change digest raw stored token p i a0 l target new"
    using category_change_stored [OF prep mode data stored(1,2)] by blast
  note c = this [unfolded stored_change_def]
  have raw: "map_purchase_tax_snapshot digest raw = Inr (pp_before p)" using c by blast
  have len: "length (snap_lines (pp_before p)) = length (raw_lines raw)" using snapshot_Inr(2) [OF raw] by (simp add: list_all2_lengthD)
  have at: "snap_lines new ! i = target" "i < length (snap_lines new)" using c by (simp_all add: len)
  have kept: "without_indexes [i] (snap_lines new) = without_indexes [i] (snap_lines (pp_before p))"
    using c by (simp add: without_indexes_update)
  have apart_new: "distinct (map canonical_snapshot_line (snap_lines new))" using apart(2) c by simp
  have "purchase_target_line_matches m x y target target (Some PreserveCurrent)" for m x y
    using c by (intro matches_itself) auto
  then have expected: "assert_expected_current (pp_expected p) new = Inr [i]"
    using remove_untouched_lines(2) [OF apart_new at(2)] snapshot_preserved [OF raw] c at(1) kept
    by (simp add: assert_expected_current_def expected_base_def purchase_total_tax_matches_def)
  have befores: "before_target_lines p = Inr [l]"
    using remove_untouched_lines(1) [OF apart(1)] c by (simp add: before_target_lines_def expected_base_def len)
  have undo: "snap_account l = JStr a0" "trim a0 \<noteq> []" "normalized_clone stored = stored"
    "chain (detail_of (raw_lines stored ! i)) ''AccountRef'' \<noteq> None"
    "edit_line i (with_account a0) stored = update_field ''SyncToken'' (\<lambda>v. JStr token) raw"
    using c by blast+
  have "prepare_purchase_restore digest stored p rid' = restore_preserve_current digest stored p new rid' [i] [l]"
    using stored(3) c expected befores by (simp add: prepare_purchase_restore_def expected_base_def)
  moreover have "map_sum id pp_body (restore_preserve_current digest stored p new rid' [i] [l])
      = Inr (update_field ''SyncToken'' (\<lambda>v. JStr token) raw)"
    using undo(4) snapshot_with_token [OF raw stored(2)]
    by (simp add: restore_preserve_current_def Let_def prepared_write_def undo(1-3,5))
  ultimately show ?thesis by (simp only:)
qed

end
