(* ===== verification/PurchaseWitness.thy ===== *)
theory PurchaseWitness
  imports PurchaseRestore
begin

text \<open>
  The properties of the purchase preparations at a concrete purchase with one kept line and one
  holding line of a dollar each; the digest is the identity.
\<close>

definition sample_purchase_line :: "string \<Rightarrow> string \<Rightarrow> fields \<Rightarrow> json" where
  "sample_purchase_line i account code = JObj
     [(js ''Id'', JStr (js i)), (js ''Amount'', JNum (Fin 1)), (js ''DetailType'', JStr (js expense_detail)),
      (js expense_detail, JObj (ref_field ''AccountRef'' (JStr (js account)) # code))]"

abbreviation kept_line :: json where
  "kept_line \<equiv> sample_purchase_line ''1'' ''k'' []"

abbreviation coded_line :: "string \<Rightarrow> json" where
  "coded_line account \<equiv> sample_purchase_line ''2'' account [ref_field ''TaxCodeRef'' (JStr (js ''t''))]"

abbreviation holding_line :: json where
  "holding_line \<equiv> coded_line ''h''"

definition sample_purchase :: json where
  "sample_purchase = JObj
     [(js ''Id'', JStr (js ''7'')), (js ''SyncToken'', JStr (js ''0'')), (js ''TxnDate'', JStr (js ''d'')),
      (js ''TotalAmt'', JNum (Fin 1)), ref_field ''AccountRef'' (JStr (js ''bank'')),
      (js ''GlobalTaxCalculation'', mode_json NotApplicable),
      (js ''Line'', JArr [kept_line, holding_line])]"

definition sample_snap_line :: "(jstring \<Rightarrow> jstring) \<Rightarrow> string \<Rightarrow> string \<Rightarrow> json \<Rightarrow> json \<Rightarrow> snapshot_line" where
  "sample_snap_line digest i account code raw =
     \<lparr>snap_id = JStr (js i), amount_cents = - 100, snap_description = JNull, snap_account = JStr (js account),
      snap_customer = JNull, snap_class = JNull, snap_code = code, tax_cents = None, inclusive_cents = None,
      raw_hash = Some (purchase_raw_line_hash digest raw),
      category_hash = Some (purchase_category_only_line_hash digest raw)\<rparr>"

definition sample_snapshot :: "(jstring \<Rightarrow> jstring) \<Rightarrow> purchase_snapshot" where
  "sample_snapshot digest =
     \<lparr>snap_qbo_id = js ''7'', snap_token = js ''0'', snap_total = - 100, snap_payment = JStr (js ''bank''), snap_date = js ''d'',
      snap_refund = False, snap_mode = mode_json NotApplicable, snap_total_tax = None,
      snap_preserved = Some (purchase_preserved_hash digest sample_purchase),
      snap_lines = [sample_snap_line digest ''1'' ''k'' JNull kept_line, sample_snap_line digest ''2'' ''h'' (JStr (js ''t'')) holding_line]\<rparr>"

lemma one_dollar: "exact_cents (Some (JNum (Fin 1))) = Inr 100"
proof -
  have "dollars 100 = Fin 1" using fl_of_int [of 1] by (simp add: dollars_def)
  then show ?thesis using exact_cents_dollars [of 100] by simp
qed

lemma trim_js [simp]:
  "trim (js ''0'') = js ''0''" "trim (js ''7'') = js ''7''" "trim (js ''d'') = js ''d''" "trim (js ''bank'') = js ''bank''"
  "trim (js ''h'') = js ''h''" "trim (js ''k'') = js ''k''" "trim (js ''t'') = js ''t''" "trim (js ''r'') = js ''r''"
  "trim (js ''1'') = js ''1''" "trim (js ''2'') = js ''2''" "trim (js ''new'') = js ''new''"
  by code_simp+

lemma sample_directional: "directional_cents (Some (JNum (Fin 1))) (- 1) = Inr (- 100)"
  by (simp add: directional_cents_def one_dollar del: exact_cents.simps)

lemma sample_sign: "purchase_sign sample_purchase = - 1"
  by (simp add: purchase_sign_def sample_purchase_def)

lemma sample_line_snapshot:
  "snapshot_line_of digest (- 1) (Some (mode_json NotApplicable)) kept_line = Inr (sample_snap_line digest ''1'' ''k'' JNull kept_line)"
  "snapshot_line_of digest (- 1) (Some (mode_json NotApplicable)) (coded_line account)
     = Inr (sample_snap_line digest ''2'' account (JStr (js ''t'')) (coded_line account))"
proof -
  have "amount_or_zero (sample_purchase_line i account code) = Some (JNum (Fin 1))" for i account code
    by (simp add: amount_or_zero_def sample_purchase_line_def)
  note snap = snapshot_line_of_def this sample_directional sample_snap_line_def
  show "snapshot_line_of digest (- 1) (Some (mode_json NotApplicable)) kept_line = Inr (sample_snap_line digest ''1'' ''k'' JNull kept_line)"
    by (simp add: snap) (simp add: sample_purchase_line_def detail_of_def chain_def detail_ref_def)
  show "snapshot_line_of digest (- 1) (Some (mode_json NotApplicable)) (coded_line account)
     = Inr (sample_snap_line digest ''2'' account (JStr (js ''t'')) (coded_line account))"
    by (simp add: snap) (simp add: sample_purchase_line_def detail_of_def chain_def detail_ref_def)
qed

lemma sample_provable:
  "provable_line_tax (- 1) (Some (mode_json NotApplicable)) kept_line = Inr (Some 0)"
  "provable_line_tax (- 1) (Some (mode_json NotApplicable)) (coded_line account) = Inr None"
  by (simp_all add: provable_line_tax_def sample_purchase_line_def detail_of_def chain_def detail_ref_def)

lemma sample_taken: "map_purchase_tax_snapshot digest sample_purchase = Inr (sample_snapshot digest)"
proof -
  have gets: "get sample_purchase ''Line'' = Some (JArr [kept_line, holding_line])"
    "get sample_purchase ''Id'' = Some (JStr (js ''7''))" "get sample_purchase ''SyncToken'' = Some (JStr (js ''0''))"
    "get sample_purchase ''TxnDate'' = Some (JStr (js ''d''))" "get sample_purchase ''TotalAmt'' = Some (JNum (Fin 1))"
    "get sample_purchase ''GlobalTaxCalculation'' = Some (mode_json NotApplicable)" "get sample_purchase ''TxnTaxDetail'' = None"
    "chain (get sample_purchase ''AccountRef'') ''value'' = Some (JStr (js ''bank''))" "chain (None :: json option) ''TotalTax'' = None"
    by (simp_all add: sample_purchase_def chain_def)
  show ?thesis
    by (simp add: map_purchase_tax_snapshot_def gets sample_provable sample_sign sample_line_snapshot sample_directional sample_snapshot_def Let_def)
qed

section \<open>The two preparations\<close>

definition sample_staged_line :: "json \<Rightarrow> staged_line" where
  "sample_staged_line code =
     \<lparr>staged_idx = Fin 0, staged_subtotal = Fin (- 100), staged_tax = Fin 0, staged_total = Fin (- 100),
      staged_category = JStr (js ''new''), staged_code = code, staged_memo = JNull, staged_tags = None\<rparr>"

definition sample_staged :: "tax_disposition \<Rightarrow> json \<Rightarrow> staged_categorization" where
  "sample_staged disposition code =
     \<lparr>staged_disposition = Some disposition, staged_mode = NotApplicable, staged_totals = (Fin (- 100), Fin 0, Fin (- 100)),
      staged_lines = [sample_staged_line code], staged_tag_ids = []\<rparr>"

lemma sample_lines: "raw_lines sample_purchase = [kept_line, holding_line]"
  by (simp add: raw_lines_def sample_purchase_def)

lemma sample_held: "held_in [js ''h''] kept_line = False" "held_in [js ''h''] holding_line = True"
  by (simp_all add: held_in_def detail_ref_def detail_of_def chain_def sample_purchase_line_def)

lemma sample_holding: "holding_indexes [js ''h''] 0 (raw_lines sample_purchase) = Inr [1]"
proof -
  have "holding_line_ok holding_line = Inr ()"
    using one_dollar by (simp add: holding_line_ok_def sample_purchase_line_def detail_ref_def detail_of_def chain_def del: exact_cents.simps)
  then show ?thesis by (simp add: sample_lines sample_held)
qed

lemma sample_current: "assert_snapshot_equals_before (sample_snapshot digest) (sample_snapshot digest) = Inr ()"
  by (simp add: assert_snapshot_equals_before_def sample_snapshot_def sample_snap_line_def)

lemma sample_amounts: "assert_staged_amounts (sample_staged disposition code) (sample_snapshot digest) [Suc 0] = Inr ()"
  by (simp add: assert_staged_amounts_def sample_staged_def sample_staged_line_def sample_snapshot_def sample_snap_line_def
      staged_line_fault_def money_cents_def max_exact_cents_value safe_int_def max_safe_def of_cents_def num_sign_def
      purchase_holding_gross_cents_def holding_gross_of_def is_mode_def mode_json_def Let_def)

lemma sample_clone: "normalized_clone sample_purchase = sample_purchase"
  by (simp add: sample_purchase_def sample_purchase_line_def mode_json_def)

lemma sample_disposition: "staged_disposition (sample_staged disposition code) = Some disposition"
  by (simp add: sample_staged_def)

lemma sample_modes: "is_mode (Some (mode_json NotApplicable)) ''TaxInclusive'' = False" "is_mode (Some (mode_json NotApplicable)) ''TaxExcluded'' = False"
  by (simp_all add: is_mode_def mode_json_def)

lemma sample_changed_line: "with_account (js ''new'') holding_line = coded_line ''new''"
  by (simp add: sample_purchase_line_def with_account_def update_field_def with_value_def set_field_def)

lemma sample_source:
  "get (coded_line account) ''Id'' = Some (JStr (js ''2''))" "get (coded_line account) ''DetailType'' = Some (JStr (js expense_detail))"
  "chain (detail_of (coded_line account)) ''AccountRef'' \<noteq> None" "get sample_purchase ''GlobalTaxCalculation'' = Some (mode_json NotApplicable)"
  by (simp_all add: sample_purchase_line_def sample_purchase_def detail_of_def chain_def)

lemma sample_snap:
  "snap_lines (sample_snapshot digest) = [sample_snap_line digest ''1'' ''k'' JNull kept_line, sample_snap_line digest ''2'' ''h'' (JStr (js ''t'')) holding_line]"
  "snap_mode (sample_snapshot digest) = mode_json NotApplicable" "snap_preserved (sample_snapshot digest) \<noteq> None" "snap_total_tax (sample_snapshot digest) = None"
  "amount_cents (sample_snap_line digest i account code raw) = - 100" "snap_code (sample_snap_line digest i account code raw) = code"
  "tax_cents (sample_snap_line digest i account code raw) = None" "inclusive_cents (sample_snap_line digest i account code raw) = None"
  "raw_hash (sample_snap_line digest i account code raw) \<noteq> None" "category_hash (sample_snap_line digest i account code raw) \<noteq> None"
  by (simp_all add: sample_snapshot_def sample_snap_line_def)

lemma sample_preserve:
  "\<exists>p. prepare_purchase_recategorization digest sample_purchase [js ''h''] (sample_staged PreserveCurrent (JStr (js ''t'')))
       (sample_snapshot digest) (js ''r'') = Inr p
     \<and> pp_body p = edit_line (Suc 0) (with_account (js ''new'')) sample_purchase \<and> pp_before p = sample_snapshot digest"
proof -
  have "\<exists>e. prepare_preserve_current digest sample_purchase (sample_staged PreserveCurrent (JStr (js ''t''))) (sample_snapshot digest)
      (sample_snapshot digest) (js ''r'') [1]
    = Inr (prepared_write digest Recategorize (js ''r'') (edit_line (Suc 0) (with_account (js ''new'')) sample_purchase) (sample_snapshot digest) e)"
    by (simp add: prepare_preserve_current_def sample_clone sample_source sample_changed_line sample_sign sample_line_snapshot
        sample_snap sample_modes sample_staged_def sample_staged_line_def sample_lines source_gross_cents_def of_cents_def Let_def) blast
  then obtain e where "prepare_preserve_current digest sample_purchase (sample_staged PreserveCurrent (JStr (js ''t''))) (sample_snapshot digest)
      (sample_snapshot digest) (js ''r'') [1]
    = Inr (prepared_write digest Recategorize (js ''r'') (edit_line (Suc 0) (with_account (js ''new'')) sample_purchase) (sample_snapshot digest) e)" ..
  then show ?thesis
    by (simp add: prepare_purchase_recategorization_def sample_taken sample_current sample_holding sample_amounts sample_disposition prepared_write_def)
qed

lemma sample_one_dollar: "money_from_cents (Fin (- 100)) = Inr (JNum (Fin 1))"
proof -
  have "dollars 100 = Fin 1" using fl_of_int [of 1] by (simp add: dollars_def)
  then show ?thesis using one_dollar by (simp add: money_from_cents_def money_cents_def max_exact_cents_value Let_def del: exact_cents.simps)
qed

lemma sample_written:
  "staged_line_to_raw NotApplicable (sample_staged_line JNull) = Inr (JObj
     [(js ''Amount'', JNum (Fin 1)), (js ''DetailType'', JStr (js expense_detail)),
      (js expense_detail, JObj [ref_field ''AccountRef'' (JStr (js ''new''))])])"
  by (simp add: staged_line_to_raw_def sample_staged_line_def staged_tax_fields_def sample_one_dollar not_applicable_code_def)

lemma sample_set:
  "\<exists>p. prepare_purchase_recategorization digest sample_purchase [js ''h''] (sample_staged SetTax JNull) (sample_snapshot digest) (js ''r'') = Inr p"
proof -
  obtain new where "replacement_lines sample_purchase (sample_staged SetTax JNull) (sample_snapshot digest) [1] = Inr ([new], True)"
    "amount_or_zero new = Some (JNum (Fin 1))" "chain (detail_of new) ''TaxInclusiveAmt'' = None" "chain (detail_of new) ''TaxAmount'' = None"
  proof
    let ?new = "keep_metadata holding_line (sample_staged_line JNull) (JObj
     [(js ''Amount'', JNum (Fin 1)), (js ''DetailType'', JStr (js expense_detail)),
      (js expense_detail, JObj [ref_field ''AccountRef'' (JStr (js ''new''))])])"
    show "replacement_lines sample_purchase (sample_staged SetTax JNull) (sample_snapshot digest) [1] = Inr ([?new], True)"
      by (simp add: replacement_lines_def same_amounts_def sample_staged_def sample_written sample_snap sample_lines sample_source Let_def)
         (simp add: sample_staged_line_def)
    have "?new = JObj [(js ''Amount'', JNum (Fin 1)), (js ''DetailType'', JStr (js expense_detail)),
      (js expense_detail, JObj [ref_field ''AccountRef'' (JStr (js ''new''))]), (js ''Id'', JStr (js ''2''))]"
      by (simp add: keep_metadata_def copy_field_def chain_def detail_of_def sample_staged_line_def sample_purchase_line_def set_field_def)
    then show "amount_or_zero ?new = Some (JNum (Fin 1))" "chain (detail_of ?new) ''TaxInclusiveAmt'' = None"
      "chain (detail_of ?new) ''TaxAmount'' = None"
      by (simp_all add: amount_or_zero_def chain_def detail_of_def)
  qed
  then have "\<exists>p. prepare_set digest sample_purchase (sample_staged SetTax JNull) (sample_snapshot digest) (js ''r'') [1] = Inr p"
    by (simp add: prepare_set_def snapshot_line_of_def sample_sign sample_directional sample_source sample_snap tax_bearing_def
        kept_tax_cents_def proven_tax_def sum_proven_def without_indexes_def Let_def)
       (simp add: sample_staged_def of_cents_def money_cents_def max_exact_cents_value safe_int_def max_safe_def)
  then show ?thesis
    by (simp add: prepare_purchase_recategorization_def sample_taken sample_current sample_holding sample_amounts sample_disposition)
qed

section \<open>The properties at these preparations\<close>



theorem category_only_change_witness:
  "\<exists>p i account. prepare_purchase_recategorization (\<lambda>s. s) sample_purchase [js ''h''] (sample_staged PreserveCurrent (JStr (js ''t'')))
      (sample_snapshot (\<lambda>s. s)) (js ''r'') = Inr p
    \<and> filter (\<lambda>j. held_in [js ''h''] (raw_lines sample_purchase ! j)) [0..<length (raw_lines sample_purchase)] = [i]
    \<and> pp_body p = edit_line i (with_account account) (normalized_clone sample_purchase)"
proof -
  obtain p where p: "prepare_purchase_recategorization (\<lambda>s. s) sample_purchase [js ''h''] (sample_staged PreserveCurrent (JStr (js ''t'')))
      (sample_snapshot (\<lambda>s. s)) (js ''r'') = Inr p" using sample_preserve by blast
  show ?thesis using p category_only_change [OF p sample_disposition] by blast
qed

theorem staged_line_reads_back_witness:
  "\<exists>raw snap. staged_line_to_raw NotApplicable (sample_staged_line JNull) = Inr raw
    \<and> snapshot_line_of (\<lambda>s. s) (- 1) (Some (mode_json NotApplicable)) raw = Inr snap
    \<and> purchase_target_line_matches (mode_json NotApplicable) (Some 0) (Some 0)
        (staged_line_to_snapshot NotApplicable (sample_staged_line JNull)) snap None"
proof -
  have "staged_line_fault NotApplicable (- 1) (sample_staged_line JNull) = None"
    by (simp add: staged_line_fault_def sample_staged_line_def money_cents_def max_exact_cents_value safe_int_def max_safe_def
        of_cents_def num_sign_def)
  note reads = staged_line_reads_back [OF sample_written this, of "\<lambda>s. s" "Some 0" "Some 0"]
  have "(- 1 :: int) = 1 \<or> (- 1 :: int) = - 1" by simp
  then show ?thesis using reads sample_written by blast
qed

lemma sample_rebuilt:
  "snapshot_line_to_raw (sample_snap_line (\<lambda>s. s) ''2'' ''h'' (JStr (js ''t'')) holding_line)
     = Inr (sample_purchase_line ''2'' ''h'' [ref_field ''TaxCodeRef'' (JStr (js ''t''))])"
  by (simp add: snapshot_line_to_raw_def sample_snap_line_def optional_money_def optional_ref_def of_cents_def sample_one_dollar)
     (simp add: sample_purchase_line_def)

theorem rebuilt_line_reads_back_witness:
  "map_sum id (\<lambda>l. l\<lparr>raw_hash := None, category_hash := None\<rparr>)
      (snapshot_line_of (\<lambda>s. s) (- 1) (Some (mode_json NotApplicable)) holding_line)
    = Inr ((sample_snap_line (\<lambda>s. s) ''2'' ''h'' (JStr (js ''t'')) holding_line)\<lparr>raw_hash := None, category_hash := None\<rparr>)"
  by (rule rebuilt_line_reads_back [OF sample_line_snapshot(2) _ _ sample_rebuilt]) (simp_all add: sample_snap)

lemma sample_changed:
  "edit_line (Suc 0) (with_account (js ''new'')) sample_purchase = JObj
     [(js ''Id'', JStr (js ''7'')), (js ''SyncToken'', JStr (js ''0'')), (js ''TxnDate'', JStr (js ''d'')),
      (js ''TotalAmt'', JNum (Fin 1)), ref_field ''AccountRef'' (JStr (js ''bank'')),
      (js ''GlobalTaxCalculation'', mode_json NotApplicable), (js ''Line'', JArr [kept_line, coded_line ''new''])]"
  by (simp add: edit_line_def update_field_def sample_purchase_def set_field_def sample_changed_line)

definition sample_stored :: json where
  "sample_stored = JObj
     [(js ''Id'', JStr (js ''7'')), (js ''SyncToken'', JStr (js ''1'')), (js ''TxnDate'', JStr (js ''d'')),
      (js ''TotalAmt'', JNum (Fin 1)), ref_field ''AccountRef'' (JStr (js ''bank'')),
      (js ''GlobalTaxCalculation'', mode_json NotApplicable), (js ''Line'', JArr [kept_line, coded_line ''new''])]"

lemma sample_apart:
  "distinct (map canonical_snapshot_line [sample_snap_line (\<lambda>s. []) ''1'' account1 code1 raw1, sample_snap_line (\<lambda>s. []) ''2'' account2 code2 raw2])"
proof -
  have "quote_units (js ''1'') = [49]" "quote_units (js ''2'') = [50]" by code_simp+
  then show ?thesis
    by (simp add: canonical_snapshot_line_def sample_snap_line_def purchase_raw_line_hash_def fingerprint_def quote_def)
qed

lemma sample_stored_snapshot:
  "map_purchase_tax_snapshot digest sample_stored = Inr ((sample_snapshot digest)
     \<lparr>snap_token := js ''1'', snap_preserved := Some (purchase_preserved_hash digest sample_stored),
      snap_lines := [sample_snap_line digest ''1'' ''k'' JNull kept_line, sample_snap_line digest ''2'' ''new'' (JStr (js ''t'')) (coded_line ''new'')]\<rparr>)"
proof -
  have gets: "get sample_stored ''Line'' = Some (JArr [kept_line, coded_line ''new''])"
    "get sample_stored ''Id'' = Some (JStr (js ''7''))" "get sample_stored ''SyncToken'' = Some (JStr (js ''1''))"
    "get sample_stored ''TxnDate'' = Some (JStr (js ''d''))" "get sample_stored ''TotalAmt'' = Some (JNum (Fin 1))"
    "get sample_stored ''GlobalTaxCalculation'' = Some (mode_json NotApplicable)" "get sample_stored ''TxnTaxDetail'' = None"
    "chain (get sample_stored ''AccountRef'') ''value'' = Some (JStr (js ''bank''))" "chain (None :: json option) ''TotalTax'' = None"
    "purchase_sign sample_stored = - 1"
    by (simp_all add: sample_stored_def chain_def purchase_sign_def)
  show ?thesis
    by (simp add: map_purchase_tax_snapshot_def gets sample_provable sample_line_snapshot sample_directional sample_snapshot_def Let_def)
qed

theorem restore_undoes_category_change_witness:
  "\<exists>p. prepare_purchase_recategorization (\<lambda>s. []) sample_purchase [js ''h''] (sample_staged PreserveCurrent (JStr (js ''t'')))
      (sample_snapshot (\<lambda>s. [])) (js ''r'') = Inr p
    \<and> map_sum id pp_body (prepare_purchase_restore (\<lambda>s. []) sample_stored p (js ''r''))
      = Inr (update_field ''SyncToken'' (\<lambda>v. JStr (js ''1'')) sample_purchase)"
proof -
  obtain p where p: "prepare_purchase_recategorization (\<lambda>s. []) sample_purchase [js ''h''] (sample_staged PreserveCurrent (JStr (js ''t'')))
      (sample_snapshot (\<lambda>s. [])) (js ''r'') = Inr p" "pp_body p = edit_line (Suc 0) (with_account (js ''new'')) sample_purchase"
      "pp_before p = sample_snapshot (\<lambda>s. [])" using sample_preserve by blast
  have "sample_stored = update_field ''SyncToken'' (\<lambda>v. JStr (js ''1'')) (pp_body p)"
    by (simp add: p(2) sample_changed sample_stored_def update_field_def set_field_def)
  moreover have "trim (js ''1'') \<noteq> []" "trim (js ''r'') \<noteq> []" by simp_all
  moreover have "distinct (map canonical_snapshot_line (snap_lines (pp_before p)))"
    using sample_apart by (simp only: p(3) sample_snap)
  moreover have "on_ok (map_purchase_tax_snapshot (\<lambda>s. []) sample_stored) (\<lambda>s. Inr (distinct (map canonical_snapshot_line (snap_lines s)))) = Inr True"
    using sample_apart by (simp add: sample_stored_snapshot del: list.map distinct.simps)
  ultimately show ?thesis
    using p(1) restore_undoes_category_change [OF p(1) sample_disposition sample_clone] by blast
qed

end
