(* ===== verification/Calls.thy ===== *)
theory Calls
  imports Prelude
begin

text \<open>
  Programs that call out: a service is a tree of the requests it makes to its database, its clock
  and the provider, each with a continuation for every reply. \<open>runs\<close> is the relation between a
  program, the sequence of requests and replies of one execution, and its result; the replies are
  those of the environment, which may answer anything that fits the request. \<open>always\<close> is the
  weakest precondition over an observer of that sequence.
\<close>

datatype ('q, 'r, 'a) prog = Done 'a | Call 'q "'r \<Rightarrow> ('q, 'r, 'a) prog"

primrec bind :: "('q, 'r, 'a) prog \<Rightarrow> ('a \<Rightarrow> ('q, 'r, 'b) prog) \<Rightarrow> ('q, 'r, 'b) prog" where
  "bind (Done a) k = k a"
| "bind (Call q f) k = Call q (\<lambda>r. bind (f r) k)"

text \<open>Programs that throw return \<open>Inl\<close>: the continuation is skipped, a handler catches it.\<close>

definition throw :: "'e \<Rightarrow> ('q, 'r, 'e + 'a) prog" where
  "throw e = Done (Inl e)"

definition return :: "'a \<Rightarrow> ('q, 'r, 'e + 'a) prog" where
  "return x = Done (Inr x)"

definition andthen :: "('q, 'r, 'e + 'a) prog \<Rightarrow> ('a \<Rightarrow> ('q, 'r, 'e + 'b) prog) \<Rightarrow> ('q, 'r, 'e + 'b) prog" where
  "andthen p k = bind p (\<lambda>v. case v of Inl e \<Rightarrow> throw e | Inr x \<Rightarrow> k x)"

definition handle :: "('q, 'r, 'e + 'a) prog \<Rightarrow> ('e \<Rightarrow> ('q, 'r, 'f + 'a) prog) \<Rightarrow> ('q, 'r, 'f + 'a) prog" where
  "handle p h = bind p (\<lambda>v. case v of Inl e \<Rightarrow> h e | Inr x \<Rightarrow> return x)"

text \<open>A loop over a list with \<open>await\<close> in its body.\<close>

primrec each :: "('a \<Rightarrow> ('q, 'r, 'e + 'b) prog) \<Rightarrow> 'a list \<Rightarrow> ('q, 'r, 'e + 'b list) prog" where
  "each f [] = return []"
| "each f (x # xs) = andthen (f x) (\<lambda>y. andthen (each f xs) (\<lambda>ys. return (y # ys)))"

inductive runs :: "('q \<Rightarrow> 'r \<Rightarrow> bool) \<Rightarrow> ('q, 'r, 'a) prog \<Rightarrow> ('q \<times> 'r) list \<Rightarrow> 'a \<Rightarrow> bool"
  for fits :: "'q \<Rightarrow> 'r \<Rightarrow> bool"
where
  returned: "runs fits (Done a) [] a"
| called: "fits q r \<Longrightarrow> runs fits (f r) t a \<Longrightarrow> runs fits (Call q f) ((q, r) # t) a"

inductive_cases runs_CallE: "runs fits (Call q f) t a"
inductive_simps runs_Done [simp]: "runs fits (Done b) t a"
inductive_simps runs_Call: "runs fits (Call q f) t a"

lemma runs_mono: "runs fits p t a \<Longrightarrow> (\<And>q r. fits q r \<Longrightarrow> fits' q r) \<Longrightarrow> runs fits' p t a"
  by (induction rule: runs.induct) (auto intro: runs.intros)

primrec always :: "('q \<Rightarrow> 'r \<Rightarrow> bool) \<Rightarrow> ('q \<Rightarrow> 'r \<Rightarrow> 's \<Rightarrow> 's) \<Rightarrow> ('a \<Rightarrow> 's \<Rightarrow> bool) \<Rightarrow> ('q, 'r, 'a) prog \<Rightarrow> 's \<Rightarrow> bool" where
  "always fits see Q (Done a) s = Q a s"
| "always fits see Q (Call q f) s = (\<forall>r. fits q r \<longrightarrow> always fits see Q (f r) (see q r s))"

definition seen :: "('q \<Rightarrow> 'r \<Rightarrow> 's \<Rightarrow> 's) \<Rightarrow> ('q \<times> 'r) list \<Rightarrow> 's \<Rightarrow> 's" where
  "seen see t s = fold (\<lambda>(q, r). see q r) t s"

lemma seen_simps [simp]: "seen see [] s = s" "seen see ((q, r) # t) s = seen see t (see q r s)"
  by (simp_all add: seen_def)

lemma always_iff_runs: "always fits see Q p s \<longleftrightarrow> (\<forall>t a. runs fits p t a \<longrightarrow> Q a (seen see t s))"
proof (induction p arbitrary: s)
  case (Call q f)
  have "(\<forall>t a. runs fits (Call q f) t a \<longrightarrow> Q a (seen see t s))
      \<longleftrightarrow> (\<forall>r t a. fits q r \<longrightarrow> runs fits (f r) t a \<longrightarrow> Q a (seen see ((q, r) # t) s))"
    unfolding runs_Call by blast
  then show ?case by (auto simp: Call.IH [OF rangeI])
qed simp

lemma alwaysD: "always fits see Q p s \<Longrightarrow> runs fits p t a \<Longrightarrow> Q a (seen see t s)"
  by (simp add: always_iff_runs)

lemma always_mono: "always fits see P p s \<Longrightarrow> (\<And>a s. P a s \<Longrightarrow> Q a s) \<Longrightarrow> always fits see Q p s"
  by (induction p arbitrary: s) auto

lemma always_bind [simp]: "always fits see Q (bind p k) s = always fits see (\<lambda>a. always fits see Q (k a)) p s"
  by (induction p arbitrary: s) simp_all

lemma always_basic [simp]:
  "always fits see Q (throw e) s = Q (Inl e) s"
  "always fits see Q (return x) s = Q (Inr x) s"
  by (simp_all add: throw_def return_def)

lemma always_andthen [simp]:
  "always fits see Q (andthen p k) s
    = always fits see (\<lambda>v. case v of Inl e \<Rightarrow> Q (Inl e) | Inr x \<Rightarrow> always fits see Q (k x)) p s"
proof -
  have "always fits see Q (case v of Inl e \<Rightarrow> throw e | Inr x \<Rightarrow> k x)
      = (case v of Inl e \<Rightarrow> Q (Inl e) | Inr x \<Rightarrow> always fits see Q (k x))" for v
    by (cases v) auto
  then show ?thesis by (simp add: andthen_def)
qed

lemma always_handle [simp]:
  "always fits see Q (handle p h) s
    = always fits see (\<lambda>v. case v of Inl e \<Rightarrow> always fits see Q (h e) | Inr x \<Rightarrow> Q (Inr x)) p s"
proof -
  have "always fits see Q (case v of Inl e \<Rightarrow> h e | Inr x \<Rightarrow> return x)
      = (case v of Inl e \<Rightarrow> always fits see Q (h e) | Inr x \<Rightarrow> Q (Inr x))" for v
    by (cases v) auto
  then show ?thesis by (simp add: handle_def)
qed

text \<open>Cases of a reply.\<close>

lemma all_sum: "(\<forall>x. P x) \<longleftrightarrow> (\<forall>e. P (Inl e)) \<and> (\<forall>y. P (Inr y))"
  by (metis sum.exhaust)

text \<open>A loop keeps what each of its rounds keeps.\<close>

lemma always_each:
  assumes "\<And>x s. x \<in> set xs \<Longrightarrow> I s \<Longrightarrow> always fits see (\<lambda>v s. I s \<and> (case v of Inl e \<Rightarrow> E e | Inr y \<Rightarrow> R x y)) (f x) s" "I s"
  shows "always fits see (\<lambda>v s. I s \<and> (case v of Inl e \<Rightarrow> E e | Inr ys \<Rightarrow> list_all2 R xs ys)) (each f xs) s"
  using assms
proof (induction xs arbitrary: s)
  case (Cons x xs)
  have rest: "always fits see (\<lambda>v s. I s \<and> (case v of Inl e \<Rightarrow> E e | Inr ys \<Rightarrow> list_all2 R xs ys)) (each f xs) s" if "I s" for s
    using Cons.IH [OF Cons.prems(1) that] by simp
  have "always fits see (\<lambda>v s. I s \<and> (case v of Inl e \<Rightarrow> E e | Inr y \<Rightarrow> R x y)) (f x) s"
    using Cons.prems by simp
  then show ?case
    by (simp, elim always_mono) (auto split: sum.splits intro: always_mono [OF rest])
qed simp

lemma runs_bind: "runs fits (bind p k) t a \<longleftrightarrow> (\<exists>u v b. t = u @ v \<and> runs fits p u b \<and> runs fits (k b) v a)"
proof (induction p arbitrary: t)
  case (Call q f)
  show ?case
    by (auto simp: runs_Call Call.IH [OF rangeI]) (metis append_Cons, blast)
qed simp

section \<open>The number of calls\<close>

definition calls_le :: "('q \<Rightarrow> 'r \<Rightarrow> bool) \<Rightarrow> ('q, 'r, 'a) prog \<Rightarrow> nat \<Rightarrow> bool" where
  "calls_le fits p n \<longleftrightarrow> (\<forall>t a. runs fits p t a \<longrightarrow> length t \<le> n)"

named_theorems calls_intro

lemma calls_Done [calls_intro]: "calls_le fits (Done a) n"
  by (simp add: calls_le_def)

lemma calls_basic [calls_intro]: "calls_le fits (throw e) n" "calls_le fits (return x) n"
  by (simp_all add: calls_le_def throw_def return_def)

lemma calls_bind: "calls_le fits p m \<Longrightarrow> (\<And>t a. runs fits p t a \<Longrightarrow> calls_le fits (k a) (n - m)) \<Longrightarrow> m \<le> n \<Longrightarrow> calls_le fits (bind p k) n"
  by (fastforce simp: calls_le_def runs_bind)

lemma calls_andthen:
  assumes "calls_le fits p m" "\<And>t x. runs fits p t (Inr x) \<Longrightarrow> calls_le fits (k x) (n - m)" "m \<le> n"
  shows "calls_le fits (andthen p k) n"
  unfolding andthen_def by (rule calls_bind [OF assms(1) _ assms(3)]) (auto intro: calls_basic assms(2) split: sum.splits)

lemma calls_handle:
  assumes "calls_le fits p m" "\<And>e. calls_le fits (h e) (n - m)" "m \<le> n"
  shows "calls_le fits (handle p h) n"
  unfolding handle_def by (rule calls_bind [OF assms(1) _ assms(3)]) (auto intro: calls_basic assms(2) split: sum.splits)

lemma calls_each: "(\<And>x. x \<in> set xs \<Longrightarrow> calls_le fits (f x) m) \<Longrightarrow> m * length xs \<le> n \<Longrightarrow> calls_le fits (each f xs) n"
proof (induction xs arbitrary: n)
  case (Cons x xs)
  have "calls_le fits (each f xs) (n - m)" using Cons by simp
  then have rest: "calls_le fits (andthen (each f xs) (\<lambda>ys. return (y # ys))) (n - m)" for y
    by (rule calls_andthen [OF _ _ order.refl]) (rule calls_basic)
  show ?case unfolding each.simps
    by (rule calls_andthen [where m = m]) (use Cons.prems rest in auto)
qed (simp add: calls_basic)

text \<open>The execution with given replies, and what the observer makes of it.\<close>

fun play ::
  "('q \<Rightarrow> 'r \<Rightarrow> bool) \<Rightarrow> ('q \<Rightarrow> 'r \<Rightarrow> 's \<Rightarrow> 's) \<Rightarrow> ('q, 'r, 'a) prog \<Rightarrow> 'r list \<Rightarrow> 's \<Rightarrow> ('a \<times> 's) option" where
  "play fits see (Done a) rs s = (if rs = [] then Some (a, s) else None)"
| "play fits see (Call q f) [] s = None"
| "play fits see (Call q f) (r # rs) s = (if fits q r then play fits see (f r) rs (see q r s) else None)"

lemma play_runs: "play fits see p rs s = Some (a, s') \<Longrightarrow> \<exists>t. runs fits p t a \<and> seen see t s = s'"
proof (induction fits see p rs s rule: play.induct)
  case (3 fits see q f r rs s)
  then obtain t where "fits q r" "runs fits (f r) t a" "seen see t (see q r s) = s'" by (auto split: if_splits)
  then show ?case by (intro exI [of _ "(q, r) # t"]) (simp add: runs_Call)
qed (auto split: if_splits intro: exI [of _ "[]"])

end
