(* ===== verification/Posting.thy ===== *)
theory Posting
  imports Calls WriteSafety TaxCalc
begin

text \<open>
  The posting lifecycle of \<open>services/writeback.ts\<close> (up to \<open>bulkPost\<close>): posting a categorized
  transaction to QuickBooks, undoing a post, and putting a failed one back in the queue, as
  programs over the calls to the database, to the client and to the clock. Every call may fail.

  What a thrown error and a stored message say is the value that identifies them; the texts
  themselves are not modelled, except those that come from the client.
\<close>

section \<open>Rows, results and audit entries\<close>

datatype txn_status = Pending | Posting | Posted | DryRun | Errored | Superseded | Reverted

datatype split_fault = ZeroSplit | SignMismatch | NotWholeCents | SumMismatch

text \<open>
  What can be thrown: a conflict and the safety errors of the client, any other error with or
  without a code, and the errors of the service.
\<close>

datatype thrown =
    Conflict
  | SafetyError write_safety_error
  | Coded jstring jstring
  | Foreign jstring
  | RowMissing
  | StagingRequired
  | WrongStatus txn_status
  | CategoryMissing
  | SplitsInvalid split_fault
  | TagsMissing bool
  | AlreadyPosting
  | UnknownCategory jstring
  | UndoWindowPassed
  | NoHoldingAccount
  | EntityGone
  | EditedSincePost
  | PostedCategoryUnknown
  | MutationBlocked

datatype notice =
    Thrown thrown
  | AlreadyCategorized
  | AmountChanged jsnum jsnum
  | CommitFailed
  | UndoUncertain

definition error_code :: "thrown \<Rightarrow> jstring" where
  "error_code e =
     (case e of
        Conflict \<Rightarrow> js ''SYNC_TOKEN_CONFLICT''
      | SafetyError (PeriodClosed d) \<Rightarrow> js ''QBO_PERIOD_CLOSED''
      | SafetyError SafetyUnavailable \<Rightarrow> js ''QBO_WRITE_SAFETY_UNAVAILABLE''
      | Coded code message \<Rightarrow> code
      | StagingRequired \<Rightarrow> js ''TAX_AWARE_STAGING_REQUIRED''
      | AlreadyPosting \<Rightarrow> js ''INVALID_STATUS''
      | EditedSincePost \<Rightarrow> js ''QBO_EDITED_SINCE_POST''
      | MutationBlocked \<Rightarrow> js ''MUTATION_BLOCKED''
      | _ \<Rightarrow> js ''QBO_ERROR'')"

fun notice_code :: "notice \<Rightarrow> jstring" where
  "notice_code (Thrown e) = error_code e"
| "notice_code AlreadyCategorized = js ''SUPERSEDED''"
| "notice_code (AmountChanged cached fresh) = js ''QBO_AMOUNT_CHANGED''"
| "notice_code CommitFailed = js ''DB_COMMIT_FAILED''"
| "notice_code UndoUncertain = js ''UNDO_UNCERTAIN''"

record actor =
  actor_id :: "jstring option"
  actor_label :: jstring

definition system_actor :: actor where
  "system_actor = \<lparr>actor_id = None, actor_label = js ''system''\<rparr>"

record company_row =
  company_id :: jstring
  dry_run :: bool
  tags_required :: bool
  holding_account_ids :: json
  tax_support_status :: jstring
  tax_using_sales_tax :: "bool option"
  tax_support_reason :: "jstring option"

record split_row =
  split_idx :: int
  split_amount :: jsnum
  split_category :: jstring
  split_category_id :: "jstring option"
  split_tax_code_id :: "jstring option"
  split_memo :: "jstring option"
  split_tags :: "jstring list"

record txn_row =
  row_id :: jstring
  row_company :: company_row
  row_type :: jstring
  row_entity :: jstring
  row_token :: jstring
  row_payee :: jstring
  row_amount :: jsnum
  row_category :: "jstring option"
  row_category_id :: "jstring option"
  row_memo :: "jstring option"
  row_status :: txn_status
  row_posted_at :: "int option"
  row_tax_calculation :: "jstring option"
  row_tax_code_id :: "jstring option"
  row_splits :: "split_row list"
  row_tags :: "jstring list"

text \<open>A transaction as the client reads it: the entity, and its lines of the holding accounts (account and name).\<close>

record fresh_txn =
  entity :: qbo_txn
  fresh_amount :: jsnum
  fresh_lines :: "(jstring \<times> jstring) list"

record account_row =
  account_id :: jstring
  account_name :: jstring
  full_name :: jstring

record tax_code_row =
  code_active :: bool
  code_taxable :: "bool option"
  sales_rate_list :: json
  combined_sales_rate :: "jsnum option"

record post_result =
  result_id :: jstring
  result_ok :: bool
  result_status :: txn_status
  result_error :: "notice option"

datatype label =
    Text jstring
  | SplitLabel "jstring list"
  | Money jsnum
  | FixedInside
  | UndoOf jstring
  | Requeued jstring

datatype audit_action = AuditPosted | AuditAutoPosted | AuditDryRun | AuditError | AuditReverted | AuditSuperseded

datatype payload =
    NoPayload
  | WritePayload jstring jstring jstring "split list"
  | FailedWrite jstring jstring jstring "split list" notice
  | AmountPayload jsnum jsnum notice
  | UndoPayload "json option" notice

record audit_entry =
  audit_company :: jstring
  audit_actor :: actor
  audit_txn :: jstring
  audit_payee :: jstring
  audit_amount :: jsnum
  audit_action :: audit_action
  audit_before :: label
  audit_after :: label
  audit_payload :: payload

text \<open>An update of a row: the status and the stored error always, the other columns where they are given.\<close>

record row_update =
  set_status :: txn_status
  set_error :: "notice option"
  set_token :: "jstring option"
  set_amount :: "jsnum option"
  set_posted :: "(int option \<times> jstring option) option"

definition only_status :: "txn_status \<Rightarrow> notice option \<Rightarrow> row_update" where
  "only_status st err = \<lparr>set_status = st, set_error = err, set_token = None, set_amount = None, set_posted = None\<rparr>"

section \<open>Calls\<close>

text \<open>
  \<open>Transact\<close> is a database transaction that updates the row and writes the audit entry, both or
  none; \<open>UpdateRow\<close> and \<open>WriteAudit\<close> are the two without a transaction. \<open>ClaimPosting\<close> is the
  conditional update to \<open>POSTING\<close> and returns the number of changed rows.
\<close>

datatype request =
    FindTransaction jstring
  | FindAttempt jstring bool
  | FindTaxCodes jstring
  | ClaimPosting jstring
  | GetClient jstring
  | FetchTxn jstring jstring
  | FindAccountById jstring jstring
  | FindAccountByName jstring jstring
  | FetchWriteSafety safety_target
  | SendRecategorize fresh_txn "split list"
  | PrepareRestore fresh_txn "split list" jstring jstring
  | SendPrepared json
  | FetchSnapshot "json option" "json option"
  | Transact jstring row_update audit_entry
  | UpdateRow jstring row_update
  | WriteAudit audit_entry
  | ReadClock
  | NewRequestId

datatype reply =
    RowReply (the_row: "thrown + txn_row option")
  | AttemptReply (the_attempt: "thrown + bool")
  | CodesReply (the_codes: "thrown + tax_code_row list")
  | CountReply (the_count: "thrown + nat")
  | UnitReply (the_unit: "thrown + unit")
  | FreshReply (the_fresh: "thrown + fresh_txn option")
  | AccountReply (the_account: "thrown + account_row option")
  | EvidenceReply (the_evidence: "thrown + jstring option")
  | TokenReply (the_token: "thrown + jstring")
  | PreparedReply (the_prepared: "thrown + json")
  | SnapshotReply (the_snapshot: "thrown + (jstring \<times> jstring) option")
  | TimeReply (the_time: int)
  | IdReply (the_id: jstring)

fun answers :: "request \<Rightarrow> reply \<Rightarrow> bool" where
  "answers (FindTransaction i) r = (case r of RowReply (Inr (Some row)) \<Rightarrow> row_id row = i | RowReply _ \<Rightarrow> True | _ \<Rightarrow> False)"
| "answers (FindAttempt i b) r = is_AttemptReply r"
| "answers (FindTaxCodes c) r = is_CodesReply r"
| "answers (ClaimPosting i) r = is_CountReply r"
| "answers (GetClient c) r = is_UnitReply r"
| "answers (FetchTxn t i) r = is_FreshReply r"
| "answers (FindAccountById c i) r = is_AccountReply r"
| "answers (FindAccountByName c i) r = is_AccountReply r"
| "answers (FetchWriteSafety t) r = is_EvidenceReply r"
| "answers (SendRecategorize f ss) r = is_TokenReply r"
| "answers (PrepareRestore f ss h i) r = is_PreparedReply r"
| "answers (SendPrepared p) r = is_TokenReply r"
| "answers (FetchSnapshot t i) r = is_SnapshotReply r"
| "answers (Transact i u a) r = is_UnitReply r"
| "answers (UpdateRow i u) r = is_UnitReply r"
| "answers (WriteAudit a) r = is_UnitReply r"
| "answers ReadClock r = is_TimeReply r"
| "answers NewRequestId r = is_IdReply r"

type_synonym 'a service = "(request, reply, thrown + 'a) prog"

definition ask :: "(reply \<Rightarrow> thrown + 'a) \<Rightarrow> request \<Rightarrow> 'a service" where
  "ask get_reply q = Call q (\<lambda>r. Done (get_reply r))"

section \<open>Pure helpers\<close>

text \<open>\<open>===\<close> on numbers.\<close>

definition js_same :: "jsnum \<Rightarrow> jsnum \<Rightarrow> bool" where
  "js_same a b \<longleftrightarrow> a = b \<and> a \<noteq> NaN"

fun js_sign :: "jsnum \<Rightarrow> jsnum" where
  "js_sign (Fin x) = Fin (sgn x)"
| "js_sign PInf = Fin 1"
| "js_sign NInf = Fin (- 1)"
| "js_sign NaN = NaN"

definition below_half_cent :: "jsnum \<Rightarrow> bool" where
  "below_half_cent a = (case a of Fin x \<Rightarrow> \<bar>x\<bar> < rnd (5 / 1000) | _ \<Rightarrow> False)"

definition cents_value :: "jsnum \<Rightarrow> jsnum" where
  "cents_value a = js_round (js_times a 100)"

fun shape_fault :: "jsnum \<Rightarrow> jsnum list \<Rightarrow> split_fault option" where
  "shape_fault sign [] = None"
| "shape_fault sign (a # as) =
     (if below_half_cent a then Some ZeroSplit
      else if \<not> js_same sign (Fin 0) \<and> \<not> js_same (js_sign a) sign then Some SignMismatch
      else shape_fault sign as)"

definition validate_splits :: "jsnum \<Rightarrow> jsnum list \<Rightarrow> split_fault option" where
  "validate_splits whole splits =
     (case shape_fault (js_sign whole) splits of
        Some f \<Rightarrow> Some f
      | None \<Rightarrow>
          (if \<exists>a \<in> set splits. \<not> js_same (js_over (cents_value a) 100) a then Some NotWholeCents
           else if \<not> js_same (foldl js_add (Fin 0) (map cents_value splits)) (cents_value whole) then Some SumMismatch
           else None))"

definition json_string_array :: "json \<Rightarrow> jstring list" where
  "json_string_array v = List.map_filter (\<lambda>x. case x of JStr s \<Rightarrow> Some s | _ \<Rightarrow> None) (array_items (Some v))"

text \<open>The splits in the order of their index; \<open>None\<close> is \<open>null\<close>, for no splits.\<close>

definition split_line_dtos :: "split_row list \<Rightarrow> split_row list option" where
  "split_line_dtos lines = (if lines = [] then None else Some (sort_key split_idx lines))"

definition truthy :: "jstring option \<Rightarrow> bool" where
  "truthy v \<longleftrightarrow> v \<noteq> None \<and> v \<noteq> Some []"

definition holding_line_of :: "jstring list \<Rightarrow> fresh_txn \<Rightarrow> (jstring \<times> jstring) option" where
  "holding_line_of ids fresh = List.find (\<lambda>l. fst l \<in> set ids) (fresh_lines fresh)"

definition legacy_cents :: "jsnum \<Rightarrow> jsnum" where
  "legacy_cents v = cents_value v"

text \<open>\<open>cachedSalesTaxReadiness(...).status === 'ready'\<close> (\<open>services/tax/reference.ts\<close>)\<close>

definition supported_sales_code :: "tax_code_row \<Rightarrow> bool" where
  "supported_sales_code row \<longleftrightarrow>
     code_active row
     \<and> (case sales_rate_list row of
          JArr rates \<Rightarrow>
            (if code_taxable row = Some False then rates = [] \<and> combined_sales_rate row = None
             else code_taxable row = Some True \<and> rates \<noteq> []
               \<and> (case combined_sales_rate row of None \<Rightarrow> False | Some rate \<Rightarrow> supported_rate_value (Some (JNum rate))))
        | _ \<Rightarrow> False)"

definition sales_tax_ready :: "bool option \<Rightarrow> tax_code_row list \<Rightarrow> jstring option \<Rightarrow> bool" where
  "sales_tax_ready using_sales_tax codes reason \<longleftrightarrow>
     reason \<noteq> Some (js ''Tax reference refresh failed.'') \<and> using_sales_tax = Some True \<and> list_ex supported_sales_code codes"

section \<open>Shared steps\<close>

definition resolve_category_account :: "jstring \<Rightarrow> jstring option \<Rightarrow> jstring \<Rightarrow> account_row option service" where
  "resolve_category_account company category_id category_name =
     (if truthy category_id then ask the_account (FindAccountById company (the category_id))
      else ask the_account (FindAccountByName company category_name))"

definition holding_account_name :: "jstring \<Rightarrow> jstring list \<Rightarrow> jstring service" where
  "holding_account_name company ids =
     (if ids = [] \<or> hd ids = [] then return (js ''Holding account'')
      else andthen (ask the_account (FindAccountById company (hd ids))) (\<lambda>row.
             return (case row of None \<Rightarrow> js ''Holding account'' | Some a \<Rightarrow> account_name a)))"

text \<open>\<open>client.fetchWriteSafety\<close> between the target and the check of \<open>lib/qbo/writeSafety.ts\<close>.\<close>

definition assert_safety :: "fresh_txn \<Rightarrow> unit service" where
  "assert_safety fresh =
     (case txn_write_safety_target (entity fresh) of
        Inl e \<Rightarrow> throw (SafetyError e)
      | Inr target \<Rightarrow>
          andthen (ask the_evidence (FetchWriteSafety target)) (\<lambda>close_date.
            case assert_qbo_write_allowed target close_date of Inl e \<Rightarrow> throw (SafetyError e) | Inr _ \<Rightarrow> return ()))"

definition audit_of :: "txn_row \<Rightarrow> actor \<Rightarrow> jsnum \<Rightarrow> audit_action \<Rightarrow> label \<Rightarrow> label \<Rightarrow> payload \<Rightarrow> audit_entry" where
  "audit_of row by_whom amt action before after content =
     \<lparr>audit_company = company_id (row_company row), audit_actor = by_whom, audit_txn = row_id row, audit_payee = row_payee row,
      audit_amount = amt, audit_action = action, audit_before = before, audit_after = after, audit_payload = content\<rparr>"

definition failed :: "txn_row \<Rightarrow> txn_status \<Rightarrow> notice \<Rightarrow> post_result" where
  "failed row st err = \<lparr>result_id = row_id row, result_ok = False, result_status = st, result_error = Some err\<rparr>"

definition succeeded :: "txn_row \<Rightarrow> txn_status \<Rightarrow> post_result" where
  "succeeded row st = \<lparr>result_id = row_id row, result_ok = True, result_status = st, result_error = None\<rparr>"

definition mark_superseded :: "txn_row \<Rightarrow> jstring \<Rightarrow> post_result service" where
  "mark_superseded row before =
     andthen (ask the_unit (Transact (row_id row) (only_status Superseded None)
         (audit_of row system_actor (row_amount row) AuditSuperseded (Text before) FixedInside NoPayload)))
       (\<lambda>_. return (failed row Superseded AlreadyCategorized))"

text \<open>\<open>None\<close>: the amount is the one the splits were built from.\<close>

definition refuse_changed_amount :: "txn_row \<Rightarrow> fresh_txn \<Rightarrow> actor \<Rightarrow> post_result option service" where
  "refuse_changed_amount row fresh by_whom =
     (let cached = legacy_cents (row_amount row); now = legacy_cents (fresh_amount fresh); err = AmountChanged cached now
      in if js_same cached now then return None
         else andthen (ask the_unit (Transact (row_id row)
                  \<lparr>set_status = Errored, set_error = Some err, set_token = Some (sync_token (entity fresh)),
                   set_amount = Some (js_over now 100), set_posted = None\<rparr>
                  (audit_of row by_whom (js_over cached 100) AuditError (Money cached) (Money now)
                    (AmountPayload (js_over now 100) (js_over cached 100) err))))
                (\<lambda>_. return (Some (failed row Errored err))))"

definition legacy_needs_staging :: "txn_row \<Rightarrow> bool service" where
  "legacy_needs_staging row =
     (if row_tax_calculation row \<noteq> None \<or> row_tax_code_id row \<noteq> None
         \<or> list_ex (\<lambda>l. split_tax_code_id l \<noteq> None) (row_splits row)
      then return True
      else andthen (ask the_attempt (FindAttempt (row_id row) False)) (\<lambda>durable_attempt.
        if durable_attempt then return True
        else if row_type row = js ''Purchase'' then return (tax_support_status (row_company row) = js ''ready'')
        else if row_type row \<noteq> js ''Deposit'' then return False
        else andthen (ask the_codes (FindTaxCodes (company_id (row_company row)))) (\<lambda>codes.
               return (sales_tax_ready (tax_using_sales_tax (row_company row)) codes (tax_support_reason (row_company row))))))"

section \<open>Posting\<close>

text \<open>The guards before the row is claimed.\<close>

definition post_guard :: "txn_row \<Rightarrow> thrown option" where
  "post_guard row =
     (let splits = split_line_dtos (row_splits row)
      in if row_status row \<noteq> Pending \<and> row_status row \<noteq> Errored then Some (WrongStatus (row_status row))
         else if splits = None \<and> \<not> truthy (row_category row) then Some CategoryMissing
         else case (case splits of None \<Rightarrow> None | Some ls \<Rightarrow> validate_splits (row_amount row) (map split_amount ls)) of
                Some f \<Rightarrow> Some (SplitsInvalid f)
              | None \<Rightarrow>
                  (if tags_required (row_company row)
                      \<and> \<not> (case splits of None \<Rightarrow> row_tags row \<noteq> [] | Some ls \<Rightarrow> list_all (\<lambda>l. split_tags l \<noteq> []) ls)
                   then Some (TagsMissing (splits \<noteq> None)) else None))"

definition write_split :: "jstring \<Rightarrow> split_row \<Rightarrow> split service" where
  "write_split company s =
     andthen (resolve_category_account company (split_category_id s) (split_category s)) (\<lambda>account_found.
       case account_found of
         None \<Rightarrow> throw (UnknownCategory (split_category s))
       | Some a \<Rightarrow> return \<lparr>amount = split_amount s, account = account_id a, memo = split_memo s\<rparr>)"

text \<open>The lines to write and the label of the result.\<close>

definition build_write_splits :: "txn_row \<Rightarrow> (split list \<times> label) service" where
  "build_write_splits row =
     (let company = company_id (row_company row)
      in case split_line_dtos (row_splits row) of
           Some ls \<Rightarrow> andthen (each (write_split company) ls) (\<lambda>ws. return (ws, SplitLabel (map split_category ls)))
         | None \<Rightarrow>
             (let category = (case row_category row of None \<Rightarrow> [] | Some c \<Rightarrow> c)
              in andthen (resolve_category_account company (row_category_id row) category) (\<lambda>account_found.
                   case account_found of
                     None \<Rightarrow> throw (UnknownCategory category)
                   | Some a \<Rightarrow> return ([\<lparr>amount = row_amount row, account = account_id a, memo = row_memo row\<rparr>],
                                  Text (if full_name a \<noteq> [] then full_name a else category)))))"

definition send_once :: "fresh_txn \<Rightarrow> split list \<Rightarrow> jstring service" where
  "send_once fresh splits = andthen (assert_safety fresh) (\<lambda>_. ask the_token (SendRecategorize fresh splits))"

datatype sent = Early post_result | Wrote jstring jstring

text \<open>
  One retry after a conflict. What is thrown comes with the token that the payload names by then;
  \<open>Wrote\<close> holds the new token and the one of the payload.
\<close>

definition with_token :: "jstring \<Rightarrow> ('q, 'r, 'e + 'a) prog \<Rightarrow> ('q, 'r, ('e \<times> jstring) + 'a) prog" where
  "with_token token p = bind p (\<lambda>v. Done (map_sum (\<lambda>e. (e, token)) id v))"

definition retry_send :: "txn_row \<Rightarrow> actor \<Rightarrow> jstring list \<Rightarrow> jstring \<Rightarrow> split list \<Rightarrow> jstring \<Rightarrow> (request, reply, (thrown \<times> jstring) + sent) prog" where
  "retry_send row by_whom holding before splits token =
     andthen (with_token token (ask the_fresh (FetchTxn (row_type row) (row_entity row)))) (\<lambda>refetched.
       case (case refetched of None \<Rightarrow> None | Some again \<Rightarrow> map_option (\<lambda>_. again) (holding_line_of holding again)) of
         None \<Rightarrow> andthen (with_token token (mark_superseded row before)) (\<lambda>result. return (Early result))
       | Some again \<Rightarrow>
           andthen (with_token token (refuse_changed_amount row again by_whom)) (\<lambda>changed.
             case changed of
               Some result \<Rightarrow> return (Early result)
             | None \<Rightarrow>
                 andthen (with_token (sync_token (entity again)) (send_once again splits)) (\<lambda>new_token.
                   return (Wrote new_token (sync_token (entity again))))))"

definition send_with_retry :: "txn_row \<Rightarrow> actor \<Rightarrow> jstring list \<Rightarrow> jstring \<Rightarrow> split list \<Rightarrow> fresh_txn \<Rightarrow> (request, reply, (thrown \<times> jstring) + sent) prog" where
  "send_with_retry row by_whom holding before splits fresh =
     (let token = sync_token (entity fresh)
      in handle (andthen (with_token token (send_once fresh splits)) (\<lambda>new_token. return (Wrote new_token token)))
           (\<lambda>e. if fst e = Conflict then retry_send row by_whom holding before splits token else throw e))"

definition is_safety_error :: "thrown \<Rightarrow> bool" where
  "is_safety_error e \<longleftrightarrow> e = SafetyError SafetyUnavailable \<or> (\<exists>d. e = SafetyError (PeriodClosed d))"

definition best_effort :: "unit service \<Rightarrow> unit service" where
  "best_effort p = handle p (\<lambda>_. return ())"

definition conclude_failure :: "txn_row \<Rightarrow> actor \<Rightarrow> label \<Rightarrow> label \<Rightarrow> split list \<Rightarrow> thrown \<times> jstring \<Rightarrow> post_result service" where
  "conclude_failure row by_whom before after splits failure =
     (let e = fst failure; err = Thrown e
      in if is_safety_error e
         then andthen (ask the_unit (UpdateRow (row_id row) (only_status Pending None))) (\<lambda>_. return (failed row Pending err))
         else andthen (ask the_unit (Transact (row_id row) (only_status Errored (Some err))
                (audit_of row by_whom (row_amount row) AuditError before after
                  (FailedWrite (row_type row) (row_entity row) (snd failure) splits err))))
                (\<lambda>_. return (failed row Errored err)))"

definition conclude_success :: "txn_row \<Rightarrow> actor \<Rightarrow> bool \<Rightarrow> int \<Rightarrow> label \<Rightarrow> label \<Rightarrow> split list \<Rightarrow> jstring \<Rightarrow> jstring \<Rightarrow> post_result service" where
  "conclude_success row by_whom auto_posted now before after splits new_token token =
     handle
       (andthen (ask the_unit (Transact (row_id row)
            \<lparr>set_status = Posted, set_error = None, set_token = Some new_token, set_amount = None,
             set_posted = Some (Some now, actor_id by_whom)\<rparr>
            (audit_of row by_whom (row_amount row) (if auto_posted then AuditAutoPosted else AuditPosted) before after
              (WritePayload (row_type row) (row_entity row) token splits))))
          (\<lambda>_. return (succeeded row Posted)))
       (\<lambda>_.
         andthen (best_effort (ask the_unit (UpdateRow (row_id row) (only_status Errored (Some CommitFailed))))) (\<lambda>_.
         andthen (best_effort (ask the_unit (WriteAudit (audit_of row by_whom (row_amount row) AuditError before after
             (FailedWrite (row_type row) (row_entity row) token splits CommitFailed))))) (\<lambda>_.
         return (failed row Errored CommitFailed))))"

text \<open>The body of the \<open>try\<close> that follows the claim.\<close>

definition post_claimed :: "bool \<Rightarrow> txn_row \<Rightarrow> actor \<Rightarrow> bool \<Rightarrow> post_result service" where
  "post_claimed env_dry_run row by_whom auto_posted =
     (let company = row_company row; holding = json_string_array (holding_account_ids company)
      in andthen (ask the_unit (GetClient (company_id company))) (\<lambda>_.
         andthen (ask the_fresh (FetchTxn (row_type row) (row_entity row))) (\<lambda>read_now.
         case (case read_now of None \<Rightarrow> None | Some fresh \<Rightarrow> map_option (\<lambda>l. (fresh, l)) (holding_line_of holding fresh)) of
           None \<Rightarrow> andthen (holding_account_name (company_id company) holding) (\<lambda>name. mark_superseded row name)
         | Some (fresh, line) \<Rightarrow>
             andthen (refuse_changed_amount row fresh by_whom) (\<lambda>changed.
             case changed of
               Some result \<Rightarrow> return result
             | None \<Rightarrow>
                 andthen (build_write_splits row) (\<lambda>(splits, after).
                 andthen (ask (Inr \<circ> the_time) ReadClock) (\<lambda>now.
                 if dry_run company \<or> env_dry_run
                 then andthen (ask the_unit (Transact (row_id row)
                          \<lparr>set_status = DryRun, set_error = None, set_token = Some (sync_token (entity fresh)), set_amount = None,
                           set_posted = Some (Some now, actor_id by_whom)\<rparr>
                          (audit_of row by_whom (row_amount row) AuditDryRun (Text (snd line)) after
                            (WritePayload (row_type row) (row_entity row) (sync_token (entity fresh)) splits))))
                        (\<lambda>_. return (succeeded row DryRun))
                 else bind (send_with_retry row by_whom holding (snd line) splits fresh) (\<lambda>outcome.
                        case outcome of
                          Inl failure \<Rightarrow> conclude_failure row by_whom (Text (snd line)) after splits failure
                        | Inr (Early result) \<Rightarrow> return result
                        | Inr (Wrote new_token token) \<Rightarrow>
                            conclude_success row by_whom auto_posted now (Text (snd line)) after splits new_token token)))))))"

definition post_transaction :: "bool \<Rightarrow> jstring \<Rightarrow> actor \<Rightarrow> bool \<Rightarrow> post_result service" where
  "post_transaction env_dry_run txn_id by_whom auto_posted =
     andthen (ask the_row (FindTransaction txn_id)) (\<lambda>found_row.
       case found_row of
         None \<Rightarrow> throw RowMissing
       | Some row \<Rightarrow>
           andthen (legacy_needs_staging row) (\<lambda>needs_staging.
             if needs_staging then throw StagingRequired
             else case post_guard row of
                    Some e \<Rightarrow> throw e
                  | None \<Rightarrow>
                      andthen (ask the_count (ClaimPosting txn_id)) (\<lambda>claimed.
                        if claimed \<noteq> 1 then throw AlreadyPosting
                        else handle (post_claimed env_dry_run row by_whom auto_posted)
                               (\<lambda>e. andthen (best_effort (ask the_unit (UpdateRow txn_id (only_status Errored (Some (Thrown e))))))
                                  (\<lambda>_. return \<lparr>result_id = txn_id, result_ok = False, result_status = Errored, result_error = Some (Thrown e)\<rparr>)))))"

section \<open>Undoing a post\<close>

definition undo_window :: int where
  "undo_window = 30 * 24 * 60 * 60 * 1000"

datatype write_outcome = Applied jstring | NotApplied | Uncertain

text \<open>A value of the prepared write compared with a text of the client (\<open>===\<close>).\<close>

definition same_text :: "jstring \<Rightarrow> json option \<Rightarrow> bool" where
  "same_text s v \<longleftrightarrow> v = Some (JStr s)"

definition line_write_outcome :: "json \<Rightarrow> thrown + (jstring \<times> jstring) option \<Rightarrow> write_outcome" where
  "line_write_outcome prepared current =
     (case current of
        Inr (Some (token, content)) \<Rightarrow>
          (let before = get prepared ''before''; expected = get prepared ''expected''
           in if same_text content (chain expected ''contentHash'') \<and> \<not> same_text token (chain before ''syncToken'')
              then Applied token
              else if same_text token (chain before ''syncToken'') \<and> same_text content (chain before ''contentHash'')
              then NotApplied
              else Uncertain)
      | _ \<Rightarrow> Uncertain)"

definition classify_line_write_failure :: "json \<Rightarrow> (request, reply, write_outcome) prog" where
  "classify_line_write_failure prepared =
     bind (ask the_snapshot (FetchSnapshot (get prepared ''qboType'') (get prepared ''qboId'')))
       (\<lambda>current. Done (line_write_outcome prepared current))"

definition posted_line :: "jstring \<Rightarrow> jsnum \<times> jstring option \<times> jstring \<Rightarrow> split service" where
  "posted_line company p =
     andthen (resolve_category_account company (fst (snd p)) (snd (snd p))) (\<lambda>account_found.
       case account_found of
         None \<Rightarrow> throw PostedCategoryUnknown
       | Some a \<Rightarrow> return \<lparr>amount = fst p, account = account_id a, memo = None\<rparr>)"

definition posted_splits :: "txn_row \<Rightarrow> (jsnum \<times> jstring option \<times> jstring) list" where
  "posted_splits row =
     (case split_line_dtos (row_splits row) of
        Some ls \<Rightarrow> map (\<lambda>l. (split_amount l, split_category_id l, split_category l)) ls
      | None \<Rightarrow> [(row_amount row, row_category_id row, case row_category row of None \<Rightarrow> [] | Some c \<Rightarrow> c)])"

definition posted_label :: "txn_row \<Rightarrow> label" where
  "posted_label row =
     (case split_line_dtos (row_splits row) of
        Some ls \<Rightarrow> SplitLabel (map split_category ls)
      | None \<Rightarrow> Text (case row_category row of None \<Rightarrow> [0x2014] | Some c \<Rightarrow> c))"

datatype undo_step = UndoEarly post_result | UndoWritten jstring

text \<open>The write that reverses a post, up to the token QuickBooks has afterwards.\<close>

definition reverse_post :: "txn_row \<Rightarrow> actor \<Rightarrow> jstring \<Rightarrow> jstring \<Rightarrow> undo_step service" where
  "reverse_post row by_whom holding holding_name =
     (let company = company_id (row_company row)
      in andthen (ask the_unit (GetClient company)) (\<lambda>_.
         andthen (ask the_fresh (FetchTxn (row_type row) (row_entity row))) (\<lambda>read_now.
         case read_now of
           None \<Rightarrow> throw EntityGone
         | Some fresh \<Rightarrow>
             (if sync_token (entity fresh) \<noteq> row_token row then throw EditedSincePost
              else andthen (each (posted_line company) (posted_splits row)) (\<lambda>lines.
                   andthen (assert_safety fresh) (\<lambda>_.
                   andthen (ask (Inr \<circ> the_id) NewRequestId) (\<lambda>request_id.
                   andthen (ask the_prepared (PrepareRestore fresh lines holding request_id)) (\<lambda>prepared.
                   handle (andthen (ask the_token (SendPrepared prepared)) (\<lambda>token. return (UndoWritten token)))
                     (\<lambda>e. if e = Conflict then throw e
                          else bind (classify_line_write_failure prepared) (\<lambda>outcome.
                            case outcome of
                              NotApplied \<Rightarrow> throw e
                            | Applied token \<Rightarrow> return (UndoWritten token)
                            | Uncertain \<Rightarrow>
                                andthen (ask the_unit (Transact (row_id row) (only_status Errored (Some UndoUncertain))
                                    (audit_of row by_whom (row_amount row) AuditError (posted_label row) (UndoOf holding_name)
                                      (UndoPayload (get prepared ''requestId'') UndoUncertain))))
                                  (\<lambda>_. return (UndoEarly (failed row Errored UndoUncertain)))))))))))))"

definition conclude_undo :: "txn_row \<Rightarrow> actor \<Rightarrow> jstring \<Rightarrow> jstring \<Rightarrow> bool \<Rightarrow> post_result service" where
  "conclude_undo row by_whom holding_name new_token wrote =
     handle
       (andthen (ask the_unit (Transact (row_id row)
            \<lparr>set_status = Pending, set_error = None, set_token = Some new_token, set_amount = None, set_posted = Some (None, None)\<rparr>
            (audit_of row by_whom (row_amount row) AuditReverted (posted_label row) (Requeued holding_name) NoPayload)))
          (\<lambda>_. return (succeeded row Pending)))
       (\<lambda>e. if \<not> wrote then throw e
            else andthen (best_effort (ask the_unit (UpdateRow (row_id row) (only_status Errored (Some CommitFailed))))) (\<lambda>_.
                 andthen (best_effort (ask the_unit (WriteAudit (audit_of row by_whom (row_amount row) AuditError (posted_label row)
                     (UndoOf holding_name) (UndoPayload None CommitFailed))))) (\<lambda>_.
                 return (failed row Errored CommitFailed))))"

definition undo_post :: "jstring \<Rightarrow> actor \<Rightarrow> post_result service" where
  "undo_post txn_id by_whom =
     andthen (ask the_row (FindTransaction txn_id)) (\<lambda>found_row.
       case found_row of
         None \<Rightarrow> throw RowMissing
       | Some row \<Rightarrow>
           andthen (legacy_needs_staging row) (\<lambda>needs_staging.
             if needs_staging then throw StagingRequired
             else if row_status row \<noteq> Posted \<and> row_status row \<noteq> DryRun then throw (WrongStatus (row_status row))
             else case row_posted_at row of
                    None \<Rightarrow> throw UndoWindowPassed
                  | Some posted_at \<Rightarrow>
                      andthen (ask (Inr \<circ> the_time) ReadClock) (\<lambda>now.
                        let holding = json_string_array (holding_account_ids (row_company row))
                        in if undo_window < now - posted_at then throw UndoWindowPassed
                           else if holding = [] \<or> hd holding = [] then throw NoHoldingAccount
                           else andthen (holding_account_name (company_id (row_company row)) holding) (\<lambda>name.
                             if row_status row = Posted
                             then andthen (reverse_post row by_whom (hd holding) name) (\<lambda>step.
                                    case step of
                                      UndoEarly result \<Rightarrow> return result
                                    | UndoWritten token \<Rightarrow> conclude_undo row by_whom name token True)
                             else conclude_undo row by_whom name (row_token row) False))))"

section \<open>Retrying and posting in bulk\<close>

definition retry_error :: "jstring \<Rightarrow> post_result service" where
  "retry_error txn_id =
     andthen (ask the_row (FindTransaction txn_id)) (\<lambda>found_row.
       case found_row of
         None \<Rightarrow> throw RowMissing
       | Some row \<Rightarrow>
           (if row_status row \<noteq> Errored then throw (WrongStatus (row_status row))
            else andthen (ask the_attempt (FindAttempt txn_id True)) (\<lambda>unresolved.
              if unresolved then throw MutationBlocked
              else let company = company_id (row_company row); holding = json_string_array (holding_account_ids (row_company row))
                   in andthen (ask the_unit (GetClient company)) (\<lambda>_.
                      andthen (ask the_fresh (FetchTxn (row_type row) (row_entity row))) (\<lambda>read_now.
                      case (case read_now of None \<Rightarrow> None | Some fresh \<Rightarrow> map_option (\<lambda>_. fresh) (holding_line_of holding fresh)) of
                        None \<Rightarrow> andthen (holding_account_name company holding) (\<lambda>name. mark_superseded row name)
                      | Some fresh \<Rightarrow>
                          andthen (ask the_unit (UpdateRow txn_id
                              \<lparr>set_status = Pending, set_error = None, set_token = Some (sync_token (entity fresh)),
                               set_amount = None, set_posted = None\<rparr>))
                            (\<lambda>_. return (succeeded row Pending)))))))"

text \<open>One after the other; what a post throws becomes its result.\<close>

definition bulk_post :: "bool \<Rightarrow> jstring list \<Rightarrow> actor \<Rightarrow> post_result list service" where
  "bulk_post env_dry_run txn_ids by_whom =
     each (\<lambda>i. handle (post_transaction env_dry_run i by_whom False)
                 (\<lambda>e. return \<lparr>result_id = i, result_ok = False, result_status = Pending, result_error = Some (Thrown e)\<rparr>)) txn_ids"

end
