(* ===== verification/PostingWatch.thy ===== *)
theory PostingWatch
  imports Posting
begin

text \<open>
  What an execution of the posting lifecycle does, as an observer of its calls sees it: the row
  it read, what it last read of the entity and whether the guard of closed periods admitted it,
  the writes it sent, the status it last wrote and the commits with their audit entries.
\<close>

record view =
  seen_row :: "txn_row option"
  claimed :: bool
  last_read :: "fresh_txn option"
  cleared :: bool
  sends :: "(fresh_txn \<times> split list \<times> (thrown + jstring)) list"
  guarded :: bool
  written :: "txn_status option"
  missed :: bool
  commits :: "(row_update \<times> audit_entry) list"
  prepared_undo :: "(split list \<times> jstring \<times> json) option"
  undo_sends :: "(json \<times> (thrown + jstring)) list"
  read_back :: "(thrown + (jstring \<times> jstring) option) option"

definition start :: view where
  "start = \<lparr>seen_row = None, claimed = False, last_read = None, cleared = False, sends = [], guarded = True,
     written = None, missed = False, commits = [], prepared_undo = None, undo_sends = [], read_back = None\<rparr>"

text \<open>A read serves one write: the send uses it up.\<close>

definition watch :: "request \<Rightarrow> reply \<Rightarrow> view \<Rightarrow> view" where
  "watch q r v =
     (case q of
        FindTransaction i \<Rightarrow> (case the_row r of Inr (Some row) \<Rightarrow> v\<lparr>seen_row := Some row\<rparr> | _ \<Rightarrow> v)
      | ClaimPosting i \<Rightarrow> (if the_count r = Inr 1 then v\<lparr>claimed := True, written := Some Posting, missed := False\<rparr> else v)
      | FetchTxn t i \<Rightarrow> (case the_fresh r of Inr f \<Rightarrow> v\<lparr>last_read := f, cleared := False\<rparr> | _ \<Rightarrow> v)
      | FetchWriteSafety target \<Rightarrow>
          (case (the_evidence r, last_read v) of
             (Inr d, Some f) \<Rightarrow>
               v\<lparr>cleared := (txn_write_safety_target (entity f) = Inr target \<and> assert_qbo_write_allowed target d = Inr ())\<rparr>
           | _ \<Rightarrow> v)
      | SendRecategorize f ss \<Rightarrow>
          v\<lparr>sends := sends v @ [(f, ss, the_token r)], guarded := (guarded v \<and> last_read v = Some f \<and> cleared v),
             last_read := None, cleared := False\<rparr>
      | Transact i u a \<Rightarrow>
          (case the_unit r of
             Inr _ \<Rightarrow> v\<lparr>written := Some (set_status u), missed := False, commits := commits v @ [(u, a)]\<rparr>
           | Inl e \<Rightarrow> v\<lparr>missed := True\<rparr>)
      | UpdateRow i u \<Rightarrow>
          (case the_unit r of Inr _ \<Rightarrow> v\<lparr>written := Some (set_status u), missed := False\<rparr> | Inl e \<Rightarrow> v\<lparr>missed := True\<rparr>)
      | PrepareRestore f ss h i \<Rightarrow>
          (case the_prepared r of
             Inr p \<Rightarrow> v\<lparr>prepared_undo := Some (ss, h, p), guarded := (guarded v \<and> last_read v = Some f \<and> cleared v)\<rparr>
           | Inl e \<Rightarrow> v)
      | SendPrepared p \<Rightarrow> v\<lparr>undo_sends := undo_sends v @ [(p, the_token r)]\<rparr>
      | FetchSnapshot t i \<Rightarrow> v\<lparr>read_back := Some (the_snapshot r)\<rparr>
      | _ \<Rightarrow> v)"

abbreviation sees :: "('a \<Rightarrow> view \<Rightarrow> bool) \<Rightarrow> (request, reply, 'a) prog \<Rightarrow> view \<Rightarrow> bool" where
  "sees \<equiv> always answers watch"

named_theorems sees_ask

lemmas reply_kinds = is_AttemptReply_def is_CodesReply_def is_CountReply_def is_UnitReply_def is_FreshReply_def
  is_AccountReply_def is_EvidenceReply_def is_TokenReply_def is_PreparedReply_def is_SnapshotReply_def is_TimeReply_def is_IdReply_def

lemma sees_row [sees_ask]:
  "sees Q (ask the_row (FindTransaction i)) s
    = (\<forall>x. (\<forall>row. x = Inr (Some row) \<longrightarrow> row_id row = i) \<longrightarrow>
        Q x (case x of Inr (Some row) \<Rightarrow> s\<lparr>seen_row := Some row\<rparr> | _ \<Rightarrow> s))"
proof -
  have found: "answers (FindTransaction i) r \<longleftrightarrow> (\<exists>x. r = RowReply x \<and> (\<forall>row. x = Inr (Some row) \<longrightarrow> row_id row = i))" for r
    by (cases r) (auto split: sum.splits option.splits)
  have all: "(\<forall>r. answers (FindTransaction i) r \<longrightarrow> P r)
      \<longleftrightarrow> (\<forall>x. (\<forall>row. x = Inr (Some row) \<longrightarrow> row_id row = i) \<longrightarrow> P (RowReply x))" for P
    unfolding found by blast
  show ?thesis unfolding ask_def always.simps all by (simp add: watch_def)
qed

lemma sees_claim [sees_ask]:
  "sees Q (ask the_count (ClaimPosting i)) s
    = (\<forall>x. Q x (if x = Inr 1 then s\<lparr>claimed := True, written := Some Posting, missed := False\<rparr> else s))"
  by (auto simp: ask_def watch_def reply_kinds)

lemma sees_fetch [sees_ask]:
  "sees Q (ask the_fresh (FetchTxn t i)) s = (\<forall>x. Q x (case x of Inr f \<Rightarrow> s\<lparr>last_read := f, cleared := False\<rparr> | _ \<Rightarrow> s))"
  by (auto simp: ask_def watch_def reply_kinds)

lemma sees_evidence [sees_ask]:
  "sees Q (ask the_evidence (FetchWriteSafety target)) s
    = (\<forall>x. Q x (case (x, last_read s) of
          (Inr d, Some f) \<Rightarrow>
            s\<lparr>cleared := (txn_write_safety_target (entity f) = Inr target \<and> assert_qbo_write_allowed target d = Inr ())\<rparr>
        | _ \<Rightarrow> s))"
  by (auto simp: ask_def watch_def reply_kinds)

lemma sees_send [sees_ask]:
  "sees Q (ask the_token (SendRecategorize f ss)) s
    = (\<forall>x. Q x (s\<lparr>sends := sends s @ [(f, ss, x)], guarded := (guarded s \<and> last_read s = Some f \<and> cleared s),
         last_read := None, cleared := False\<rparr>))"
  by (auto simp: ask_def watch_def reply_kinds)

lemma sees_update [sees_ask]:
  "sees Q (ask the_unit (Transact i u a)) s
    = (\<forall>x. Q x (case x of Inr _ \<Rightarrow> s\<lparr>written := Some (set_status u), missed := False, commits := commits s @ [(u, a)]\<rparr>
         | Inl e \<Rightarrow> s\<lparr>missed := True\<rparr>))"
  "sees Q (ask the_unit (UpdateRow i u)) s
    = (\<forall>x. Q x (case x of Inr _ \<Rightarrow> s\<lparr>written := Some (set_status u), missed := False\<rparr> | Inl e \<Rightarrow> s\<lparr>missed := True\<rparr>))"
  by (auto simp: ask_def watch_def reply_kinds)

lemma sees_attempt [sees_ask]: "sees Q (ask the_attempt (FindAttempt i b)) s = (\<forall>x. Q x s)"
  and sees_codes [sees_ask]: "sees Q' (ask the_codes (FindTaxCodes c)) s = (\<forall>x. Q' x s)"
  and sees_by_id [sees_ask]: "sees R (ask the_account (FindAccountById c i)) s = (\<forall>x. R x s)"
  and sees_by_name [sees_ask]: "sees R (ask the_account (FindAccountByName c i)) s = (\<forall>x. R x s)"
  and sees_prepare [sees_ask]: "sees P (ask the_prepared (PrepareRestore f ss h i)) s
    = (\<forall>x. P x (case x of
          Inr p \<Rightarrow> s\<lparr>prepared_undo := Some (ss, h, p), guarded := (guarded s \<and> last_read s = Some f \<and> cleared s)\<rparr>
        | Inl e \<Rightarrow> s))"
  and sees_prepared [sees_ask]: "sees T (ask the_token (SendPrepared p)) s = (\<forall>x. T x (s\<lparr>undo_sends := undo_sends s @ [(p, x)]\<rparr>))"
  and sees_snapshot [sees_ask]: "sees S (ask the_snapshot (FetchSnapshot t' i')) s = (\<forall>x. S x (s\<lparr>read_back := Some x\<rparr>))"
  and sees_client [sees_ask]: "sees U (ask the_unit (GetClient c)) s = (\<forall>x. U x s)"
  and sees_audit [sees_ask]: "sees U (ask the_unit (WriteAudit a)) s = (\<forall>x. U x s)"
  and sees_clock [sees_ask]: "sees C (ask (Inr \<circ> the_time) ReadClock) s = (\<forall>x. C (Inr x) s)"
  and sees_new_id [sees_ask]: "sees N (ask (Inr \<circ> the_id) NewRequestId) s = (\<forall>x. N (Inr x) s)"
  by (auto simp: ask_def watch_def reply_kinds)

end
