(* ===== verification/PostingProofs.thy ===== *)
theory PostingProofs
  imports PostingWatch
begin

text \<open>Posting settles the row, writes only what it has checked, and reports what it has done.\<close>

section \<open>Steps that only read the database\<close>

lemma quiet_resolve: "(\<And>v. Q v s) \<Longrightarrow> sees Q (resolve_category_account c i n) s"
  by (simp add: resolve_category_account_def sees_ask)

lemma quiet_name: "(\<And>v. Q v s) \<Longrightarrow> sees Q (holding_account_name c ids) s"
  by (auto simp: holding_account_name_def sees_ask split: sum.splits)

lemma quiet_staging: "(\<And>v. Q v s) \<Longrightarrow> sees Q (legacy_needs_staging row) s"
  by (auto simp: legacy_needs_staging_def sees_ask split: sum.splits)

lemma quiet_write_split:
  assumes "\<And>v. (\<And>w. v = Inr w \<Longrightarrow> amount w = split_amount l) \<Longrightarrow> Q v s"
  shows "sees Q (write_split c l) s"
  by (auto simp: write_split_def split: sum.splits option.splits intro!: quiet_resolve assms)

lemma quiet_each:
  assumes "\<And>x. x \<in> set xs \<Longrightarrow> sees (\<lambda>v s'. s' = s \<and> (case v of Inl e \<Rightarrow> True | Inr y \<Rightarrow> R x y)) (f x) s"
    "\<And>v. (\<And>ys. v = Inr ys \<Longrightarrow> list_all2 R xs ys) \<Longrightarrow> Q v s"
  shows "sees Q (each f xs) s"
proof -
  have "sees (\<lambda>v s'. s' = s \<and> (case v of Inl e \<Rightarrow> True | Inr ys \<Rightarrow> list_all2 R xs ys)) (each f xs) s"
    by (rule always_each [where I = "\<lambda>s'. s' = s" and E = "\<lambda>e. True", OF _ refl]) (use assms(1) in simp)
  then show ?thesis by (rule always_mono) (auto split: sum.splits intro: assms(2))
qed

text \<open>The splits to be written have the amounts that were validated.\<close>

definition validated_amounts :: "txn_row \<Rightarrow> jsnum list" where
  "validated_amounts row = (case split_line_dtos (row_splits row) of None \<Rightarrow> [row_amount row] | Some ls \<Rightarrow> map split_amount ls)"

lemma quiet_build:
  assumes "\<And>v. (\<And>ss l. v = Inr (ss, l) \<Longrightarrow> map amount ss = validated_amounts row) \<Longrightarrow> Q v s"
  shows "sees Q (build_write_splits row) s"
proof (cases "split_line_dtos (row_splits row)")
  case None
  then show ?thesis
    by (auto simp: build_write_splits_def validated_amounts_def split: sum.splits option.splits intro!: quiet_resolve assms)
next
  case (Some ls)
  have "map amount ys = map split_amount xs" if "list_all2 (\<lambda>x y. amount y = split_amount x) xs ys" for xs ys
    using that by (induction rule: list_all2_induct) auto
  then show ?thesis unfolding build_write_splits_def Some
    by (auto simp: validated_amounts_def Some split: sum.splits
        intro!: quiet_each [where R = "\<lambda>x y. amount y = split_amount x"] quiet_write_split assms)
qed

section \<open>Posting settles the row\<close>

text \<open>The status a run left behind, unless its last attempt to write it failed.\<close>

definition settled :: "txn_status \<Rightarrow> view \<Rightarrow> bool" where
  "settled st v \<longleftrightarrow> missed v \<or> written v = Some st"

lemma result_simps [simp]:
  "result_status (failed row st err) = st" "result_ok (failed row st err) = False" "result_error (failed row st err) = Some err"
  "result_status (succeeded row st) = st" "result_ok (succeeded row st)" "result_error (succeeded row st) = None"
  "result_id (failed row st err) = row_id row" "result_id (succeeded row st) = row_id row"
  by (simp_all add: failed_def succeeded_def)

lemma audit_simps [simp]:
  "audit_action (audit_of row who amt action before after content) = action"
  "audit_txn (audit_of row who amt action before after content) = row_id row"
  by (simp_all add: audit_of_def)

lemma set_status_only [simp]: "set_status (only_status st err) = st"
  by (simp add: only_status_def)

definition settled_result :: "thrown + post_result \<Rightarrow> view \<Rightarrow> bool" where
  "settled_result result v = (case result of Inl e \<Rightarrow> True | Inr r \<Rightarrow> result_status r \<noteq> Posting \<and> settled (result_status r) v)"

lemmas steps = send_once_def assert_safety_def refuse_changed_amount_def mark_superseded_def with_token_def
  conclude_failure_def conclude_success_def best_effort_def

lemma sees_superseded: "sees settled_result (mark_superseded row name) s"
  by (auto simp: mark_superseded_def sees_ask settled_result_def settled_def split: sum.splits)

lemma sees_changed:
  assumes "Q (Inr None) s" "\<And>result v. settled_result result v \<Longrightarrow> Q (map_sum id Some result) v"
  shows "sees Q (refuse_changed_amount row fresh who) s"
proof -
  have "sees (\<lambda>v s'. v = Inr None \<and> s' = s \<or> (\<exists>result. v = map_sum id Some result \<and> settled_result result s')) (refuse_changed_amount row fresh who) s"
    by (auto simp: refuse_changed_amount_def Let_def sees_ask settled_result_def settled_def split: sum.splits)
  then show ?thesis by (rule always_mono) (auto intro: assms)
qed

section \<open>What is sent\<close>

text \<open>
  Up to two writes, the second after a conflict of the first; each carries the validated amounts to
  an entity that still has a line of a holding account and the amount of the row.
\<close>

definition send_ok :: "txn_row \<Rightarrow> fresh_txn \<times> split list \<times> (thrown + jstring) \<Rightarrow> bool" where
  "send_ok row w \<longleftrightarrow>
     holding_line_of (json_string_array (holding_account_ids (row_company row))) (fst w) \<noteq> None
     \<and> js_same (legacy_cents (row_amount row)) (legacy_cents (fresh_amount (fst w)))
     \<and> map amount (fst (snd w)) = validated_amounts row"

definition sends_ok :: "txn_row \<Rightarrow> (fresh_txn \<times> split list \<times> (thrown + jstring)) list \<Rightarrow> bool" where
  "sends_ok row ws \<longleftrightarrow>
     list_all (send_ok row) ws \<and> length ws \<le> 2 \<and> list_all (\<lambda>w. snd (snd w) = Inl Conflict) (butlast ws)"

definition accepted :: "(fresh_txn \<times> split list \<times> (thrown + jstring)) list \<Rightarrow> jstring option" where
  "accepted ws = (if ws = [] then None else case snd (snd (last ws)) of Inr token \<Rightarrow> Some token | Inl e \<Rightarrow> None)"

lemma accepted_simps [simp]:
  "accepted [] = None"
  "accepted [(f, ss, x)] = (case x of Inr token \<Rightarrow> Some token | Inl e \<Rightarrow> None)"
  "accepted [w, (f, ss, x)] = (case x of Inr token \<Rightarrow> Some token | Inl e \<Rightarrow> None)"
  by (simp_all add: accepted_def)

lemma map_sum_sides [simp]:
  "map_sum g id x = Inl e \<longleftrightarrow> (\<exists>y. x = Inl y \<and> e = g y)" "map_sum g id x = Inr z \<longleftrightarrow> x = Inr z"
  by (cases x; auto)+

definition checked :: "txn_row \<Rightarrow> view \<Rightarrow> bool" where
  "checked row v \<longleftrightarrow> guarded v \<and> claimed v \<and> seen_row v = Some row \<and> sends_ok row (sends v)"

lemma sees_send_once:
  assumes "last_read s = Some fresh" "guarded s"
    "\<And>e b. Q (Inl e) (s\<lparr>cleared := b\<rparr>)"
    "\<And>x. Q x (s\<lparr>sends := sends s @ [(fresh, ss, x)], last_read := None, cleared := False\<rparr>)"
  shows "sees Q (send_once fresh ss) s"
proof -
  have g: "s\<lparr>sends := xs, guarded := True, last_read := None, cleared := False\<rparr> = s\<lparr>sends := xs, last_read := None, cleared := False\<rparr>" for xs
    using assms(2) by simp
  have c: "s = s\<lparr>cleared := cleared s\<rparr>" by simp
  have stay: "Q (Inl e) s" for e using assms(3) c by metis
  show ?thesis
    using assms(4)
    by (auto simp: send_once_def assert_safety_def sees_ask all_sum assms(1,2) g intro!: assms(3) stay split: sum.splits)
qed

text \<open>The outcome of sending.\<close>

definition sent_view :: "txn_row \<Rightarrow> (thrown \<times> jstring) + sent \<Rightarrow> view \<Rightarrow> bool" where
  "sent_view row v s \<longleftrightarrow> checked row s \<and>
     (case v of
        Inl e \<Rightarrow> accepted (sends s) = None
      | Inr (Early r) \<Rightarrow> accepted (sends s) = None \<and> settled (result_status r) s \<and> \<not> result_ok r \<and> result_status r \<noteq> Posting
      | Inr (Wrote token old) \<Rightarrow> accepted (sends s) = Some token)"

lemma sees_early:
  assumes "checked row s"
  shows "sees (\<lambda>v s'. checked row s' \<and> sends s' = sends s \<and>
      (case v of Inl e \<Rightarrow> True | Inr r \<Rightarrow> settled (result_status r) s' \<and> \<not> result_ok r \<and> result_status r \<noteq> Posting)) (mark_superseded row name) s"
    "sees (\<lambda>v s'. checked row s' \<and> sends s' = sends s \<and>
      (case v of Inl e \<Rightarrow> True | Inr None \<Rightarrow> s' = s \<and> js_same (legacy_cents (row_amount row)) (legacy_cents (fresh_amount fresh))
       | Inr (Some r) \<Rightarrow> settled (result_status r) s' \<and> \<not> result_ok r \<and> result_status r \<noteq> Posting)) (refuse_changed_amount row fresh who) s"
  using assms
  by (auto simp: mark_superseded_def refuse_changed_amount_def Let_def sees_ask settled_def checked_def
      split: sum.splits)

lemma sends_ok_first: "send_ok row (f, ss, x) \<Longrightarrow> sends_ok row [(f, ss, x)]"
  by (simp add: sends_ok_def)

lemma sends_ok_second:
  "send_ok row (f, ss, Inl Conflict) \<Longrightarrow> send_ok row (f', ss', x) \<Longrightarrow> sends_ok row [(f, ss, Inl Conflict), (f', ss', x)]"
  by (simp add: sends_ok_def)

lemma sees_retry:
  assumes "guarded s" "claimed s" "seen_row s = Some row" "sends s = [] \<or> (\<exists>f. sends s = [(f, ss, Inl Conflict)] \<and> send_ok row (f, ss, Inl Conflict))"
    "map amount ss = validated_amounts row"
  shows "sees (sent_view row) (retry_send row who (json_string_array (holding_account_ids (row_company row))) before ss token) s"
proof -
  have ok: "sends_ok row (sends s)" "accepted (sends s) = None" using assms(4) by (auto simp: sends_ok_def)
  have again: "sends_ok row (sends s @ [(again, ss, x)]) \<and> accepted (sends s @ [(again, ss, x)]) = accepted [(again, ss, x)]"
    if "holding_line_of (json_string_array (holding_account_ids (row_company row))) again = Some l"
      "js_same (legacy_cents (row_amount row)) (legacy_cents (fresh_amount again))" for again l x
    using assms(4,5) that by (auto simp: send_ok_def sends_ok_def)
  show ?thesis
    by (auto simp: retry_send_def with_token_def sees_ask all_sum sent_view_def checked_def assms(1-3) ok again
        split: option.splits sum.splits intro!: sees_early [THEN always_mono] sees_send_once)
qed

lemma sees_send_with_retry:
  assumes "guarded s" "claimed s" "seen_row s = Some row" "sends s = []" "last_read s = Some fresh" "\<And>x. send_ok row (fresh, ss, x)"
  shows "sees (sent_view row) (send_with_retry row who (json_string_array (holding_account_ids (row_company row))) before ss fresh) s"
proof -
  have amounts: "map amount ss = validated_amounts row" using assms(6) by (simp add: send_ok_def)
  show ?thesis
    by (auto simp: send_with_retry_def with_token_def Let_def sent_view_def checked_def assms amounts sends_ok_def
        split: sum.splits intro!: sees_send_once sees_retry)
qed

section \<open>What a run reports\<close>

text \<open>The last commit holds the outcome with its audit entry: the new token after a write, nothing sent in a dry run.\<close>

definition committed :: "txn_status \<Rightarrow> view \<Rightarrow> bool" where
  "committed st v \<longleftrightarrow>
     commits v \<noteq> [] \<and> set_status (fst (last (commits v))) = st
     \<and> (if st = DryRun then sends v = [] \<and> audit_action (snd (last (commits v))) = AuditDryRun
        else st = Posted \<and> accepted (sends v) \<noteq> None \<and> set_token (fst (last (commits v))) = accepted (sends v)
          \<and> audit_action (snd (last (commits v))) \<in> {AuditPosted, AuditAutoPosted})"

definition report_ok :: "bool \<Rightarrow> txn_row \<Rightarrow> thrown + post_result \<Rightarrow> view \<Rightarrow> bool" where
  "report_ok env_dry_run row result v \<longleftrightarrow>
     checked row v \<and> (dry_run (row_company row) \<or> env_dry_run \<longrightarrow> sends v = []) \<and>
     (case result of
        Inl e \<Rightarrow> accepted (sends v) = None
      | Inr r \<Rightarrow>
          result_status r \<noteq> Posting \<and> settled (result_status r) v
          \<and> (accepted (sends v) \<noteq> None \<longrightarrow> result_status r = Posted \<or> result_error r = Some CommitFailed)
          \<and> (result_ok r \<longrightarrow> committed (result_status r) v))"

lemma sees_conclude_failure:
  assumes "checked row s" "accepted (sends s) = None" "\<not> dry"
  shows "sees (\<lambda>result v. checked row v \<and> accepted (sends v) = None
      \<and> (case result of Inl e \<Rightarrow> True | Inr r \<Rightarrow> result_status r \<noteq> Posting \<and> settled (result_status r) v \<and> \<not> result_ok r))
    (conclude_failure row who before after ss failure) s"
  using assms
  by (auto simp: conclude_failure_def Let_def sees_ask settled_def checked_def split: sum.splits)

lemma sees_conclude_success:
  assumes "checked row s" "accepted (sends s) = Some token"
  shows "sees (\<lambda>result v. checked row v \<and> accepted (sends v) = Some token
      \<and> (case result of Inl e \<Rightarrow> False
         | Inr r \<Rightarrow> settled (result_status r) v \<and> (r = succeeded row Posted \<and> committed Posted v \<or> r = failed row Errored CommitFailed)))
    (conclude_success row who auto_posted now before after ss token old) s"
  using assms
  by (auto simp: conclude_success_def best_effort_def sees_ask settled_def checked_def committed_def
      split: sum.splits)

lemma sees_claimed:
  assumes "guarded s" "claimed s" "seen_row s = Some row" "sends s = []"
  shows "sees (report_ok env row) (post_claimed env row who auto_posted) s"
proof -
  have none: "guarded v \<Longrightarrow> claimed v \<Longrightarrow> seen_row v = Some row \<Longrightarrow> sends v = [] \<Longrightarrow> checked row v" for v by (simp add: checked_def sends_ok_def)
  have ok: "send_ok row (fresh, ss, x)"
    if "holding_line_of (json_string_array (holding_account_ids (row_company row))) fresh \<noteq> None"
      "js_same (legacy_cents (row_amount row)) (legacy_cents (fresh_amount fresh))"
      "map amount ss = validated_amounts row" for fresh ss x
    using that by (simp add: send_ok_def)
  show ?thesis
    by (auto simp: post_claimed_def Let_def sees_ask all_sum assms none report_ok_def sent_view_def settled_def committed_def
        split: option.splits sum.splits sent.splits
        intro!: quiet_name sees_early [THEN always_mono] quiet_build sees_send_with_retry [THEN always_mono]
          sees_conclude_failure [THEN always_mono] sees_conclude_success [THEN always_mono] ok)
qed

section \<open>The properties of posting\<close>

definition posting_view :: "bool \<Rightarrow> thrown + post_result \<Rightarrow> view \<Rightarrow> bool" where
  "posting_view env_dry_run result v \<longleftrightarrow> guarded v \<and>
     (if claimed v
      then (\<exists>row r. seen_row v = Some row \<and> post_guard row = None \<and> result = Inr r \<and> report_ok env_dry_run row result v)
      else sends v = [] \<and> commits v = [] \<and> written v = None \<and> (\<exists>e. result = Inl e))"

lemma sees_post: "sees (posting_view env) (post_transaction env i who auto_posted) start"
  by (auto simp: post_transaction_def sees_ask all_sum posting_view_def start_def report_ok_def checked_def settled_def best_effort_def
      split: option.splits sum.splits intro!: quiet_staging sees_claimed [THEN always_mono])

text \<open>
  C4. Nothing reaches QuickBooks unchecked: a post sends only after it has claimed a row that
  passes the guards, never in a dry run, at most twice and the second time only after a conflict;
  each write goes to an entity read just before, which the guard of closed periods admitted, which
  still has a line of a holding account and the amount of the row, with the validated amounts.
\<close>

theorem post_sends_checked:
  assumes "runs answers (post_transaction env i who auto_posted) t result" "v = seen watch t start"
  shows "guarded v \<and> (sends v = [] \<or>
    (\<exists>row. seen_row v = Some row \<and> claimed v \<and> post_guard row = None \<and> \<not> dry_run (row_company row) \<and> \<not> env
       \<and> list_all (send_ok row) (sends v)
       \<and> (length (sends v) = 1 \<or> length (sends v) = 2 \<and> snd (snd (hd (sends v))) = Inl Conflict)))"
proof -
  have one_two: "length ws = 1 \<or> length ws = 2 \<and> snd (snd (hd ws)) = Inl Conflict"
    if "length ws \<le> 2" "ws \<noteq> []" "list_all (\<lambda>w. snd (snd w) = Inl Conflict) (butlast ws)" for ws :: "(fresh_txn \<times> split list \<times> (thrown + jstring)) list"
  proof (cases ws)
    case (Cons w us)
    then show ?thesis using that by (cases us) auto
  qed (use that in simp)
  have "posting_view env result v" using alwaysD [OF sees_post assms(1)] unfolding assms(2) .
  then show ?thesis
    using one_two [of "sends v"] by (auto simp: posting_view_def report_ok_def checked_def sends_ok_def split: if_splits)
qed

text \<open>
  C5. A post that claimed its row always returns, and what it returns is what the row says,
  unless the last write of the status failed; it is never left in \<open>POSTING\<close> otherwise. It
  reports success only after a commit that holds the status and its audit entry together, with the
  token QuickBooks returned; and a write that QuickBooks accepted is reported as posted or as an
  error to be verified. A post that did not claim the row throws and writes nothing.
\<close>

theorem post_reports_outcome:
  assumes "runs answers (post_transaction env i who auto_posted) t result" "v = seen watch t start"
  shows "if claimed v
    then (\<exists>r. result = Inr r \<and> result_status r \<noteq> Posting \<and> (missed v \<or> written v = Some (result_status r))
      \<and> (\<not> result_ok r \<or> committed (result_status r) v)
      \<and> (accepted (sends v) = None \<or> result_status r = Posted \<or> result_error r = Some CommitFailed))
    else (\<exists>e. result = Inl e) \<and> sends v = [] \<and> commits v = [] \<and> written v = None"
proof -
  have "posting_view env result v" using alwaysD [OF sees_post assms(1)] unfolding assms(2) .
  then show ?thesis by (auto simp: posting_view_def report_ok_def settled_def split: if_splits)
qed

end
