(* ===== verification/UndoProofs.thy ===== *)
theory UndoProofs
  imports PostingProofs
begin

text \<open>The undo of a post sends at most one write, built from what the post wrote, and reports what became of it.\<close>

text \<open>The token of a write that is known to have landed: of the response, or read back after a failure.\<close>

definition undone :: "view \<Rightarrow> jstring option" where
  "undone v =
     (case undo_sends v of
        [(p, Inr token)] \<Rightarrow> Some token
      | [(p, Inl e)] \<Rightarrow>
          (if e = Conflict then None
           else case map_option (line_write_outcome p) (read_back v) of Some (Applied token) \<Rightarrow> Some token | _ \<Rightarrow> None)
      | _ \<Rightarrow> None)"

text \<open>The write takes back the amounts of the post from the entity as the post left it.\<close>

definition undo_send_ok :: "txn_row \<Rightarrow> view \<Rightarrow> bool" where
  "undo_send_ok row v \<longleftrightarrow>
     undo_sends v = []
     \<or> (\<exists>lines p reply fresh.
          undo_sends v = [(p, reply)]
          \<and> prepared_undo v = Some (lines, hd (json_string_array (holding_account_ids (row_company row))), p)
          \<and> map amount lines = validated_amounts row
          \<and> last_read v = Some fresh \<and> sync_token (entity fresh) = row_token row \<and> row_status row = Posted)"

lemma quiet_posted:
  assumes "\<And>v. (\<And>ls. v = Inr ls \<Longrightarrow> map amount ls = validated_amounts row) \<Longrightarrow> Q v s"
  shows "sees Q (each (posted_line c) (posted_splits row)) s"
proof (rule quiet_each [where R = "\<lambda>x y. amount y = fst x"])
  show "sees (\<lambda>v s'. s' = s \<and> (case v of Inl e \<Rightarrow> True | Inr y \<Rightarrow> amount y = fst x)) (posted_line c x) s" for x
    by (auto simp: posted_line_def split: sum.splits option.splits intro!: quiet_resolve)
next
  fix v :: "thrown + split list" assume v: "\<And>ys. v = Inr ys \<Longrightarrow> list_all2 (\<lambda>x y. amount y = fst x) (posted_splits row) ys"
  have "map amount ys = map fst xs" if "list_all2 (\<lambda>x y. amount y = fst x) xs ys"
    for xs :: "(jsnum \<times> jstring option \<times> jstring) list" and ys :: "split list"
    using that by (induction rule: list_all2_induct) auto
  moreover have "map fst (posted_splits row) = validated_amounts row"
    by (simp add: posted_splits_def validated_amounts_def split: option.splits)
  ultimately show "Q v s" using v by (intro assms) metis
qed

lemma sees_safety:
  assumes "\<And>e b. Q (Inl e) (s\<lparr>cleared := b\<rparr>)" "last_read s = Some fresh" "Q (Inr ()) (s\<lparr>cleared := True\<rparr>)"
  shows "sees Q (assert_safety fresh) s"
proof -
  have "s = s\<lparr>cleared := cleared s\<rparr>" by simp
  then have stay: "Q (Inl e) s" for e using assms(1) by metis
  show ?thesis by (auto simp: assert_safety_def sees_ask all_sum assms intro!: assms(1) stay split: sum.splits)
qed

definition undoing :: "txn_row \<Rightarrow> view \<Rightarrow> bool" where
  "undoing row v \<longleftrightarrow> guarded v \<and> seen_row v = Some row \<and> undo_send_ok row v"

lemma sees_reverse:
  assumes "guarded s" "seen_row s = Some row" "undo_sends s = []" "row_status row = Posted" "commits s = []" "written s = None"
  shows "sees (\<lambda>v s. undoing row s \<and>
      (case v of
         Inl e \<Rightarrow> commits s = [] \<and> written s = None \<and> undone s = None
       | Inr (UndoEarly r) \<Rightarrow> r = failed row Errored UndoUncertain \<and> settled Errored s \<and> undone s = None
       | Inr (UndoWritten token) \<Rightarrow> undone s = Some token \<and> commits s = [] \<and> written s = None))
    (reverse_post row who (hd (json_string_array (holding_account_ids (row_company row)))) name) s"
  by (auto simp: reverse_post_def classify_line_write_failure_def Let_def sees_ask all_sum assms undoing_def undo_send_ok_def undone_def settled_def
      split: option.splits sum.splits write_outcome.splits intro!: quiet_posted sees_safety)

lemma sees_conclude_undo:
  assumes "undoing row s" "commits s = []" "written s = None" "wrote \<longleftrightarrow> undone s \<noteq> None"
  shows "sees (\<lambda>v s'. undoing row s' \<and> undone s' = undone s \<and>
      (case v of
         Inl e \<Rightarrow> undone s = None \<and> commits s' = [] \<and> written s' = None
       | Inr r \<Rightarrow> settled (result_status r) s' \<and>
           (r = succeeded row Pending
              \<and> (\<exists>u a. commits s' = [(u, a)] \<and> set_status u = Pending \<and> set_token u = Some token \<and> audit_action a = AuditReverted)
            \<or> r = failed row Errored CommitFailed \<and> undone s \<noteq> None)))
    (conclude_undo row who name token wrote) s"
  using assms
  by (auto simp: conclude_undo_def best_effort_def sees_ask undoing_def undo_send_ok_def undone_def settled_def split: sum.splits)

definition undo_view :: "thrown + post_result \<Rightarrow> view \<Rightarrow> bool" where
  "undo_view result v \<longleftrightarrow> guarded v \<and>
     (case seen_row v of
        None \<Rightarrow> undo_sends v = [] \<and> (\<exists>e. result = Inl e)
      | Some row \<Rightarrow>
          undo_send_ok row v \<and>
          (case result of
             Inl e \<Rightarrow> commits v = [] \<and> written v = None \<and> undone v = None
           | Inr r \<Rightarrow> settled (result_status r) v \<and>
               (r = succeeded row Pending
                  \<and> (\<exists>u a. commits v = [(u, a)] \<and> set_status u = Pending \<and> audit_action a = AuditReverted
                       \<and> set_token u = (if row_status row = Posted then undone v else Some (row_token row)) \<and> set_token u \<noteq> None)
                \<or> r = failed row Errored CommitFailed \<and> undone v \<noteq> None
                \<or> r = failed row Errored UndoUncertain \<and> undone v = None)))"

lemma sees_undo: "sees undo_view (undo_post i who) start"
  by (auto simp: undo_post_def Let_def sees_ask all_sum undo_view_def start_def undoing_def undo_send_ok_def undone_def
        split: option.splits sum.splits undo_step.splits
        intro!: quiet_staging quiet_name sees_reverse [THEN always_mono] sees_conclude_undo [THEN always_mono])

section \<open>Retrying\<close>

text \<open>
  C9. An undo sends at most one write, and only for a posted row whose entity still has the token
  the post recorded, with the amounts of the post and the first holding account. It either throws
  and leaves the row as it was, the write not known to have landed, or returns what the row now
  says: back in the queue, with one commit that audits the reversal under the token the entity
  has, or an error that tells to verify in QuickBooks.
\<close>

theorem undo_reports_outcome:
  assumes "runs answers (undo_post i who) t result" "v = seen watch t start"
  shows "guarded v \<and>
    (case seen_row v of
       None \<Rightarrow> undo_sends v = [] \<and> (\<exists>e. result = Inl e)
     | Some row \<Rightarrow>
         undo_send_ok row v \<and>
         (case result of
            Inl e \<Rightarrow> commits v = [] \<and> written v = None \<and> undone v = None
          | Inr r \<Rightarrow> settled (result_status r) v \<and>
              (r = succeeded row Pending
                 \<and> (\<exists>u a. commits v = [(u, a)] \<and> set_status u = Pending \<and> audit_action a = AuditReverted
                      \<and> set_token u = (if row_status row = Posted then undone v else Some (row_token row)) \<and> set_token u \<noteq> None)
               \<or> r = failed row Errored CommitFailed \<and> undone v \<noteq> None
               \<or> r = failed row Errored UndoUncertain \<and> undone v = None)))"
  using alwaysD [OF sees_undo assms(1)] unfolding assms(2) undo_view_def .

end
