(* ===== verification/PostingBulk.thy ===== *)
theory PostingBulk
  imports UndoProofs
begin

text \<open>Posting in bulk: every request gets its result, in order, after a bounded number of calls.\<close>

section \<open>The number of calls of a post\<close>

lemma calls_ask [calls_intro]: "1 \<le> n \<Longrightarrow> calls_le fits (ask f q) n"
  by (auto simp: calls_le_def ask_def runs_Call)

lemma calls_ask_then [calls_intro]:
  assumes "\<And>t x. runs fits (ask f q) t (Inr x) \<Longrightarrow> calls_le fits (k x) (n - 1)" "1 \<le> n"
  shows "calls_le fits (andthen (ask f q) k) n"
  by (rule calls_andthen [OF calls_ask assms]) simp_all

lemma calls_more: "calls_le fits p m \<Longrightarrow> m \<le> n \<Longrightarrow> calls_le fits p n"
  by (fastforce simp: calls_le_def)

lemma calls_best_effort [calls_intro]: "1 \<le> n \<Longrightarrow> calls_le fits (best_effort (ask f q)) n"
  unfolding best_effort_def by (rule calls_handle [where m = 1]) (auto intro: calls_intro)

lemma calls_with_token: "calls_le fits p n \<Longrightarrow> calls_le fits (with_token token p) n"
  unfolding with_token_def by (rule calls_bind [where m = n]) (auto intro: calls_intro)

lemma calls_steps:
  "calls_le fits (resolve_category_account c i name) 1"
  "calls_le fits (holding_account_name c ids) 1"
  "calls_le fits (assert_safety fresh) 1"
  "calls_le fits (send_once fresh ss) 2"
  "calls_le fits (mark_superseded row before) 1"
  "calls_le fits (refuse_changed_amount row fresh who) 1"
  "calls_le fits (legacy_needs_staging row) 2"
  "calls_le fits (conclude_failure row who bl al ss failure) 1"
  "calls_le fits (conclude_success row who auto_posted now bl al ss token old) 3"
proof -
  show safety: "calls_le fits (assert_safety fresh) 1"
    by (auto simp: assert_safety_def intro!: calls_intro split: sum.splits)
  show "calls_le fits (send_once fresh ss) 2"
    unfolding send_once_def by (rule calls_andthen [OF safety]) (auto intro: calls_intro)
  show "calls_le fits (conclude_success row who auto_posted now bl al ss token old) 3"
    unfolding conclude_success_def
    by (rule calls_handle [where m = 1]) (auto intro!: calls_intro calls_andthen [OF calls_best_effort [of 1]])
qed (auto simp: resolve_category_account_def holding_account_name_def mark_superseded_def refuse_changed_amount_def Let_def
    legacy_needs_staging_def conclude_failure_def intro!: calls_intro)

lemma calls_build: "calls_le fits (build_write_splits row) (Suc (length (row_splits row)))"
proof (cases "split_line_dtos (row_splits row)")
  case None
  then show ?thesis
    by (auto simp: build_write_splits_def Let_def intro!: calls_andthen [OF calls_steps(1)] calls_intro split: option.splits)
next
  case (Some ls)
  then have len: "length ls = length (row_splits row)" by (auto simp: split_line_dtos_def split: if_splits)
  have "calls_le fits (write_split c l) 1" for c l
    unfolding write_split_def by (rule calls_andthen [OF calls_steps(1)]) (auto intro!: calls_intro split: option.splits)
  then have "calls_le fits (each (write_split c) ls) (length ls)" for c by (rule calls_each) simp
  then show ?thesis
    unfolding build_write_splits_def Let_def Some option.case len [symmetric]
    by (rule calls_andthen) (auto intro: calls_intro)
qed

lemma calls_send: "calls_le fits (send_with_retry row who ids before ss fresh) 6"
proof -
  have retry: "calls_le fits (retry_send row who ids before ss token) 4" for token
    unfolding retry_send_def
    by (auto intro!: calls_andthen [OF calls_with_token [OF calls_ask [of 1]]] calls_andthen [OF calls_with_token [OF calls_steps(4)]]
        calls_andthen [OF calls_with_token [OF calls_steps(5)]] calls_andthen [OF calls_with_token [OF calls_steps(6)]] calls_intro
        split: option.splits)
  show ?thesis unfolding send_with_retry_def Let_def
    by (rule calls_handle [where m = 2]) (auto intro!: calls_andthen [OF calls_with_token [OF calls_steps(4)]] calls_intro retry)
qed

lemma calls_claimed: "calls_le fits (post_claimed env row who auto_posted) (length (row_splits row) + 14)"
proof -
  have send: "calls_le fits (bind (send_with_retry row who ids before ss fresh) (\<lambda>outcome. case outcome of
        Inl failure \<Rightarrow> conclude_failure row who bl al ss failure
      | Inr (Early result) \<Rightarrow> return result
      | Inr (Wrote new_token token) \<Rightarrow> conclude_success row who auto_posted now bl al ss new_token token)) 9"
    for ids before ss fresh bl al now
    by (rule calls_bind [OF calls_send])
       (auto split: sum.splits sent.splits intro: calls_basic calls_steps(9) calls_more [OF calls_steps(8)])
  show ?thesis unfolding post_claimed_def Let_def
    by (auto intro!: calls_andthen [OF calls_steps(2)] calls_andthen [OF calls_steps(6)] calls_andthen [OF calls_build] calls_intro
        calls_more [OF calls_steps(5)] calls_more [OF send] split: option.splits prod.splits)
qed

text \<open>Replies whose rows have at most \<open>k\<close> splits.\<close>

definition answers_with :: "nat \<Rightarrow> request \<Rightarrow> reply \<Rightarrow> bool" where
  "answers_with k q r \<longleftrightarrow> answers q r \<and> (case r of RowReply (Inr (Some row)) \<Rightarrow> length (row_splits row) \<le> k | _ \<Rightarrow> True)"

lemma found_row_with: "runs (answers_with k) (ask the_row (FindTransaction i)) t (Inr (Some row)) \<Longrightarrow> length (row_splits row) \<le> k"
proof (unfold ask_def, elim runs_CallE)
  fix r t'
  assume "answers_with k (FindTransaction i) r" "runs (answers_with k) (Done (the_row r)) t' (Inr (Some row))"
  then show "length (row_splits row) \<le> k" by (cases r) (auto simp: answers_with_def)
qed

lemma calls_post: "calls_le (answers_with k) (post_transaction env i who auto_posted) (k + 19)"
proof -
  have "calls_le (answers_with k) (handle (post_claimed env row who auto_posted)
      (\<lambda>e. andthen (best_effort (ask the_unit (UpdateRow i (only_status Errored (Some (Thrown e))))))
        (\<lambda>_. return \<lparr>result_id = i, result_ok = False, result_status = Errored, result_error = Some (Thrown e)\<rparr>))) (k + 15)"
    if "length (row_splits row) \<le> k" for row
    by (rule calls_handle [OF calls_more [OF calls_claimed]])
       (use that in \<open>auto intro!: calls_andthen [OF calls_best_effort [of 1]] calls_intro\<close>)
  note tried = calls_more [OF this]
  show ?thesis unfolding post_transaction_def
    by (auto intro!: calls_ask_then calls_andthen [OF calls_steps(7)] calls_basic tried dest!: found_row_with
        split: option.splits)
qed

section \<open>The results\<close>

lemma always_cons: "(\<And>v s. Q v s) \<Longrightarrow> sees Q p s"
  by (induction p arbitrary: s) auto

lemma sees_ids:
  "sees (\<lambda>v s. case v of Inl e \<Rightarrow> True | Inr r \<Rightarrow> result_id r = row_id row) (mark_superseded row name) s"
  "sees (\<lambda>v s. case v of Inr (Some r) \<Rightarrow> result_id r = row_id row | _ \<Rightarrow> True) (refuse_changed_amount row fresh who) s"
  "sees (\<lambda>v s. case v of Inl e \<Rightarrow> True | Inr r \<Rightarrow> result_id r = row_id row) (conclude_failure row who bl al ss failure) s"
  "sees (\<lambda>v s. case v of Inl e \<Rightarrow> True | Inr r \<Rightarrow> result_id r = row_id row) (conclude_success row who auto_posted now bl al ss token old) s"
  by (auto simp: mark_superseded_def refuse_changed_amount_def conclude_failure_def conclude_success_def best_effort_def Let_def
      sees_ask split: sum.splits)

lemma sees_retry_id:
  "sees (\<lambda>v s. case v of Inr (Early r) \<Rightarrow> result_id r = row_id row | _ \<Rightarrow> True) (send_with_retry row who ids before ss fresh) s"
  by (auto simp: send_with_retry_def retry_send_def with_token_def Let_def all_sum sees_ask split: sum.splits option.splits
      intro!: sees_ids [THEN always_mono] always_cons [where p = "send_once f ss" for f ss])

lemma sees_claimed_id: "sees (\<lambda>v s. case v of Inl e \<Rightarrow> True | Inr r \<Rightarrow> result_id r = row_id row) (post_claimed env row who auto_posted) s"
  by (auto simp: post_claimed_def Let_def all_sum sees_ask split: sum.splits option.splits sent.splits
      intro!: sees_ids [THEN always_mono] sees_retry_id [THEN always_mono] quiet_name quiet_build)

lemma sees_post_id: "sees (\<lambda>v s. case v of Inl e \<Rightarrow> True | Inr r \<Rightarrow> result_id r = i) (post_transaction env i who auto_posted) s"
  by (auto simp: post_transaction_def best_effort_def all_sum sees_ask split: sum.splits option.splits
      intro!: quiet_staging sees_claimed_id [THEN always_mono])

text \<open>
  C33. Posting in bulk always ends: where no row has more than \<open>k\<close> splits it makes at most
  \<open>k + 19\<close> calls per transaction, whatever they answer, and returns one result per requested
  transaction, in the order of the request.
\<close>

theorem bulk_post_ends:
  assumes "runs (answers_with k) (bulk_post env ids who) t result"
  shows "length t \<le> (k + 19) * length ids \<and> (\<exists>rs. result = Inr rs \<and> map result_id rs = ids)"
proof
  have "calls_le (answers_with k) (handle (post_transaction env i who False)
      (\<lambda>e. return \<lparr>result_id = i, result_ok = False, result_status = Pending, result_error = Some (Thrown e)\<rparr>)) (k + 19)" for i
    by (rule calls_handle [OF calls_post]) (auto intro: calls_basic)
  then have "calls_le (answers_with k) (bulk_post env ids who) ((k + 19) * length ids)"
    unfolding bulk_post_def by (intro calls_each) auto
  then show "length t \<le> (k + 19) * length ids" using assms unfolding calls_le_def by blast
  have "sees (\<lambda>v s. True \<and> (case v of Inl e \<Rightarrow> False | Inr rs \<Rightarrow> list_all2 (\<lambda>i r. result_id r = i) ids rs)) (bulk_post env ids who) start"
    unfolding bulk_post_def
    by (rule always_each) (auto split: sum.splits intro!: sees_post_id [THEN always_mono])
  then have "case result of Inl e \<Rightarrow> False | Inr rs \<Rightarrow> list_all2 (\<lambda>i r. result_id r = i) ids rs"
    using alwaysD runs_mono [OF assms, of answers] by (fastforce simp: answers_with_def)
  moreover have "map result_id rs = xs" if "list_all2 (\<lambda>i r. result_id r = i) xs rs" for xs rs
    using that by (induction rule: list_all2_induct) auto
  ultimately show "\<exists>rs. result = Inr rs \<and> map result_id rs = ids" by (auto split: sum.splits)
qed

end
