(* ===== verification/SplitCheck.thy ===== *)
theory SplitCheck
  imports Posting
begin

text \<open>The check of the splits on doubles decides, for amounts of whole cents, what it should on cents.\<close>

lemma half_cent: "0 < rnd (5 / 1000)" "rnd (5 / 1000) < 7 / 800"
  by code_simp+

lemma dollars_shape:
  assumes "c \<noteq> 0" "\<bar>c\<bar> \<le> 2 ^ 50"
  shows "\<not> below_half_cent (dollars c)" "js_sign (dollars c) = Fin (of_int (sgn c))"
proof -
  obtain d where d: "dollars c = Fin d" "\<bar>d * 100 - of_int c\<bar> \<le> 1 / 8" using assms by (rule dollars_near)
  have c1: "1 \<le> \<bar>of_int c :: rat\<bar>" using assms(1) by (simp flip: of_int_abs)
  have big: "7 / 800 \<le> \<bar>d\<bar>" using c1 d(2) by linarith
  show "\<not> below_half_cent (dollars c)" using big half_cent by (simp add: d(1) below_half_cent_def)
  have "(0 < c \<longrightarrow> 0 < d) \<and> (c < 0 \<longrightarrow> d < 0)"
  proof (cases "0 < c")
    case True
    then have "1 \<le> (of_int c :: rat)" by simp
    then show ?thesis using True d(2) by linarith
  next
    case False
    then have "(of_int c :: rat) \<le> - 1" using assms(1) by simp
    then show ?thesis using False d(2) by linarith
  qed
  then show "js_sign (dollars c) = Fin (of_int (sgn c))" using assms(1) by (cases "0 < c") (auto simp: d(1) sgn_if)
qed

lemma dollars_whole:
  assumes "\<bar>c\<bar> \<le> 2 ^ 50"
  shows "js_same (js_over (cents_value (dollars c)) 100) (dollars c)"
proof -
  have "dollars c \<noteq> NaN" using assms by (rule dollars_finite) simp
  then show ?thesis using js_round_times_dollars [OF assms] by (simp add: cents_value_def js_same_def) (simp add: dollars_def)
qed

lemma shape_fault_dollars:
  assumes "\<And>k. k \<in> set cs \<Longrightarrow> \<bar>k\<bar> \<le> 2 ^ 50" "\<bar>c\<bar> \<le> 2 ^ 50"
  shows "shape_fault (js_sign (dollars c)) (map dollars cs) = None \<longleftrightarrow> list_all (\<lambda>k. k \<noteq> 0 \<and> (c = 0 \<or> sgn k = sgn c)) cs"
  using assms(1)
proof (induction cs)
  case (Cons k ks)
  have sign: "js_sign (dollars n) = Fin (of_int (sgn n))" if "\<bar>n\<bar> \<le> 2 ^ 50" for n
    using dollars_shape(2) [of n] that by (cases "n = 0") auto
  have zero: "below_half_cent (dollars k) \<longleftrightarrow> k = 0"
  proof (cases "k = 0")
    case True
    then show ?thesis using half_cent by (simp add: below_half_cent_def)
  next
    case False
    then show ?thesis using dollars_shape(1) Cons.prems by simp
  qed
  have IH: "shape_fault (js_sign (dollars c)) (map dollars ks) = None \<longleftrightarrow> list_all (\<lambda>k. k \<noteq> 0 \<and> (c = 0 \<or> sgn k = sgn c)) ks"
    using Cons by simp
  have "js_same (js_sign (dollars k)) (js_sign (dollars c)) \<longleftrightarrow> sgn k = sgn c" "js_same (js_sign (dollars c)) (Fin 0) \<longleftrightarrow> c = 0"
    using sign assms(2) Cons.prems [of k] by (auto simp: js_same_def sgn_0_0)
  then show ?case using IH by (simp add: zero)
qed simp

lemma add_cents:
  assumes "\<And>k. k \<in> set cs \<Longrightarrow> \<bar>k\<bar> \<le> 2 ^ 50" "\<bar>a\<bar> + (\<Sum>k \<leftarrow> cs. \<bar>k\<bar>) < 2 ^ 53"
  shows "foldl js_add (Fin (of_int a)) (map cents_value (map dollars cs)) = Fin (of_int (a + sum_list cs))"
  using assms
proof (induction cs arbitrary: a)
  case (Cons k ks)
  have rest: "0 \<le> (\<Sum>j \<leftarrow> ks. \<bar>j\<bar>)" by (rule sum_list_nonneg) auto
  have bound: "\<bar>a + k\<bar> + (\<Sum>j \<leftarrow> ks. \<bar>j\<bar>) < 2 ^ 53" using Cons.prems(2) by simp
  then have "fl (of_int (a + k)) = Fin (of_int (a + k))" using rest by (intro fl_of_int) linarith
  moreover have "cents_value (dollars k) = Fin (of_int k)"
    using js_round_times_dollars [of k] Cons.prems(1) by (simp add: cents_value_def)
  ultimately show ?case using Cons.IH [OF _ bound] Cons.prems(1) by (simp add: add.assoc)
qed simp



end
