(* ===== verification/PostingWitness.thy ===== *)
theory PostingWitness
  imports PostingBulk SplitCheck
begin

text \<open>The properties of the posting lifecycle at a purchase of one dollar that is posted and whose post is undone.\<close>

definition sample_company :: company_row where
  "sample_company = \<lparr>company_id = js ''c'', dry_run = False, tags_required = False, holding_account_ids = JArr [JStr (js ''h'')],
     tax_support_status = js ''unsupported'', tax_using_sales_tax = None, tax_support_reason = None\<rparr>"

definition sample_row :: "txn_status \<Rightarrow> txn_row" where
  "sample_row st = \<lparr>row_id = js ''t'', row_company = sample_company, row_type = js ''Purchase'', row_entity = js ''7'',
     row_token = js ''0'', row_payee = js ''p'', row_amount = Fin (- 1), row_category = Some (js ''Meals''), row_category_id = None,
     row_memo = None, row_status = st, row_posted_at = Some 0, row_tax_calculation = None, row_tax_code_id = None,
     row_splits = [], row_tags = []\<rparr>"

definition sample_entity :: qbo_txn where
  "sample_entity = \<lparr>qbo_id = js ''7'', qbo_type = Purchase, sync_token = js ''0'', txn_date = js ''2024-05-06'',
     raw = JObj [(js ''AccountRef'', JObj [(js ''value'', JStr (js ''bank''))])]\<rparr>"

definition sample_fresh :: fresh_txn where
  "sample_fresh = \<lparr>entity = sample_entity, fresh_amount = Fin (- 1), fresh_lines = [(js ''h'', js ''Ask My Accountant'')]\<rparr>"

definition sample_account :: account_row where
  "sample_account = \<lparr>account_id = js ''e'', account_name = js ''Meals'', full_name = js ''Meals''\<rparr>"

definition sample_actor :: actor where
  "sample_actor = \<lparr>actor_id = Some (js ''u''), actor_label = js ''User''\<rparr>"

lemma sample_cents: "js_same (legacy_cents (Fin (- 1))) (legacy_cents (Fin (- 1)))"
proof -
  have "fl (- 100) = Fin (- 100)" using fl_of_int [of "- 100"] by simp
  then show ?thesis by (simp add: legacy_cents_def cents_value_def js_same_def)
qed

lemma sample_safety:
  "txn_write_safety_target sample_entity = Inr \<lparr>target_type = js ''Purchase'', target_id = js ''7'', target_date = js ''2024-05-06'', bank_account = js ''bank''\<rparr>"
  "assert_qbo_write_allowed \<lparr>target_type = js ''Purchase'', target_id = js ''7'', target_date = js ''2024-05-06'', bank_account = js ''bank''\<rparr> None = Inr ()"
  by code_simp+

lemmas evaluate = andthen_def handle_def throw_def return_def ask_def with_token_def best_effort_def Let_def

definition sample_post_replies :: "reply list" where
  "sample_post_replies =
     [RowReply (Inr (Some (sample_row Pending))), AttemptReply (Inr False), CountReply (Inr 1), UnitReply (Inr ()),
      FreshReply (Inr (Some sample_fresh)), AccountReply (Inr (Some sample_account)), TimeReply 5, EvidenceReply (Inr None),
      TokenReply (Inr (js ''1'')), UnitReply (Inr ())]"

lemmas post_steps = post_transaction_def sample_post_replies_def evaluate legacy_needs_staging_def post_guard_def split_line_dtos_def
  truthy_def post_claimed_def holding_line_of_def refuse_changed_amount_def build_write_splits_def resolve_category_account_def
  send_with_retry_def send_once_def assert_safety_def conclude_success_def watch_def sample_row_def sample_company_def
  sample_fresh_def sample_cents sample_safety json_string_array_def List.map_filter_simps

lemma sample_post:
  "\<exists>v. play answers watch (post_transaction False (js ''t'') sample_actor False) sample_post_replies start
     = Some (Inr (succeeded (sample_row Pending) Posted), v) \<and> sends v \<noteq> []"
  by (simp add: post_steps)

lemma sample_bulk:
  "\<exists>v. play (answers_with 0) watch (bulk_post False [js ''t''] sample_actor) sample_post_replies start
     = Some (Inr [succeeded (sample_row Pending) Posted], v)"
  by (simp add: bulk_post_def answers_with_def post_steps)

definition sample_undo_replies :: "reply list" where
  "sample_undo_replies =
     [RowReply (Inr (Some (sample_row Posted))), AttemptReply (Inr False), TimeReply 5, AccountReply (Inr (Some sample_account)),
      UnitReply (Inr ()), FreshReply (Inr (Some sample_fresh)), AccountReply (Inr (Some sample_account)), EvidenceReply (Inr None),
      IdReply (js ''r''), PreparedReply (Inr (JObj [])), TokenReply (Inr (js ''1'')), UnitReply (Inr ())]"

lemma sample_undo:
  "\<exists>v. play answers watch (undo_post (js ''t'') sample_actor) sample_undo_replies start
     = Some (Inr (succeeded (sample_row Posted) Pending), v) \<and> seen_row v = Some (sample_row Posted)"
  by (simp add: undo_post_def sample_undo_replies_def evaluate legacy_needs_staging_def reverse_post_def posted_splits_def split_line_dtos_def
      truthy_def posted_line_def resolve_category_account_def holding_account_name_def undo_window_def assert_safety_def conclude_undo_def
      watch_def sample_row_def sample_company_def sample_fresh_def sample_safety sample_entity_def [symmetric] json_string_array_def
      List.map_filter_simps) (simp add: sample_entity_def)

section \<open>The properties at these executions\<close>

theorem post_sends_checked_witness:
  "\<exists>t v row. runs answers (post_transaction False (js ''t'') sample_actor False) t (Inr (succeeded (sample_row Pending) Posted))
    \<and> v = seen watch t start \<and> guarded v \<and> sends v \<noteq> [] \<and> seen_row v = Some row \<and> list_all (send_ok row) (sends v)"
proof -
  obtain v where v: "play answers watch (post_transaction False (js ''t'') sample_actor False) sample_post_replies start
      = Some (Inr (succeeded (sample_row Pending) Posted), v)" "sends v \<noteq> []" using sample_post by blast
  obtain t where t: "runs answers (post_transaction False (js ''t'') sample_actor False) t (Inr (succeeded (sample_row Pending) Posted))"
    "seen watch t start = v" using play_runs [OF v(1)] by blast
  show ?thesis using post_sends_checked [OF t(1) t(2) [symmetric]] t v(2) by blast
qed

theorem post_reports_outcome_witness:
  "\<exists>t v. runs answers (post_transaction False (js ''t'') sample_actor False) t (Inr (succeeded (sample_row Pending) Posted))
    \<and> v = seen watch t start \<and> claimed v \<and> (missed v \<or> written v = Some Posted) \<and> committed Posted v"
proof -
  obtain v where v: "play answers watch (post_transaction False (js ''t'') sample_actor False) sample_post_replies start
      = Some (Inr (succeeded (sample_row Pending) Posted), v)" using sample_post by blast
  obtain t where t: "runs answers (post_transaction False (js ''t'') sample_actor False) t (Inr (succeeded (sample_row Pending) Posted))"
    "seen watch t start = v" using play_runs [OF v] by blast
  show ?thesis using post_reports_outcome [OF t(1) t(2) [symmetric]] t by (auto split: if_splits)
qed

theorem undo_reports_outcome_witness:
  "\<exists>t v u a. runs answers (undo_post (js ''t'') sample_actor) t (Inr (succeeded (sample_row Posted) Pending))
    \<and> v = seen watch t start \<and> guarded v \<and> undo_send_ok (sample_row Posted) v \<and> commits v = [(u, a)]
    \<and> set_status u = Pending \<and> set_token u = undone v"
proof -
  obtain v where v: "play answers watch (undo_post (js ''t'') sample_actor) sample_undo_replies start
      = Some (Inr (succeeded (sample_row Posted) Pending), v)" "seen_row v = Some (sample_row Posted)" using sample_undo by blast
  obtain t where t: "runs answers (undo_post (js ''t'') sample_actor) t (Inr (succeeded (sample_row Posted) Pending))"
    "seen watch t start = v" using play_runs [OF v(1)] by blast
  have row: "row_status (sample_row Posted) = Posted" by (simp add: sample_row_def)
  have "succeeded (sample_row Posted) Pending \<noteq> failed (sample_row Posted) st err" for st err by (simp add: succeeded_def failed_def)
  then show ?thesis using undo_reports_outcome [OF t(1) t(2) [symmetric]] t v(2) by (auto simp: row)
qed

theorem bulk_post_ends_witness:
  "\<exists>t rs. runs (answers_with 0) (bulk_post False [js ''t''] sample_actor) t (Inr rs)
    \<and> length t \<le> (0 + 19) * length [js ''t''] \<and> map result_id rs = [js ''t'']"
proof -
  obtain v where v: "play (answers_with 0) watch (bulk_post False [js ''t''] sample_actor) sample_post_replies start
      = Some (Inr [succeeded (sample_row Pending) Posted], v)" using sample_bulk by blast
  obtain t where t: "runs (answers_with 0) (bulk_post False [js ''t''] sample_actor) t (Inr [succeeded (sample_row Pending) Posted])"
    using play_runs [OF v] by blast
  note ends = bulk_post_ends [OF t]
  have "map result_id [succeeded (sample_row Pending) Posted] = [js ''t'']" using conjunct2 [OF ends] by auto
  then show ?thesis using t conjunct1 [OF ends] by (intro exI [of _ t] exI [of _ "[succeeded (sample_row Pending) Posted]"] conjI)
qed

end
