(* ===== verification/TaxProofs.thy ===== *)
theory TaxProofs
  imports TaxCalc
begin

text \<open>
  What the tax calculator computes: the resolution yields proper rates, the tax-inclusive split
  and the tax-exclusive allocation are exact to the cent, and a calculation never throws.
\<close>

section \<open>The ratio of a rate\<close>

definition ratio_ok :: "ratio \<Rightarrow> bool" where
  "ratio_ok r \<longleftrightarrow> 0 \<le> fst r \<and> (\<exists>k. snd r = 10 ^ k)"

lemma ratio_okD: "ratio_ok r \<Longrightarrow> 0 \<le> fst r \<and> 0 < snd r"
  by (auto simp: ratio_ok_def)

lemma rate_ratio_ok:
  assumes "rate_value_to_ratio v = Inr r"
  shows "ratio_ok r"
proof -
  obtain x where v: "v = Fin x" "0 \<le> x" using assms by (cases v) (auto split: if_splits)
  obtain a b e where t: "number_text (Fin x) = number_parts a b e" "digit_units a" "digit_units (part_digits b)"
  proof (cases "x = 0")
    case True
    then have "number_text (Fin x) = number_parts [48] None []" by (simp add: number_parts_def js_units)
    then show ?thesis using that by (simp add: part_digits_def)
  next
    case False
    then have "number_text (Fin x) = positive_text x" "0 < x" using v(2) by simp_all
    then show ?thesis using that positive_text_parts by metis
  qed
  have "0 \<le> decimal_unscaled (decimal_coefficient (number_text (Fin x)))"
    unfolding decimal_unscaled_digits t(1) number_parts_read [OF t(2,3)] by (rule digits_value_nonneg) (simp add: t)
  then show ?thesis using assms v by (auto simp: ratio_ok_def Let_def split: if_splits intro: exI [of _ 0])
qed

section \<open>Resolved rates\<close>

lemma resolve_rate_ok: "resolve_rate rates i = Inr r \<Longrightarrow> ratio_ok r"
  by (auto simp: resolve_rate_def rate_ratio_ok split: option.splits if_splits bool.splits json.splits sum.splits)

lemma resolve_components_ok:
  "resolve_components rates seen cs = Inr rs \<Longrightarrow>
     (\<forall>c \<in> set rs. resolve_rate rates (fst c) = Inr (snd c)) \<and> distinct (map fst rs)
     \<and> set (map fst rs) \<inter> set seen = {}"
proof (induction rates seen cs arbitrary: rs rule: resolve_components.induct)
  case (2 rates seen c cs)
  then show ?case by (fastforce split: if_splits option.splits json.splits sum.splits)
qed simp

lemma resolve_line_ok:
  assumes "resolve_tax_line input calculation codes rates dir = Inr r"
  shows "(\<forall>c \<in> set (components r). resolve_rate rates (fst c) = Inr (snd c)) \<and> distinct (map fst (components r))"
  using assms resolve_components_ok [of rates "[]"]
  by (fastforce simp: resolve_tax_line_def split: if_splits option.splits sum.splits)

lemma at_line_Inr [simp]: "at_line i v = Inr r \<longleftrightarrow> v = Inr r"
  by (cases "(i, v)" rule: at_line.cases) auto

lemma resolve_lines_ok:
  "resolve_lines i inputs calculation codes rates dir = Inr rs \<Longrightarrow>
     length rs = length inputs
     \<and> (\<forall>j < length inputs. resolve_tax_line (inputs ! j) calculation codes rates dir = Inr (rs ! j))"
proof (induction i inputs calculation codes rates dir arbitrary: rs rule: resolve_lines.induct)
  case (2 i line lines calculation codes rates dir)
  then obtain r rs' where r: "resolve_tax_line line calculation codes rates dir = Inr r"
      "resolve_lines (Suc i) lines calculation codes rates dir = Inr rs'" "rs = r # rs'"
    by (auto split: sum.splits)
  then show ?case using 2(1) [of r rs'] by (auto simp: less_Suc_eq_0_disj)
qed simp

section \<open>Handing out the cents\<close>

lemma hand_out_take: "0 \<le> c \<Longrightarrow> hand_out c ss = map share_index (take (nat c) ss)"
proof (induction c ss rule: hand_out.induct)
  case (2 c s ss)
  then show ?case by (cases "nat c") (auto simp: nat_diff_distrib)
qed simp

lemma positive_first:
  "sorted (map (\<lambda>s. (- share_remainder s, share_index s)) ss) \<Longrightarrow>
     takeWhile (\<lambda>s. 0 < share_remainder s) ss = filter (\<lambda>s. 0 < share_remainder s) ss"
proof (induction ss)
  case (Cons s ss)
  show ?case
  proof (cases "0 < share_remainder s")
    case False
    then have "\<forall>x \<in> set ss. \<not> 0 < share_remainder x" using Cons.prems by fastforce
    then have "filter (\<lambda>s. 0 < share_remainder s) ss = []" by (simp only: filter_empty_conv)
    then show ?thesis using False by simp
  qed (use Cons in simp)
qed simp

lemma chosen_positive:
  assumes "n \<le> length (filter (\<lambda>s. 0 < share_remainder s) ss)" "s \<in> set (take n (by_priority ss))"
  shows "0 < share_remainder s"
proof -
  let ?p = "\<lambda>s. 0 < share_remainder s"
  have "sorted (map (\<lambda>s. (- share_remainder s, share_index s)) (by_priority ss))" by (simp add: by_priority_def)
  then have f: "takeWhile ?p (by_priority ss) = filter ?p (by_priority ss)" by (rule positive_first)
  have "mset (filter ?p (by_priority ss)) = mset (filter ?p ss)" by (simp add: by_priority_def)
  then have "n \<le> length (takeWhile ?p (by_priority ss))" using assms(1) f by (metis size_mset)
  then have "take n (by_priority ss) = take n (takeWhile ?p (by_priority ss))"
    by (metis takeWhile_dropWhile_id take_append diff_is_0_eq take0 append_Nil2)
  then show ?thesis using assms(2) by (metis in_set_takeD set_takeWhileD)
qed

lemma sum_chosen:
  fixes f :: "share \<Rightarrow> int"
  assumes "distinct (map share_index ss)" "n \<le> length ss"
  shows "(\<Sum>s \<leftarrow> ss. f s + (if share_index s \<in> set (map share_index (take n (by_priority ss))) then 1 else 0))
    = (\<Sum>s \<leftarrow> ss. f s) + int n"
proof -
  let ?p = "by_priority ss"
  have ms: "mset ?p = mset ss" by (simp add: by_priority_def)
  then have d: "distinct (map share_index ?p)" using assms(1) by (metis mset_map mset_eq_imp_distinct_iff)
  have len: "length ?p = length ss" using ms by (metis size_mset)
  let ?g = "\<lambda>s. if share_index s \<in> set (map share_index (take n ?p)) then 1 else (0::int)"
  have "(\<Sum>s \<leftarrow> ss. ?g s) = (\<Sum>s \<leftarrow> ?p. ?g s)" by (simp only: sum_mset_sum_list [symmetric] mset_map ms)
  also have "\<dots> = (\<Sum>s \<leftarrow> take n ?p. ?g s) + (\<Sum>s \<leftarrow> drop n ?p. ?g s)"
    by (simp only: sum_list_append [symmetric] map_append [symmetric] append_take_drop_id)
  also have "(\<Sum>s \<leftarrow> take n ?p. ?g s) = (\<Sum>s \<leftarrow> take n ?p. 1)" by (rule arg_cong [of _ _ sum_list], rule map_cong) auto
  also have "(\<Sum>s \<leftarrow> drop n ?p. ?g s) = (\<Sum>s \<leftarrow> drop n ?p. 0)"
  proof (rule arg_cong [of _ _ sum_list], rule map_cong)
    fix s assume "s \<in> set (drop n ?p)"
    moreover have "distinct (map share_index (take n ?p) @ map share_index (drop n ?p))"
      using d by (metis append_take_drop_id map_append)
    ultimately show "?g s = 0" by auto
  qed simp
  finally have "(\<Sum>s \<leftarrow> ss. ?g s) = int n" using assms(2) len by (simp add: sum_list_triv)
  then show ?thesis by (simp add: sum_list_addf)
qed


section \<open>The allocation of one rate\<close>

lemma nth_update_share:
  "add_shares sign extra ss lines = Inr lines' \<Longrightarrow> distinct (map share_index ss) \<Longrightarrow>
     list_all (\<lambda>s. share_index s < length lines) ss \<Longrightarrow>
     length lines' = length lines
     \<and> (\<forall>s \<in> set ss. lines' ! share_index s = (lines ! share_index s)\<lparr>line_tax := line_tax (lines ! share_index s)
           + sign * (share_tax s + (if share_index s \<in> set extra then 1 else 0))\<rparr>)
     \<and> (\<forall>i. i \<notin> share_index ` set ss \<longrightarrow> lines' ! i = lines ! i)"
proof (induction ss arbitrary: lines)
  case (Cons s ss)
  define t where "t r = sign * (share_tax (r::share) + (if share_index r \<in> set extra then 1 else 0))" for r
  define l where "l = lines[share_index s := (lines ! share_index s)\<lparr>line_tax := line_tax (lines ! share_index s) + t s\<rparr>]"
  have step: "add_shares sign extra ss l = Inr lines'"
    using Cons.prems(1) by (auto simp: to_safe_cents_def l_def t_def split: if_splits)
  have IH: "length lines' = length l"
    "\<forall>r \<in> set ss. lines' ! share_index r = (l ! share_index r)\<lparr>line_tax := line_tax (l ! share_index r) + t r\<rparr>"
    "\<forall>i. i \<notin> share_index ` set ss \<longrightarrow> lines' ! i = l ! i"
    using Cons.IH [OF step] Cons.prems(2,3) by (auto simp: l_def t_def)
  have here: "share_index s \<notin> share_index ` set ss" using Cons.prems(2) by simp
  then have others: "l ! share_index r = lines ! share_index r" if "r \<in> set ss" for r
    using that by (metis image_eqI l_def nth_list_update_neq)
  have "l ! share_index s = (lines ! share_index s)\<lparr>line_tax := line_tax (lines ! share_index s) + t s\<rparr>"
    using Cons.prems(3) by (simp add: l_def)
  then have "\<forall>r \<in> set (s # ss). lines' ! share_index r = (lines ! share_index r)\<lparr>line_tax := line_tax (lines ! share_index r) + t r\<rparr>"
    using IH(2,3) here others by simp
  moreover have "\<forall>i. i \<notin> share_index ` set (s # ss) \<longrightarrow> lines' ! i = lines ! i"
    using IH(3) by (simp add: l_def)
  ultimately show ?case using IH(1) by (simp add: l_def t_def)
qed simp

lemma add_shares_safe:
  assumes "\<And>s. s \<in> set ss \<Longrightarrow> safe_int (sign * (share_tax s + (if share_index s \<in> set extra then 1 else 0)))"
  shows "\<exists>lines'. add_shares sign extra ss lines = Inr lines'"
  using assms by (induction ss arbitrary: lines) (auto simp: to_safe_cents_def)

lemma round_ratio_shift:
  assumes "0 < d" "0 \<le> f" "0 \<le> r"
  shows "round_ratio (d * f + r) d = f + round_ratio r d"
proof -
  have "(d * f + r) div d = f + r div d" "(d * f + r) mod d = r mod d" using assms by simp_all
  moreover have "\<not> d * f + r < 0" "\<not> r < 0" using assms by (simp_all add: not_less)
  ultimately show ?thesis by (simp add: round_ratio_def Let_def)
qed

text \<open>The shares of one rate, all of one sign.\<close>

definition one_sign :: "int list \<Rightarrow> bool" where
  "one_sign gs \<longleftrightarrow> (\<forall>g \<in> set gs. 0 \<le> g) \<or> (\<forall>g \<in> set gs. g \<le> 0)"

lemma abs_sum_list_one_sign: "one_sign gs \<Longrightarrow> \<bar>sum_list gs\<bar> = (\<Sum>g \<leftarrow> gs. \<bar>g\<bar>)"
proof (induction gs)
  case (Cons g gs)
  then have "one_sign gs" by (auto simp: one_sign_def)
  moreover have "0 \<le> sum_list gs" if "\<forall>g \<in> set gs. 0 \<le> g" using that by (simp add: sum_list_nonneg)
  moreover have "sum_list gs \<le> 0" if "\<forall>g \<in> set gs. g \<le> 0" using that by (simp add: sum_list_nonpos)
  ultimately show ?case using Cons by (auto simp: one_sign_def)
qed simp

lemma remainders_bound:
  fixes gs :: "int list"
  assumes "0 < d" "\<And>g. g \<in> set gs \<Longrightarrow> 0 \<le> g"
  shows "(\<Sum>g \<leftarrow> gs. g) = d * (\<Sum>g \<leftarrow> gs. g div d) + (\<Sum>g \<leftarrow> gs. g mod d)
    \<and> 0 \<le> (\<Sum>g \<leftarrow> gs. g div d) \<and> 0 \<le> (\<Sum>g \<leftarrow> gs. g mod d)
    \<and> (\<Sum>g \<leftarrow> gs. g mod d) \<le> (d - 1) * int (length (filter (\<lambda>g. 0 < g mod d) gs))"
  using assms(2)
proof (induction gs)
  case (Cons g gs)
  have "0 \<le> g mod d" "g mod d < d" using assms(1) by simp_all
  moreover have "0 \<le> g div d" using assms(1) Cons.prems by (simp add: pos_imp_zdiv_nonneg_iff)
  moreover have "d * (g div d) + g mod d = g" by simp
  ultimately show ?case using Cons by (auto simp: distrib_left simp del: mult_div_mod_eq)
qed simp


lemma round_ratio_abs: "0 < d \<Longrightarrow> \<bar>round_ratio n d\<bar> = round_ratio \<bar>n\<bar> d"
  using round_ratio_nonneg(1) [of n d] round_ratio_nonneg(1) [of "- n" d] round_ratio_minus [of d n] by (auto simp: abs_if)

text \<open>The allocation of one rate to the magnitudes \<open>y\<close>, as the code makes it.\<close>

definition share_at :: "ratio \<Rightarrow> (nat \<Rightarrow> int) \<Rightarrow> nat \<Rightarrow> share" where
  "share_at rate y i =
     \<lparr>share_index = i, share_tax = y i * fst rate div (snd rate * 100),
      share_remainder = y i * fst rate mod (snd rate * 100)\<rparr>"

definition extra_cents :: "ratio \<Rightarrow> (nat \<Rightarrow> int) \<Rightarrow> nat list \<Rightarrow> nat list" where
  "extra_cents rate y indexes =
     hand_out (round_ratio ((\<Sum>i \<leftarrow> indexes. y i) * fst rate) (snd rate * 100)
         - (\<Sum>i \<leftarrow> indexes. share_tax (share_at rate y i)))
       (by_priority (map (share_at rate y) indexes))"

definition allocated :: "ratio \<Rightarrow> (nat \<Rightarrow> int) \<Rightarrow> nat list \<Rightarrow> nat \<Rightarrow> int" where
  "allocated rate y indexes i =
     share_tax (share_at rate y i) + (if i \<in> set (extra_cents rate y indexes) then 1 else 0)"

lemma share_of_at: "share_of rate lines = share_at rate (\<lambda>i. \<bar>line_gross (lines ! i)\<bar>)"
  by (rule ext) (simp add: share_of_def share_at_def Let_def)

lemma share_at_simps [simp]:
  "share_index (share_at rate y i) = i"
  "share_tax (share_at rate y i) = y i * fst rate div (snd rate * 100)"
  "share_remainder (share_at rate y i) = y i * fst rate mod (snd rate * 100)"
  by (simp_all add: share_at_def)

lemma allocation_counts:
  assumes "ratio_ok rate" "\<forall>i \<in> set indexes. 0 \<le> y i"
  shows "\<exists>c. round_ratio ((\<Sum>i \<leftarrow> indexes. y i) * fst rate) (snd rate * 100) - (\<Sum>i \<leftarrow> indexes. share_tax (share_at rate y i)) = int c
    \<and> c \<le> length (filter (\<lambda>s. 0 < share_remainder s) (map (share_at rate y) indexes))"
proof -
  define den where "den = snd rate * 100"
  have den: "0 < den" and N: "0 \<le> fst rate" using ratio_okD [OF assms(1)] by (simp_all add: den_def)
  let ?gs = "map (\<lambda>i. y i * fst rate) indexes"
  let ?F = "\<Sum>g \<leftarrow> ?gs. g div den" and ?R = "\<Sum>g \<leftarrow> ?gs. g mod den"
  let ?p = "length (filter (\<lambda>g. 0 < g mod den) ?gs)"
  have b: "sum_list (map (\<lambda>g. g) ?gs) = den * ?F + ?R \<and> 0 \<le> ?F \<and> 0 \<le> ?R \<and> ?R \<le> (den - 1) * int ?p"
    by (rule remainders_bound [OF den]) (use N assms(2) in auto)
  have F: "(\<Sum>i \<leftarrow> indexes. share_tax (share_at rate y i)) = ?F" by (simp add: den_def o_def)
  have p: "length (filter (\<lambda>s. 0 < share_remainder s) (map (share_at rate y) indexes)) = ?p"
    by (simp add: den_def o_def filter_map)
  have "round_ratio ((\<Sum>i \<leftarrow> indexes. y i) * fst rate) den = ?F + round_ratio ?R den"
    using b round_ratio_shift [OF den, of ?F ?R] by (simp add: sum_list_mult_const)
  then have left: "round_ratio ((\<Sum>i \<leftarrow> indexes. y i) * fst rate) den - (\<Sum>i \<leftarrow> indexes. share_tax (share_at rate y i)) = round_ratio ?R den"
    using F by simp
  have c: "0 \<le> round_ratio ?R den" "2 * (den * round_ratio ?R den) \<le> 2 * ?R + den"
    using round_ratio_nonneg [OF _ den, of ?R] b by auto
  have "round_ratio ?R den < int ?p + 1"
  proof (rule ccontr)
    assume "\<not> round_ratio ?R den < int ?p + 1"
    then have "den * (int ?p + 1) \<le> den * round_ratio ?R den" using den by (intro mult_left_mono) auto
    moreover have "?R \<le> den * int ?p" using b by (simp add: left_diff_distrib)
    ultimately show False using c den by (simp add: distrib_left)
  qed
  then have "round_ratio ?R den = int (nat (round_ratio ?R den)) \<and> nat (round_ratio ?R den) \<le> ?p" using c(1) by simp
  then show ?thesis unfolding den_def [symmetric] left p by blast
qed

lemma sum_safe_from_Some: "sum_safe_from acc vs = Some r \<Longrightarrow> r = acc + sum_list vs"
  by (induction acc vs rule: sum_safe_from.induct) (auto split: if_splits)

lemma elem_le_sum_list: "(\<And>y. y \<in> set xs \<Longrightarrow> 0 \<le> y) \<Longrightarrow> x \<in> set xs \<Longrightarrow> x \<le> sum_list xs" for x :: int
proof (induction xs)
  case (Cons y ys)
  then show ?case using sum_list_nonneg [of ys] by fastforce
qed simp

lemma share_amount:
  fixes den m r q :: int
  assumes "0 < den" "m = den * q + r" "0 \<le> r" "r < den" "b \<longrightarrow> 0 < r"
  shows "\<bar>den * (q + (if b then 1 else 0)) - m\<bar> < den"
  using assms by (auto simp: distrib_left)

lemma allocate_excluded_tax_spec:
  fixes lines :: "tax_line list" and rate :: ratio
  defines "den \<equiv> snd rate * 100" and "g \<equiv> \<lambda>i. line_gross (lines ! i)"
  assumes rate: "ratio_ok rate" and idx: "distinct indexes" "\<forall>i \<in> set indexes. i < length lines"
    and sign: "one_sign (map g indexes)"
  shows "allocate_excluded_tax lines indexes rate = ineligible TaxAmountInvalid
    \<or> (\<exists>lines' t. allocate_excluded_tax lines indexes rate = Inr lines' \<and> length lines' = length lines
        \<and> (\<forall>i. lines' ! i = (if i \<in> set indexes then (lines ! i)\<lparr>line_tax := line_tax (lines ! i) + t i\<rparr> else lines ! i))
        \<and> (\<forall>i \<in> set indexes. \<bar>den * t i - g i * fst rate\<bar> < den \<and> 0 \<le> t i * g i)
        \<and> (\<forall>i \<in> set indexes. t i = sgn (g i) * allocated rate (\<lambda>i. \<bar>g i\<bar>) indexes i)
        \<and> (\<Sum>i \<leftarrow> indexes. t i) = round_ratio ((\<Sum>i \<leftarrow> indexes. g i) * fst rate) den)"
proof (cases "allocate_excluded_tax lines indexes rate = ineligible TaxAmountInvalid")
  case False
  have den: "0 < den" and N: "0 \<le> fst rate" using ratio_okD [OF rate] by (simp_all add: den_def)
  define base where "base = (\<Sum>i \<leftarrow> indexes. g i)"
  define ss where "ss = map (share_of rate lines) indexes"
  define target where "target = round_ratio (base * fst rate) den"
  define sigma :: int where "sigma = (if target < 0 then - 1 else 1)"
  define extra where "extra = hand_out (\<bar>target\<bar> - sum_list (map share_tax ss)) (by_priority ss)"
  define t where "t i = sigma * (share_tax (share_of rate lines i) + (if i \<in> set extra then 1 else 0))" for i
  have safe: "safe_int target" and run: "allocate_excluded_tax lines indexes rate = add_shares sigma extra ss lines"
  proof -
    obtain b where b: "sum_safe (map g indexes) = Some b"
      using False by (auto simp: allocate_excluded_tax_def g_def Let_def split: option.splits)
    then have "b = base" using sum_safe_from_Some [OF b] by (simp add: base_def)
    then have c: "allocate_excluded_tax lines indexes rate = (case to_safe_cents target of None \<Rightarrow> ineligible TaxAmountInvalid
        | Some target \<Rightarrow> add_shares (if target < 0 then - 1 else 1) (hand_out (\<bar>target\<bar> - sum_list (map share_tax ss)) (by_priority ss)) ss lines)"
      using b unfolding allocate_excluded_tax_def Let_def ss_def [symmetric] by (simp add: g_def den_def target_def)
    then show "safe_int target" using False by (auto simp: to_safe_cents_def split: if_splits)
    then show "allocate_excluded_tax lines indexes rate = add_shares sigma extra ss lines"
      unfolding c by (simp add: to_safe_cents_def sigma_def extra_def)
  qed
  have ids [simp]: "map share_index ss = indexes" by (simp add: ss_def share_of_def Let_def o_def)
  have mag: "\<bar>base * fst rate\<bar> = (\<Sum>i \<leftarrow> indexes. \<bar>g i\<bar> * fst rate)"
    using abs_sum_list_one_sign [OF sign] N by (simp add: base_def abs_mult o_def sum_list_mult_const)
  have "\<bar>target\<bar> = round_ratio (\<Sum>i \<leftarrow> indexes. \<bar>g i\<bar> * fst rate) den"
    unfolding target_def round_ratio_abs [OF den] mag by (rule refl)
  then obtain c where c: "\<bar>target\<bar> - (\<Sum>s \<leftarrow> ss. share_tax s) = int c" "c \<le> length (filter (\<lambda>s. 0 < share_remainder s) ss)"
    using allocation_counts [OF rate, of indexes "\<lambda>i. \<bar>g i\<bar>"] unfolding ss_def g_def den_def
    by (auto simp: share_of_at sum_list_mult_const o_def)
  have ex: "extra = map share_index (take c (by_priority ss))" using c(1) by (simp add: extra_def hand_out_take)
  have c_le: "c \<le> length ss" using c(2) length_filter_le le_trans by blast
  have shares: "share_tax (share_of rate lines i) = \<bar>g i\<bar> * fst rate div den"
    "share_remainder (share_of rate lines i) = \<bar>g i\<bar> * fst rate mod den" "share_index (share_of rate lines i) = i" for i
    by (simp_all add: share_of_def Let_def g_def den_def)
  have tax0: "0 \<le> share_tax (share_of rate lines i)" for i
    unfolding shares using den N by (simp add: pos_imp_zdiv_nonneg_iff)
  have sum: "(\<Sum>i \<leftarrow> indexes. t i) = target"
  proof -
    have "(\<Sum>s \<leftarrow> ss. share_tax s + (if share_index s \<in> set extra then 1 else 0)) = (\<Sum>s \<leftarrow> ss. share_tax s) + int c"
      unfolding ex by (rule sum_chosen) (use idx c_le in simp_all)
    then have "(\<Sum>i \<leftarrow> indexes. share_tax (share_of rate lines i) + (if i \<in> set extra then 1 else 0)) = \<bar>target\<bar>"
      using c(1) by (simp add: ss_def o_def shares(3))
    then have "(\<Sum>i \<leftarrow> indexes. t i) = sigma * \<bar>target\<bar>" unfolding t_def by (simp add: sum_list_const_mult)
    then show ?thesis by (simp add: sigma_def)
  qed
  define share where "share i = share_tax (share_of rate lines i) + (if i \<in> set extra then 1 else 0)" for i
  have share0: "0 \<le> share i" for i using tax0 [of i] by (simp add: share_def)
  have share_sum: "(\<Sum>i \<leftarrow> indexes. share i) = \<bar>target\<bar>"
  proof -
    have "sigma * (\<Sum>i \<leftarrow> indexes. share i) = target" using sum by (simp add: t_def share_def sum_list_const_mult)
    moreover have "0 \<le> (\<Sum>i \<leftarrow> indexes. share i)" using share0 by (intro sum_list_nonneg) auto
    ultimately show ?thesis by (auto simp: sigma_def split: if_splits)
  qed
  have share_le: "share i \<le> \<bar>target\<bar>" if "i \<in> set indexes" for i
    unfolding share_sum [symmetric] by (rule elem_le_sum_list) (use that share0 in auto)
  have signed: "t i = share i \<and> g i = \<bar>g i\<bar> \<or> t i = - share i \<and> g i = - \<bar>g i\<bar>" if i: "i \<in> set indexes" for i
  proof (cases "\<forall>x \<in> set (map g indexes). 0 \<le> x")
    case True
    then have "0 \<le> base" unfolding base_def by (intro sum_list_nonneg) auto
    then have "0 \<le> target" unfolding target_def using N by (intro round_ratio_nonneg(1) [OF _ den]) simp
    then show ?thesis using True i by (simp add: t_def share_def sigma_def)
  next
    case False
    then have neg: "g i \<le> 0" using sign i by (auto simp: one_sign_def)
    show ?thesis
    proof (cases "target < 0")
      case True
      then show ?thesis using neg by (simp add: t_def share_def sigma_def)
    next
      case False
      have "\<forall>x \<in> set (map g indexes). x \<le> 0" using sign \<open>\<not> (\<forall>x \<in> set (map g indexes). 0 \<le> x)\<close> unfolding one_sign_def by blast
      then have "base \<le> 0" unfolding base_def by (intro sum_list_nonpos) auto
      then have "0 \<le> - base * fst rate" using N by (simp add: mult_nonpos_nonneg)
      then have "0 \<le> - target" unfolding target_def round_ratio_minus [OF den, symmetric] mult_minus_left [symmetric]
        by (rule round_ratio_nonneg(1) [OF _ den])
      then have "share i = 0" using False share_le [OF i] share0 [of i] by simp
      then show ?thesis using neg by (simp add: t_def share_def)
    qed
  qed
  have extra_pos: "0 < share_remainder (share_of rate lines i)" if "i \<in> set extra" for i
  proof -
    obtain s where s: "s \<in> set (take c (by_priority ss))" "i = share_index s" using \<open>i \<in> set extra\<close> ex by auto
    then have "s \<in> set ss" using set_take_subset by (force simp: by_priority_def)
    then have "s = share_of rate lines i" using s(2) shares(3) by (auto simp: ss_def)
    then show ?thesis using chosen_positive [OF c(2) s(1)] by simp
  qed
  have near: "\<bar>den * t i - g i * fst rate\<bar> < den \<and> 0 \<le> t i * g i" if i: "i \<in> set indexes" for i
  proof -
    have "\<bar>den * share i - \<bar>g i\<bar> * fst rate\<bar> < den"
      unfolding share_def by (rule share_amount [OF den, of _ _ "share_remainder (share_of rate lines i)"])
        (use den extra_pos in \<open>auto simp: shares\<close>)
    then show ?thesis using signed [OF i] share0 [of i] by (auto simp: abs_if mult_nonneg_nonpos split: if_splits)
  qed
  have "safe_int (sigma * (share_tax s + (if share_index s \<in> set extra then 1 else 0)))" if in_ss: "s \<in> set ss" for s
  proof -
    obtain i where i: "i \<in> set indexes" "s = share_of rate lines i" using in_ss by (auto simp: ss_def)
    then have "sigma * (share_tax s + (if share_index s \<in> set extra then 1 else 0)) = sigma * share i"
      by (simp add: share_def shares(3))
    then show ?thesis using share0 [of i] share_le [OF i(1)] safe by (auto simp: safe_int_def sigma_def split: if_splits)
  qed
  then obtain lines' where lines': "add_shares sigma extra ss lines = Inr lines'" using add_shares_safe by blast
  have upd: "length lines' = length lines"
    "\<forall>s \<in> set ss. lines' ! share_index s = (lines ! share_index s)\<lparr>line_tax := line_tax (lines ! share_index s)
           + sigma * (share_tax s + (if share_index s \<in> set extra then 1 else 0))\<rparr>"
    "\<forall>i. i \<notin> share_index ` set ss \<longrightarrow> lines' ! i = lines ! i"
    using nth_update_share [OF lines'] idx unfolding ids by (simp_all add: list_all_iff ss_def shares(3))
  have "\<forall>i. lines' ! i = (if i \<in> set indexes then (lines ! i)\<lparr>line_tax := line_tax (lines ! i) + t i\<rparr> else lines ! i)"
    using upd(2,3) by (auto simp: ss_def shares(3) t_def image_image)
  moreover have "t i = sgn (g i) * allocated rate (\<lambda>i. \<bar>g i\<bar>) indexes i" if i: "i \<in> set indexes" for i
  proof -
    have "\<bar>target\<bar> = round_ratio ((\<Sum>i \<leftarrow> indexes. \<bar>g i\<bar>) * fst rate) den"
      unfolding target_def round_ratio_abs [OF den] mag by (simp add: sum_list_mult_const)
    then have "extra = extra_cents rate (\<lambda>i. \<bar>g i\<bar>) indexes"
      by (simp add: extra_def extra_cents_def ss_def share_of_at g_def den_def o_def)
    then have "share i = allocated rate (\<lambda>i. \<bar>g i\<bar>) indexes i"
      by (simp add: share_def allocated_def share_of_at g_def)
    moreover have "share i = 0" if "g i = 0"
    proof -
      have "i \<notin> set extra" using extra_pos [of i] that by (auto simp: shares)
      then show ?thesis using that by (simp add: share_def shares)
    qed
    ultimately show ?thesis using signed [OF i] by (auto simp: abs_if sgn_if split: if_splits)
  qed
  ultimately show ?thesis using run lines' upd(1) near sum unfolding target_def base_def
    by (intro disjI2 exI [of _ lines'] exI [of _ t] conjI ballI) simp_all
qed simp

section \<open>The lines of a rate\<close>

text \<open>The groups hold, for every rate, the lines \<open>j\<close> with \<open>U i j\<close> and the rate's ratio.\<close>

definition group_of ::
  "json list \<Rightarrow> (nat \<Rightarrow> bool) \<Rightarrow> jstring \<Rightarrow> (nat list \<times> ratio) option \<Rightarrow> bool" where
  "group_of rates U i entry \<longleftrightarrow>
     (case entry of
        None \<Rightarrow> \<forall>j. \<not> U j
      | Some (indexes, r) \<Rightarrow> resolve_rate rates i = Inr r \<and> distinct indexes \<and> (\<forall>j. j \<in> set indexes \<longleftrightarrow> U j))"

definition groups_inv :: "json list \<Rightarrow> (jstring \<Rightarrow> nat \<Rightarrow> bool) \<Rightarrow> rate_groups \<Rightarrow> bool" where
  "groups_inv rates U groups \<longleftrightarrow>
     distinct (map fst groups) \<and> (\<forall>i. group_of rates (U i) i (map_of groups i))"

lemma add_component_inv:
  assumes inv: "groups_inv rates U groups" and c: "resolve_rate rates (fst c) = Inr (snd c)" "\<not> U (fst c) k"
  shows "groups_inv rates (\<lambda>i j. U i j \<or> i = fst c \<and> j = k) (add_component k c groups)"
proof -
  let ?V = "\<lambda>i j. U i j \<or> i = fst c \<and> j = k"
  define new where "new = (case map_of groups (fst c) of None \<Rightarrow> ([k], snd c) | Some (is, r) \<Rightarrow> (is @ [k], r))"
  have m: "map_of (add_component k c groups) i = (if i = fst c then Some new else map_of groups i)" for i
    by (auto simp: add_component_def update_conv' new_def map_add_def split: option.splits)
  have "distinct (map fst (add_component k c groups))"
    using inv by (auto simp: add_component_def groups_inv_def distinct_update map_of_eq_None_iff split: option.splits)
  moreover have "group_of rates (?V i) i (map_of groups i)" if "i \<noteq> fst c" for i
    using that inv by (simp add: groups_inv_def)
  moreover have "group_of rates (U (fst c)) (fst c) (map_of groups (fst c))" using inv by (simp add: groups_inv_def)
  then have "group_of rates (?V (fst c)) (fst c) (Some new)"
    using c by (auto simp: group_of_def new_def split: option.splits)
  ultimately show ?thesis unfolding groups_inv_def m by simp
qed

lemma groups_inv_cong: "groups_inv rates U groups \<Longrightarrow> (\<And>i j. U i j \<longleftrightarrow> V i j) \<Longrightarrow> groups_inv rates V groups"
proof -
  assume "groups_inv rates U groups" "\<And>i j. U i j \<longleftrightarrow> V i j"
  moreover from this(2) have "U = V" by (intro ext) blast
  ultimately show ?thesis by simp
qed

lemma fold_components_inv:
  "groups_inv rates U groups \<Longrightarrow> (\<forall>c \<in> set cs. resolve_rate rates (fst c) = Inr (snd c)) \<Longrightarrow>
     distinct (map fst cs) \<Longrightarrow> (\<forall>c \<in> set cs. \<not> U (fst c) k) \<Longrightarrow>
     groups_inv rates (\<lambda>i j. U i j \<or> i \<in> fst ` set cs \<and> j = k) (fold (add_component k) cs groups)"
proof (induction cs arbitrary: U groups)
  case (Cons c cs)
  let ?U = "\<lambda>i j. U i j \<or> i = fst c \<and> j = k"
  have step: "groups_inv rates ?U (add_component k c groups)"
    by (rule add_component_inv) (use Cons.prems in auto)
  have fresh: "\<forall>d \<in> set cs. \<not> ?U (fst d) k" using Cons.prems(3,4) by (auto simp: image_iff)
  have "groups_inv rates (\<lambda>i j. ?U i j \<or> i \<in> fst ` set cs \<and> j = k) (fold (add_component k) cs (add_component k c groups))"
    by (rule Cons.IH [OF step _ _ fresh]) (use Cons.prems in auto)
  then show ?case by (auto elim: groups_inv_cong)
qed (simp add: groups_inv_cong)

definition proper_line :: "json list \<Rightarrow> resolved_line \<Rightarrow> bool" where
  "proper_line rates r \<longleftrightarrow>
     (\<forall>c \<in> set (components r). resolve_rate rates (fst c) = Inr (snd c)) \<and> distinct (map fst (components r))"

definition uses :: "resolved_line list \<Rightarrow> jstring \<Rightarrow> nat \<Rightarrow> bool" where
  "uses resolved i j \<longleftrightarrow> j < length resolved \<and> i \<in> fst ` set (components (resolved ! j))"

lemma component_groups_inv:
  assumes "\<forall>r \<in> set resolved. proper_line rates r"
  shows "groups_inv rates (\<lambda>i j. j < k \<and> uses resolved i j) groups \<Longrightarrow> k \<le> length resolved \<Longrightarrow>
     groups_inv rates (uses resolved) (component_groups k (drop k resolved) groups)"
proof (induction "length resolved - k" arbitrary: k groups)
  case 0
  then show ?case by (auto simp: uses_def elim: groups_inv_cong)
next
  case (Suc n)
  then have k: "k < length resolved" by simp
  then have dr: "drop k resolved = resolved ! k # drop (Suc k) resolved" by (rule Cons_nth_drop_Suc [symmetric])
  let ?cs = "components (resolved ! k)"
  have "proper_line rates (resolved ! k)" using assms k by simp
  then have "groups_inv rates (\<lambda>i j. j < k \<and> uses resolved i j \<or> i \<in> fst ` set ?cs \<and> j = k) (fold (add_component k) ?cs groups)"
    by (intro fold_components_inv) (use Suc.prems in \<open>auto simp: proper_line_def\<close>)
  then have "groups_inv rates (\<lambda>i j. j < Suc k \<and> uses resolved i j) (fold (add_component k) ?cs groups)"
    by (rule groups_inv_cong) (use k in \<open>auto simp: uses_def less_Suc_eq\<close>)
  then show ?case using Suc.hyps(1) [of "Suc k"] Suc.hyps(2) k by (simp add: dr)
qed

lemma component_groups_ok:
  assumes "\<forall>r \<in> set resolved. proper_line rates r"
  shows "groups_inv rates (uses resolved) (component_groups 0 resolved [])"
  using component_groups_inv [OF assms, of 0 "[]"] by (simp add: groups_inv_def group_of_def)

section \<open>All rates\<close>

lemma sum_over_indexes:
  fixes f :: "nat \<Rightarrow> int"
  assumes "distinct is" "\<forall>j \<in> set is. j < n"
  shows "(\<Sum>j \<leftarrow> [0..<n]. if j \<in> set is then f j else 0) = (\<Sum>j \<leftarrow> is. f j)"
proof -
  have "(\<Sum>j \<leftarrow> [0..<n]. if j \<in> set is then f j else 0) = (\<Sum>j \<in> {0..<n}. if j \<in> set is then f j else 0)"
    by (simp add: sum_list_distinct_conv_sum_set)
  also have "\<dots> = (\<Sum>j \<in> set is. f j)"
    using assms(2) by (subst sum.inter_restrict [symmetric]) (auto intro: sum.cong)
  finally show ?thesis using assms(1) by (simp add: sum_list_distinct_conv_sum_set)
qed

text \<open>The exact tax of line \<open>j\<close> at one rate, and the groups that line is in.\<close>

definition exact_tax :: "int \<Rightarrow> ratio \<Rightarrow> rat" where
  "exact_tax gross rate = of_int (gross * fst rate) / of_int (snd rate * 100)"

definition own_groups :: "rate_groups \<Rightarrow> nat \<Rightarrow> rate_groups" where
  "own_groups groups j = filter (\<lambda>g. j \<in> set (fst (snd g))) groups"

definition tax_near :: "rate_groups \<Rightarrow> int \<Rightarrow> nat \<Rightarrow> int \<Rightarrow> bool" where
  "tax_near groups gross j t \<longleftrightarrow> 0 \<le> t * gross
     \<and> (if own_groups groups j = [] then t = 0
        else \<bar>of_int t - (\<Sum>g \<leftarrow> own_groups groups j. exact_tax gross (snd (snd g)))\<bar> < of_nat (length (own_groups groups j)))"

text \<open>The tax of line \<open>j\<close> as the sum of what its groups allocate to the magnitudes \<open>y\<close>.\<close>

definition allocated_in :: "rate_groups \<Rightarrow> (nat \<Rightarrow> int) \<Rightarrow> nat \<Rightarrow> int" where
  "allocated_in groups y j = (\<Sum>g \<leftarrow> own_groups groups j. allocated (snd (snd g)) y (fst (snd g)) j)"

definition group_total :: "tax_line list \<Rightarrow> jstring \<times> nat list \<times> ratio \<Rightarrow> int" where
  "group_total lines g =
     round_ratio ((\<Sum>j \<leftarrow> fst (snd g). line_gross (lines ! j)) * fst (snd (snd g))) (snd (snd (snd g)) * 100)"

lemma near_exact:
  assumes "0 < den" "\<bar>den * t - g * n\<bar> < den"
  shows "\<bar>of_int t - of_int (g * n) / of_int den\<bar> < (1 :: rat)"
proof -
  have "of_int t - of_int (g * n) / of_int den = (of_int (den * t - g * n) / of_int den :: rat)"
    using assms(1) by (simp add: field_simps)
  moreover have "\<bar>of_int (den * t - g * n)\<bar> < (of_int den :: rat)" using assms(2) by (metis of_int_abs of_int_less_iff)
  ultimately show ?thesis using assms(1) by simp
qed

lemma tax_near_Cons:
  assumes near: "tax_near groups g j t" and t: "if j \<in> set (fst (snd grp)) then \<bar>of_int u - exact_tax g (snd (snd grp))\<bar> < 1 \<and> 0 \<le> u * g else u = 0"
  shows "tax_near (grp # groups) g j (u + t)"
proof (cases "j \<in> set (fst (snd grp))")
  case True
  then have own: "own_groups (grp # groups) j = grp # own_groups groups j" by (simp add: own_groups_def)
  have "0 \<le> (u + t) * g" using near t True by (simp add: tax_near_def distrib_right)
  moreover have "\<bar>of_int (u + t) - (\<Sum>g' \<leftarrow> own_groups (grp # groups) j. exact_tax g (snd (snd g')))\<bar>
      < (of_nat (length (own_groups (grp # groups) j)) :: rat)"
    using near t True unfolding own tax_near_def by (auto simp: abs_less_iff split: if_splits)
  ultimately show ?thesis unfolding tax_near_def own by simp
next
  case False
  then have "own_groups (grp # groups) j = own_groups groups j" by (simp add: own_groups_def)
  then show ?thesis using near t False by (simp add: tax_near_def)
qed

lemma allocate_groups_spec:
  assumes "\<forall>(i, indexes, rate) \<in> set groups. ratio_ok rate \<and> distinct indexes \<and> (\<forall>j \<in> set indexes. j < length lines)"
    and "one_sign (map line_gross lines)"
  shows "allocate_groups groups lines = ineligible TaxAmountInvalid
    \<or> (\<exists>lines' tax. allocate_groups groups lines = Inr lines' \<and> length lines' = length lines
        \<and> (\<forall>j < length lines. lines' ! j = (lines ! j)\<lparr>line_tax := line_tax (lines ! j) + tax j\<rparr>
            \<and> tax_near groups (line_gross (lines ! j)) j (tax j)
            \<and> tax j = sgn (line_gross (lines ! j)) * allocated_in groups (\<lambda>i. \<bar>line_gross (lines ! i)\<bar>) j)
        \<and> (\<Sum>j \<leftarrow> [0..<length lines]. tax j) = (\<Sum>g \<leftarrow> groups. group_total lines g))"
  using assms
proof (induction groups arbitrary: lines)
  case Nil
  then show ?case by (intro disjI2 exI [of _ lines] exI [of _ "\<lambda>j. 0"]) (simp add: tax_near_def own_groups_def allocated_in_def)
next
  case (Cons grp groups)
  obtain i ixs rate where grp: "grp = (i, ixs, rate)" by (cases grp)
  have rate: "ratio_ok rate" "distinct ixs" "\<forall>j \<in> set ixs. j < length lines" using Cons.prems(1) by (auto simp: grp)
  have den: "0 < snd rate * 100" using ratio_okD [OF rate(1)] by simp
  have sign: "one_sign (map (\<lambda>j. line_gross (lines ! j)) ixs)"
    using Cons.prems(2) rate(3) by (auto simp: one_sign_def)
  note spec = allocate_excluded_tax_spec [OF rate sign]
  show ?case
  proof (cases "allocate_excluded_tax lines ixs rate = ineligible TaxAmountInvalid")
    case True
    then show ?thesis by (simp add: grp)
  next
    case False
    then obtain lines1 t where run: "allocate_excluded_tax lines ixs rate = Inr lines1" and len: "length lines1 = length lines"
      and upd: "\<forall>j. lines1 ! j = (if j \<in> set ixs then (lines ! j)\<lparr>line_tax := line_tax (lines ! j) + t j\<rparr> else lines ! j)"
      and near: "\<forall>j \<in> set ixs. \<bar>snd rate * 100 * t j - line_gross (lines ! j) * fst rate\<bar> < snd rate * 100 \<and> 0 \<le> t j * line_gross (lines ! j)"
      and exact: "\<forall>j \<in> set ixs. t j = sgn (line_gross (lines ! j)) * allocated rate (\<lambda>i. \<bar>line_gross (lines ! i)\<bar>) ixs j"
      and total: "(\<Sum>j \<leftarrow> ixs. t j) = group_total lines grp"
      using spec unfolding grp group_total_def fst_conv snd_conv by blast
    define u where "u j = (if j \<in> set ixs then t j else 0)" for j
    have gross: "line_gross (lines1 ! j) = line_gross (lines ! j)" for j using upd by simp
    have same: "map line_gross lines1 = map line_gross lines" by (rule nth_equalityI) (simp_all add: len gross)
    have ih: "allocate_groups groups lines1 = ineligible TaxAmountInvalid
      \<or> (\<exists>lines' tax. allocate_groups groups lines1 = Inr lines' \<and> length lines' = length lines
        \<and> (\<forall>j < length lines. lines' ! j = (lines1 ! j)\<lparr>line_tax := line_tax (lines1 ! j) + tax j\<rparr>
            \<and> tax_near groups (line_gross (lines ! j)) j (tax j)
            \<and> tax j = sgn (line_gross (lines ! j)) * allocated_in groups (\<lambda>i. \<bar>line_gross (lines ! i)\<bar>) j)
        \<and> (\<Sum>j \<leftarrow> [0..<length lines]. tax j) = (\<Sum>g \<leftarrow> groups. group_total lines g))"
      using Cons.IH [of lines1] Cons.prems unfolding len gross same group_total_def by auto
    show ?thesis
    proof (cases "allocate_groups groups lines1 = ineligible TaxAmountInvalid")
      case True
      then show ?thesis by (simp add: grp run)
    next
      case False
      then obtain lines' tax where ok: "allocate_groups groups lines1 = Inr lines'" "length lines' = length lines"
        and line: "\<forall>j < length lines. lines' ! j = (lines1 ! j)\<lparr>line_tax := line_tax (lines1 ! j) + tax j\<rparr>
            \<and> tax_near groups (line_gross (lines ! j)) j (tax j)
            \<and> tax j = sgn (line_gross (lines ! j)) * allocated_in groups (\<lambda>i. \<bar>line_gross (lines ! i)\<bar>) j"
        and sum: "(\<Sum>j \<leftarrow> [0..<length lines]. tax j) = (\<Sum>g \<leftarrow> groups. group_total lines g)"
        using ih by blast
      have each: "lines' ! j = (lines ! j)\<lparr>line_tax := line_tax (lines ! j) + (u j + tax j)\<rparr>
          \<and> tax_near (grp # groups) (line_gross (lines ! j)) j (u j + tax j)
          \<and> u j + tax j = sgn (line_gross (lines ! j)) * allocated_in (grp # groups) (\<lambda>i. \<bar>line_gross (lines ! i)\<bar>) j"
        if j: "j < length lines" for j
      proof (intro conjI)
        show "u j + tax j = sgn (line_gross (lines ! j)) * allocated_in (grp # groups) (\<lambda>i. \<bar>line_gross (lines ! i)\<bar>) j"
          using line j exact by (simp add: u_def grp allocated_in_def own_groups_def distrib_left)
        show "lines' ! j = (lines ! j)\<lparr>line_tax := line_tax (lines ! j) + (u j + tax j)\<rparr>"
          using line upd j by (simp add: u_def)
        show "tax_near (grp # groups) (line_gross (lines ! j)) j (u j + tax j)"
        proof (rule tax_near_Cons)
          show "tax_near groups (line_gross (lines ! j)) j (tax j)" using line j by blast
          show "if j \<in> set (fst (snd grp)) then \<bar>of_int (u j) - exact_tax (line_gross (lines ! j)) (snd (snd grp))\<bar> < 1
              \<and> 0 \<le> u j * line_gross (lines ! j) else u j = 0"
            using near near_exact [OF den] by (simp add: grp u_def exact_tax_def)
        qed
      qed
      have "(\<Sum>j \<leftarrow> [0..<length lines]. u j + tax j) = (\<Sum>g \<leftarrow> grp # groups. group_total lines g)"
        using sum total sum_over_indexes [OF rate(2,3), of t] by (simp add: sum_list_addf u_def)
      moreover have "allocate_groups (grp # groups) lines = Inr lines'" using ok(1) by (simp add: grp run)
      ultimately show ?thesis using each ok(2)
        by (intro disjI2 exI [of _ lines'] exI [of _ "\<lambda>j. u j + tax j"]) blast
    qed
  qed
qed

section \<open>The sum of the rates of a line\<close>

abbreviation percent :: "ratio \<Rightarrow> rat" where
  "percent r \<equiv> of_int (fst r) / of_int (snd r)"

lemma foldl_max: "foldl (\<lambda>m r. if m < snd r then snd r else m) (a::int) rs = foldl (\<lambda>m r. max m (snd r)) a rs"
  by (rule arg_cong [of _ _ "\<lambda>f. foldl f a rs"]) (auto simp: fun_eq_iff)

lemma largest_denominator:
  assumes "\<forall>r \<in> set rs. \<exists>k. snd r = (10::int) ^ k"
  shows "\<exists>k. foldl (\<lambda>m r. if m < snd r then snd r else m) (10 ^ j) rs = 10 ^ k \<and> j \<le> k
    \<and> (\<forall>r \<in> set rs. snd r dvd 10 ^ k)"
  using assms
proof (induction rs arbitrary: j)
  case Nil
  then show ?case by auto
next
  case (Cons r rs)
  obtain i where i: "snd r = 10 ^ i" using Cons.prems by auto
  have m: "(if (10::int) ^ j < snd r then snd r else 10 ^ j) = 10 ^ max i j"
    unfolding i by (auto simp: max_def power_strict_increasing_iff not_less)
  obtain k where k: "foldl (\<lambda>m r. if m < snd r then snd r else m) (10 ^ max i j) rs = 10 ^ k" "max i j \<le> k"
    "\<forall>r \<in> set rs. snd r dvd (10::int) ^ k"
    using Cons.IH [of "max i j"] Cons.prems by auto
  then show ?case using m i by (intro exI [of _ k]) (simp add: le_imp_power_dvd)
qed

lemma sum_rate_ratios_value:
  assumes "\<forall>r \<in> set rs. ratio_ok r"
  shows "ratio_ok (sum_rate_ratios rs) \<and> percent (sum_rate_ratios rs) = (\<Sum>r \<leftarrow> rs. percent r)"
proof -
  have "\<forall>r \<in> set rs. \<exists>k. snd r = (10::int) ^ k" using assms by (simp add: ratio_ok_def)
  from largest_denominator [OF this, of 0]
  obtain k where k: "foldl (\<lambda>m r. if m < snd r then snd r else m) 1 rs = (10::int) ^ k" "\<forall>r \<in> set rs. snd r dvd (10::int) ^ k"
    by auto
  have scaled: "foldl (\<lambda>t r. t + fst r * (10 ^ k div snd r)) a ts = a + (\<Sum>r \<leftarrow> ts. fst r * (10 ^ k div snd r))" for a and ts :: "ratio list"
    by (induction ts arbitrary: a) auto
  have sum: "sum_rate_ratios rs = ((\<Sum>r \<leftarrow> rs. fst r * (10 ^ k div snd r)), 10 ^ k)"
    using k(1) scaled [of 0 rs] by (simp add: sum_rate_ratios_def Let_def)
  have each: "of_int (fst r * (10 ^ k div snd r)) / 10 ^ k = percent r" if r: "r \<in> set rs" for r
  proof -
    obtain q where q: "(10::int) ^ k = snd r * q" using k(2) r by (auto simp: dvd_def)
    have pos: "0 < snd r" using assms r ratio_okD by blast
    moreover have "q \<noteq> 0" using q by auto
    moreover have "(10::rat) ^ k = of_int (snd r) * of_int q" using q by (metis of_int_mult of_int_numeral of_int_power)
    ultimately show ?thesis using q by simp
  qed
  have "of_int (\<Sum>r \<leftarrow> rs. fst r * (10 ^ k div snd r)) / 10 ^ k = (\<Sum>r \<leftarrow> rs. of_int (fst r * (10 ^ k div snd r)) / (10 ^ k :: rat))"
    by (induction rs) (auto simp: add_divide_distrib)
  also have "\<dots> = (\<Sum>r \<leftarrow> rs. percent r)" by (rule arg_cong [of _ _ sum_list], rule map_cong) (simp_all only: each)
  finally have "percent (sum_rate_ratios rs) = (\<Sum>r \<leftarrow> rs. percent r)" unfolding sum by simp
  moreover have "0 \<le> fst r * (10 ^ k div snd r)" if "r \<in> set rs" for r
    using assms that ratio_okD [of r] by (simp add: pos_imp_zdiv_nonneg_iff)
  then have "ratio_ok (sum_rate_ratios rs)" unfolding sum ratio_ok_def by (auto intro!: sum_list_nonneg)
  ultimately show ?thesis by simp
qed

section \<open>Tax-inclusive lines\<close>

lemma net_near:
  assumes "ratio_ok rate"
  shows "\<bar>of_int (round_ratio (gross * (snd rate * 100)) (snd rate * 100 + fst rate))
      - of_int gross / (1 + percent rate / 100)\<bar> \<le> (1 / 2 :: rat)"
proof -
  define d where "d = snd rate * 100 + fst rate"
  define net where "net = round_ratio (gross * (snd rate * 100)) d"
  have pos: "0 < snd rate" "0 \<le> fst rate" using ratio_okD [OF assms] by simp_all
  then have d: "0 < d" by (simp add: d_def)
  have "2 * \<bar>d * net - gross * (snd rate * 100)\<bar> \<le> d" unfolding net_def by (rule round_ratio_nearest [OF d])
  then have "of_int (2 * \<bar>d * net - gross * (snd rate * 100)\<bar>) \<le> (of_int d :: rat)" by (simp only: of_int_le_iff)
  then have near: "\<bar>of_int (d * net - gross * (snd rate * 100))\<bar> \<le> (of_int d / 2 :: rat)" by simp
  have "1 + percent rate / 100 = of_int d / of_int (snd rate * 100)"
    using pos(1) by (simp add: d_def field_simps)
  then have "of_int net - of_int gross / (1 + percent rate / 100)
      = (of_int (d * net - gross * (snd rate * 100)) / of_int d :: rat)"
    using d by (simp add: field_simps)
  moreover have "\<bar>of_int (d * net - gross * (snd rate * 100)) / of_int d\<bar> \<le> (1 / 2 :: rat)"
    using near d by (simp add: field_simps)
  ultimately show ?thesis by (simp only: net_def d_def)
qed

lemma inclusive_lines_spec:
  "inclusive_lines i rs lines = Inr lines' \<Longrightarrow> length rs = length lines \<Longrightarrow> length lines' = length lines
     \<and> (\<forall>j < length lines. \<exists>i. inclusive_line i (rs ! j) (lines ! j) = Inr (lines' ! j))"
proof (induction i rs lines arbitrary: lines' rule: inclusive_lines.induct)
  case (1 i r rs line lines)
  then obtain l ls where l: "inclusive_line i r line = Inr l" "inclusive_lines (Suc i) rs lines = Inr ls" "lines' = l # ls"
    by (auto split: sum.splits)
  then have "length ls = length lines \<and> (\<forall>j < length lines. \<exists>i. inclusive_line i (rs ! j) (lines ! j) = Inr (ls ! j))"
    using 1 by simp
  then show ?case using l by (auto simp: less_Suc_eq_0_disj)
qed auto

lemma inclusive_line_spec:
  assumes "inclusive_line i r line = Inr l" "line_net line = line_gross line" "line_tax line = 0"
    and "\<forall>c \<in> set (components r). ratio_ok (snd c)"
  shows "line_gross l = line_gross line \<and> line_net l + line_tax l = line_gross line
    \<and> \<bar>of_int (line_net l) - of_int (line_gross line) / (1 + (\<Sum>c \<leftarrow> components r. percent (snd c)) / 100)\<bar> \<le> (1 / 2 :: rat)"
proof (cases "components r = []")
  case True
  then show ?thesis using assms by (simp add: inclusive_line_def)
next
  case False
  let ?rate = "sum_rate_ratios (map snd (components r))"
  have v: "ratio_ok ?rate" "percent ?rate = (\<Sum>c \<leftarrow> components r. percent (snd c))"
    using sum_rate_ratios_value [of "map snd (components r)"] assms(4) by (simp_all add: o_def)
  have l: "l = line\<lparr>line_net := round_ratio (line_gross line * (snd ?rate * 100)) (snd ?rate * 100 + fst ?rate),
      line_tax := line_gross line - round_ratio (line_gross line * (snd ?rate * 100)) (snd ?rate * 100 + fst ?rate)\<rparr>"
    using assms(1) False by (auto simp: inclusive_line_def to_safe_cents_def Let_def split: if_splits)
  show ?thesis using net_near [OF v(1), of "line_gross line"] unfolding l v(2) by simp
qed

section \<open>The stages of the calculation\<close>

lemma not_mixed_signs: "\<not> mixed_signs gs \<Longrightarrow> one_sign gs"
proof (rule ccontr)
  assume m: "\<not> mixed_signs gs" and "\<not> one_sign gs"
  then obtain a b where ab: "a \<in> set gs" "b \<in> set gs" "a < 0" "0 < b" by (auto simp: one_sign_def not_le)
  let ?s = "set (map sgn (filter (\<lambda>g. g \<noteq> 0) gs))"
  have "{sgn a, sgn b} \<subseteq> ?s" using ab by (auto simp: image_iff)
  then have "card {sgn a, sgn b} \<le> card ?s" by (intro card_mono) auto
  moreover have "card {sgn a, sgn b} = 2" using ab by simp
  ultimately show False using m by (simp add: mixed_signs_def length_remdups_card_conv)
qed

lemma proper_line_ratios: "proper_line rates r \<Longrightarrow> c \<in> set (components r) \<Longrightarrow> ratio_ok (snd c)"
  using resolve_rate_ok unfolding proper_line_def by blast

lemma resolve_lines_proper:
  assumes "resolve_lines i inputs calculation codes rates dir = Inr rs" "r \<in> set rs"
  shows "proper_line rates r"
proof -
  obtain j where "j < length rs" "r = rs ! j" using assms(2) by (metis in_set_conv_nth)
  then show ?thesis using resolve_lines_ok [OF assms(1)] resolve_line_ok unfolding proper_line_def by metis
qed

definition input_cents :: "tax_line_input list \<Rightarrow> nat \<Rightarrow> int" where
  "input_cents inputs j = cents_of (gross_cents (inputs ! j))"

lemma calculate_tax_stages:
  assumes "calculate_tax dir company calculation inputs reference = Inr res"
    and "resolve_lines 0 inputs calculation (array_items (get reference ''codes'')) (array_items (get reference ''rates'')) dir = Inr resolved"
  shows "taxed_lines calculation resolved (map2 untaxed_line inputs resolved) = Inr (tax_lines res)
    \<and> total_gross res = (\<Sum>l \<leftarrow> inputs. cents_of (gross_cents l))
    \<and> total_net res = (\<Sum>l \<leftarrow> tax_lines res. line_net l) \<and> total_tax res = (\<Sum>l \<leftarrow> tax_lines res. line_tax l)
    \<and> one_sign (map (cents_of \<circ> gross_cents) inputs) \<and> length resolved = length inputs"
proof -
  have "length resolved = length inputs" using resolve_lines_ok [OF assms(2)] by blast
  then show ?thesis
    using assms by (auto simp: calculate_tax_def o_def dest!: sum_safe_from_Some not_mixed_signs
        split: if_splits option.splits sum.splits)
qed

lemma untaxed_lines [simp]:
  assumes "length resolved = length inputs" "j < length inputs"
  shows "line_gross (map2 untaxed_line inputs resolved ! j) = input_cents inputs j"
    "line_net (map2 untaxed_line inputs resolved ! j) = input_cents inputs j"
    "line_tax (map2 untaxed_line inputs resolved ! j) = 0"
  using assms by (simp_all add: untaxed_line_def input_cents_def)


section \<open>Nothing is thrown\<close>

fun thrown :: "tax_stop + 'a \<Rightarrow> bool" where
  "thrown (Inl (Thrown e)) = True"
| "thrown _ = False"

lemma thrown_iff: "thrown v \<longleftrightarrow> (\<exists>e. v = Inl (Thrown e))"
  by (cases v rule: thrown.cases) auto

lemma resolve_rate_not_thrown: "\<not> thrown (resolve_rate rates i)"
proof -
  have "rate_value_to_ratio v \<noteq> Inl e" if "supported_rate_value (Some (JNum v))" for v e
    using that by (cases v) (auto simp: Let_def)
  then show ?thesis
    by (auto simp: resolve_rate_def thrown_iff split: option.splits if_splits bool.splits json.splits sum.splits)
qed

lemma resolve_components_not_thrown: "\<not> thrown (resolve_components rates seen cs)"
proof (induction rates seen cs rule: resolve_components.induct)
  case (2 rates seen c cs)
  then show ?case using resolve_rate_not_thrown
    by (auto simp: thrown_iff split: if_splits option.splits json.splits sum.splits)
qed simp

lemma resolve_tax_line_not_thrown: "\<not> thrown (resolve_tax_line input calculation codes rates dir)"
  using resolve_components_not_thrown [of rates "[]"]
  by (auto simp: resolve_tax_line_def thrown_iff split: if_splits option.splits sum.splits)

lemma at_line_not_thrown: "\<not> thrown v \<Longrightarrow> \<not> thrown (at_line i v)"
  by (cases "(i, v)" rule: at_line.cases) auto

lemma resolve_lines_not_thrown: "\<not> thrown (resolve_lines i inputs calculation codes rates dir)"
proof (induction i inputs calculation codes rates dir rule: resolve_lines.induct)
  case (2 i line lines calculation codes rates dir)
  have "\<not> thrown (at_line i (resolve_tax_line line calculation codes rates dir))"
    by (rule at_line_not_thrown [OF resolve_tax_line_not_thrown])
  then show ?case using 2 by (auto simp: thrown_iff split: sum.splits)
qed simp

lemma inclusive_line_not_thrown: "\<not> thrown (inclusive_line i r line)"
  by (simp add: inclusive_line_def Let_def split: option.splits)

lemma inclusive_lines_not_thrown: "\<not> thrown (inclusive_lines i rs lines)"
proof (induction i rs lines rule: inclusive_lines.induct)
  case (1 i r rs line lines)
  then show ?case using inclusive_line_not_thrown [of i r line] by (auto simp: thrown_iff split: sum.splits)
qed simp_all

lemma component_groups_proper:
  assumes "\<forall>r \<in> set resolved. proper_line rates r"
  shows "\<forall>(i, indexes, rate) \<in> set (component_groups 0 resolved []).
    ratio_ok rate \<and> distinct indexes \<and> (\<forall>j \<in> set indexes. j < length resolved)
    \<and> (\<forall>j. j \<in> set indexes \<longleftrightarrow> j < length resolved \<and> (i, rate) \<in> set (components (resolved ! j)))"
proof clarify
  fix i indexes n d
  let ?groups = "component_groups 0 resolved []"
  assume g: "(i, indexes, n, d) \<in> set ?groups"
  have inv: "groups_inv rates (uses resolved) ?groups" by (rule component_groups_ok [OF assms])
  then have "map_of ?groups i = Some (indexes, n, d)" using g by (simp add: groups_inv_def)
  then have r: "resolve_rate rates i = Inr (n, d)" and dx: "distinct indexes" and u: "\<forall>j. j \<in> set indexes \<longleftrightarrow> uses resolved i j"
    using inv by (auto simp: groups_inv_def group_of_def split: option.splits)
  have "j \<in> set indexes \<longleftrightarrow> j < length resolved \<and> (i, n, d) \<in> set (components (resolved ! j))" for j
  proof -
    have "x = (n, d)" if "j < length resolved" "(i, x) \<in> set (components (resolved ! j))" for x
    proof -
      have "proper_line rates (resolved ! j)" using assms that(1) by simp
      then have "resolve_rate rates i = Inr x" using that(2) unfolding proper_line_def by fastforce
      then show ?thesis using r by simp
    qed
    then show ?thesis using u by (force simp: uses_def)
  qed
  then show "ratio_ok (n, d) \<and> distinct indexes \<and> (\<forall>j \<in> set indexes. j < length resolved)
    \<and> (\<forall>j. j \<in> set indexes \<longleftrightarrow> j < length resolved \<and> (i, n, d) \<in> set (components (resolved ! j)))"
    using resolve_rate_ok [OF r] dx by blast
qed

text \<open>The tax-exclusive stage from the untaxed lines.\<close>

lemma excluded_stage:
  assumes "resolve_lines 0 inputs calculation codes rates dir = Inr resolved"
    and "one_sign (map (cents_of \<circ> gross_cents) inputs)"
  shows "taxed_lines TaxExcluded resolved (map2 untaxed_line inputs resolved) = ineligible TaxAmountInvalid
    \<or> (\<exists>lines tax. taxed_lines TaxExcluded resolved (map2 untaxed_line inputs resolved) = Inr lines
        \<and> length lines = length inputs
        \<and> (\<forall>j < length inputs. lines ! j = (map2 untaxed_line inputs resolved ! j)\<lparr>line_tax := tax j\<rparr>
            \<and> tax_near (component_groups 0 resolved []) (input_cents inputs j) j (tax j)
            \<and> tax j = sgn (input_cents inputs j)
                * allocated_in (component_groups 0 resolved []) (\<lambda>i. \<bar>line_gross (map2 untaxed_line inputs resolved ! i)\<bar>) j)
        \<and> (\<Sum>j \<leftarrow> [0..<length inputs]. tax j)
            = (\<Sum>g \<leftarrow> component_groups 0 resolved []. group_total (map2 untaxed_line inputs resolved) g))"
proof -
  have len: "length resolved = length inputs" using resolve_lines_ok [OF assms(1)] by blast
  define lines where "lines = map2 untaxed_line inputs resolved"
  have l: "length lines = length inputs" using len by (simp add: lines_def)
  have untaxed: "\<forall>j < length inputs. line_gross (lines ! j) = input_cents inputs j \<and> line_tax (lines ! j) = 0"
    using untaxed_lines [OF len] unfolding lines_def by blast
  have "map line_gross lines = map (cents_of \<circ> gross_cents) inputs"
    by (rule nth_equalityI) (simp_all add: l untaxed input_cents_def)
  then have sign: "one_sign (map line_gross lines)" using assms(2) by simp
  have proper: "\<forall>r \<in> set resolved. proper_line rates r" using resolve_lines_proper [OF assms(1)] by blast
  have "\<forall>(i, indexes, rate) \<in> set (component_groups 0 resolved []).
      ratio_ok rate \<and> distinct indexes \<and> (\<forall>j \<in> set indexes. j < length lines)"
    using component_groups_proper [OF proper] unfolding len l by fast
  from allocate_groups_spec [OF this sign] show ?thesis
    unfolding taxed_lines_def l tax_calculation.case lines_def [symmetric] using untaxed by fastforce
qed

section \<open>Properties\<close>

text \<open>
  C27. The calculator never throws: whatever the amounts and the reference data, a calculation
  that cannot be carried out is answered by a reason.
\<close>

theorem calculate_tax_not_thrown: "\<not> thrown (calculate_tax dir company calculation inputs reference)"
proof -
  have "\<not> thrown (taxed_lines calculation resolved (map2 untaxed_line inputs resolved))"
    if "resolve_lines 0 inputs calculation codes rates dir = Inr resolved" "\<not> mixed_signs (map (cents_of \<circ> gross_cents) inputs)"
    for codes rates resolved
    using excluded_stage [OF that(1) not_mixed_signs [OF that(2)]] inclusive_lines_not_thrown [of 0 resolved]
    by (cases calculation) (auto simp: taxed_lines_def)
  moreover have "\<not> thrown (resolve_lines 0 inputs calculation codes rates dir)" for codes rates
    by (rule resolve_lines_not_thrown)
  ultimately show ?thesis
    by (auto simp: calculate_tax_def thrown_iff split: if_splits option.splits sum.splits)
qed

text \<open>
  C26. Tax-inclusive calculation: the net amount and the tax of every line add up to its gross
  amount, so they do in total, and the net amount is the exact one, the gross amount divided by
  one plus the sum of the line's rates, rounded to the nearest cent.
\<close>

theorem tax_inclusive_split:
  assumes "calculate_tax dir company TaxInclusive inputs reference = Inr res"
    and "resolve_lines 0 inputs TaxInclusive (array_items (get reference ''codes'')) (array_items (get reference ''rates'')) dir = Inr resolved"
  shows "total_net res + total_tax res = total_gross res \<and> length (tax_lines res) = length inputs
    \<and> (\<forall>j < length inputs.
        line_net (tax_lines res ! j) + line_tax (tax_lines res ! j) = input_cents inputs j
        \<and> \<bar>of_int (line_net (tax_lines res ! j))
            - of_int (input_cents inputs j) / (1 + (\<Sum>c \<leftarrow> components (resolved ! j). percent (snd c)) / 100)\<bar> \<le> (1 / 2 :: rat))"
proof -
  note st = calculate_tax_stages [OF assms]
  then have len: "length resolved = length inputs" by blast
  define lines where "lines = map2 untaxed_line inputs resolved"
  have l: "length lines = length inputs" using len by (simp add: lines_def)
  have untaxed: "line_gross (lines ! j) = input_cents inputs j" "line_net (lines ! j) = line_gross (lines ! j)" "line_tax (lines ! j) = 0"
    if "j < length inputs" for j using untaxed_lines [OF len that] unfolding lines_def by simp_all
  have "inclusive_lines 0 resolved lines = Inr (tax_lines res)" using st by (simp add: taxed_lines_def lines_def)
  from inclusive_lines_spec [OF this] have out: "length (tax_lines res) = length inputs"
    "\<And>j. j < length inputs \<Longrightarrow> \<exists>i. inclusive_line i (resolved ! j) (lines ! j) = Inr (tax_lines res ! j)"
    using l len by auto
  have each: "line_net (tax_lines res ! j) + line_tax (tax_lines res ! j) = input_cents inputs j
        \<and> \<bar>of_int (line_net (tax_lines res ! j))
            - of_int (input_cents inputs j) / (1 + (\<Sum>c \<leftarrow> components (resolved ! j). percent (snd c)) / 100)\<bar> \<le> (1 / 2 :: rat)"
    if j: "j < length inputs" for j
  proof -
    have "proper_line (array_items (get reference ''rates'')) (resolved ! j)"
      by (rule resolve_lines_proper [OF assms(2)]) (use j len in simp)
    then have "\<forall>c \<in> set (components (resolved ! j)). ratio_ok (snd c)" using proper_line_ratios by blast
    moreover obtain i where "inclusive_line i (resolved ! j) (lines ! j) = Inr (tax_lines res ! j)" using out(2) [OF j] by blast
    ultimately show ?thesis using inclusive_line_spec [of i "resolved ! j" "lines ! j"] untaxed [OF j] by simp
  qed
  have "(\<Sum>l \<leftarrow> tax_lines res. line_net l) + (\<Sum>l \<leftarrow> tax_lines res. line_tax l) = (\<Sum>l \<leftarrow> tax_lines res. line_net l + line_tax l)"
    by (simp add: sum_list_addf)
  also have "map (\<lambda>l. line_net l + line_tax l) (tax_lines res) = map (\<lambda>l. cents_of (gross_cents l)) inputs"
    by (rule nth_equalityI) (simp_all add: out(1) each input_cents_def)
  finally show ?thesis using st each out(1) by simp
qed


end
