(* ===== verification/TaxInverse.thy ===== *)
theory TaxInverse
  imports TaxProofs
begin

text \<open>
  The reconstruction of tax-exclusive net amounts from gross amounts (the second part of the
  calculator in \<open>lib/qbo/purchaseTax.ts\<close>): binary search for a net total, the candidates
  of every line with and without an extra cent, and the sweep over all cuts of their priority
  order.
\<close>

section \<open>The search for a net amount\<close>

function inverse_search :: "(int \<Rightarrow> int) \<Rightarrow> int \<Rightarrow> int \<Rightarrow> int \<Rightarrow> int option" where
  "inverse_search f target low high =
     (if low \<le> high
      then (let middle = (low + high) div 2; v = f middle
            in if v = target then Some middle
               else if v < target then inverse_search f target (middle + 1) high
               else inverse_search f target low (middle - 1))
      else None)"
  by pat_completeness auto
termination
  by (relation "measure (\<lambda>(f, target, low, high). nat (high - low + 1))") auto

declare inverse_search.simps [simp del]

definition exact_monotone_inverse :: "int \<Rightarrow> (int \<Rightarrow> int) \<Rightarrow> int option" where
  "exact_monotone_inverse target f = inverse_search f target 0 target"

section \<open>The inverse of one rate\<close>

record candidate =
  net_magnitude :: int
  bonus :: bool
  cand_remainder :: int
  cand_index :: nat

datatype group_inverse = NoInverse | UniqueInverse "int list" | MultipleInverse

definition max_inverse_lines :: nat where
  "max_inverse_lines = 20"

text \<open>The order of \<open>priorityCompare\<close>: \<open>cand_key\<close> is smaller for what comes first.\<close>

definition cand_key :: "candidate \<Rightarrow> int \<times> nat" where
  "cand_key c = (- cand_remainder c, cand_index c)"

definition candidate_of :: "int list \<Rightarrow> ratio \<Rightarrow> nat \<Rightarrow> bool \<Rightarrow> candidate option" where
  "candidate_of targets rate i b =
     (let den = snd rate * 100
      in case exact_monotone_inverse (targets ! i) (\<lambda>net. net + net * fst rate div den + (if b then 1 else 0)) of
           None \<Rightarrow> None
         | Some net \<Rightarrow> Some \<lparr>net_magnitude = net, bonus = b, cand_remainder = net * fst rate mod den, cand_index = i\<rparr>)"

definition candidates_at :: "int list \<Rightarrow> ratio \<Rightarrow> nat \<Rightarrow> candidate list" where
  "candidates_at targets rate i = List.map_filter (candidate_of targets rate i) [False, True]"

definition rank_of :: "candidate list \<Rightarrow> candidate \<Rightarrow> nat" where
  "rank_of priorities c = length (takeWhile (\<lambda>d. d \<noteq> c) priorities)"

definition admitted :: "candidate list \<Rightarrow> nat \<Rightarrow> candidate list \<Rightarrow> candidate list" where
  "admitted priorities pos cs =
     filter (\<lambda>c. if bonus c then rank_of priorities c < pos else pos \<le> rank_of priorities c) cs"

fun select_candidates :: "candidate list \<Rightarrow> nat \<Rightarrow> candidate list list \<Rightarrow> candidate list option" where
  "select_candidates priorities pos [] = Some []"
| "select_candidates priorities pos (cs # css) =
     (case admitted priorities pos cs of
        [c] \<Rightarrow> map_option (\<lambda>rest. c # rest) (select_candidates priorities pos css)
      | _ \<Rightarrow> None)"

definition cut_solution :: "int \<Rightarrow> candidate list \<Rightarrow> candidate list list \<Rightarrow> nat \<Rightarrow> int list option" where
  "cut_solution required priorities css pos =
     (case select_candidates priorities pos css of
        None \<Rightarrow> None
      | Some selected \<Rightarrow>
          (let with_bonus = sort_key cand_key (filter bonus selected);
               without = sort_key cand_key (filter (\<lambda>c. \<not> bonus c) selected)
           in if sum_list (map net_magnitude selected) \<noteq> required then None
              else if with_bonus \<noteq> [] \<and> without \<noteq> [] \<and> cand_key (hd without) \<le> cand_key (last with_bonus) then None
              else Some (map net_magnitude selected)))"

text \<open>
  The solutions found are kept in a map by their text, which determines them; the sweep stops at
  the second one.
\<close>

fun sweep_cuts :: "(nat \<Rightarrow> int list option) \<Rightarrow> nat list \<Rightarrow> int list list \<Rightarrow> group_inverse" where
  "sweep_cuts f [] solutions = (case solutions of [s] \<Rightarrow> UniqueInverse s | _ \<Rightarrow> NoInverse)"
| "sweep_cuts f (pos # cuts) solutions =
     (case f pos of
        None \<Rightarrow> sweep_cuts f cuts solutions
      | Some s \<Rightarrow>
          (let solutions' = (if s \<in> set solutions then solutions else solutions @ [s])
           in if 1 < length solutions' then MultipleInverse else sweep_cuts f cuts solutions'))"

definition inverse_group :: "int list \<Rightarrow> nat list \<Rightarrow> ratio \<Rightarrow> group_inverse" where
  "inverse_group targets indexes rate =
     (if fst rate = 0 then UniqueInverse (map (\<lambda>i. targets ! i) indexes)
      else
        (let den = snd rate * 100; total = sum_list (map (\<lambda>i. targets ! i) indexes)
         in case exact_monotone_inverse total (\<lambda>net. net + round_ratio (net * fst rate) den) of
              None \<Rightarrow> NoInverse
            | Some required \<Rightarrow>
                (let css = map (candidates_at targets rate) indexes
                 in if [] \<in> set css then NoInverse
                    else (let priorities = sort_key cand_key (concat css)
                          in sweep_cuts (cut_solution required priorities css) [0..<Suc (length priorities)] []))))"

section \<open>The reconstruction\<close>

text \<open>Every line resolves to exactly one rate.\<close>

fun resolve_single ::
  "nat \<Rightarrow> tax_line_input list \<Rightarrow> json list \<Rightarrow> json list \<Rightarrow> tax_direction \<Rightarrow> tax_stop + (jstring \<times> ratio) list" where
  "resolve_single i [] codes rates dir = Inr []"
| "resolve_single i (line # lines) codes rates dir =
     (case resolve_tax_line line TaxExcluded codes rates dir of
        Inl stop \<Rightarrow> Inl stop
      | Inr r \<Rightarrow>
          (case components r of
             [c] \<Rightarrow>
               (case resolve_single (Suc i) lines codes rates dir of
                  Inl stop \<Rightarrow> Inl stop
                | Inr cs \<Rightarrow> Inr (c # cs))
           | _ \<Rightarrow> Inl (Ineligible TaxRateUnsupported (Some i))))"

fun single_groups :: "nat \<Rightarrow> (jstring \<times> ratio) list \<Rightarrow> rate_groups \<Rightarrow> rate_groups" where
  "single_groups i [] groups = groups"
| "single_groups i (c # cs) groups = single_groups (Suc i) cs (add_component i c groups)"

definition put_all :: "int \<Rightarrow> nat list \<Rightarrow> int list \<Rightarrow> int list \<Rightarrow> int list" where
  "put_all sign indexes nets xs = fold (\<lambda>(i, n) ys. ys[i := sign * n]) (zip indexes nets) xs"

fun reconstruct_nets :: "int list \<Rightarrow> int \<Rightarrow> rate_groups \<Rightarrow> int list \<Rightarrow> int list option" where
  "reconstruct_nets targets sign [] xs = Some xs"
| "reconstruct_nets targets sign ((i, indexes, rate) # groups) xs =
     (case inverse_group targets indexes rate of
        UniqueInverse nets \<Rightarrow> reconstruct_nets targets sign groups (put_all sign indexes nets xs)
      | _ \<Rightarrow> None)"

definition sign_of :: "int list \<Rightarrow> int" where
  "sign_of gs = (case filter (\<lambda>g. g \<noteq> 0) gs of [] \<Rightarrow> 1 | g # _ \<Rightarrow> sgn g)"

definition with_cents :: "tax_line_input \<Rightarrow> int \<Rightarrow> tax_line_input" where
  "with_cents line c = line\<lparr>gross_cents := Fin (of_int c)\<rparr>"

text \<open>\<open>None\<close> is \<open>null\<close>.\<close>

definition reconstruct_tax_excluded ::
  "tax_direction \<Rightarrow> jstring \<Rightarrow> tax_line_input list \<Rightarrow> json \<Rightarrow> (tax_stop + tax_result) option" where
  "reconstruct_tax_excluded dir company inputs reference =
     (if inputs = [] \<or> max_inverse_lines < length inputs then None
      else case calculate_tax dir company TaxInclusive inputs reference of
             Inl stop \<Rightarrow> Some (Inl stop)
           | Inr _ \<Rightarrow>
               (case resolve_single 0 inputs (array_items (get reference ''codes'')) (array_items (get reference ''rates'')) dir of
                  Inl stop \<Rightarrow> Some (Inl stop)
                | Inr resolved \<Rightarrow>
                    (let cents = map (cents_of \<circ> gross_cents) inputs
                     in if mixed_signs cents then Some (ineligible TaxAmountSignMismatch)
                        else case reconstruct_nets (map abs cents) (sign_of cents) (single_groups 0 resolved [])
                                    (replicate (length inputs) 0) of
                               None \<Rightarrow> None
                             | Some nets \<Rightarrow>
                                 (if list_ex (\<lambda>n. to_safe_cents n = None) nets then None
                                  else case calculate_tax dir company TaxExcluded (map2 with_cents inputs nets) reference of
                                         Inl (Thrown e) \<Rightarrow> Some (Inl (Thrown e))
                                       | Inl (Ineligible _ _) \<Rightarrow> None
                                       | Inr final \<Rightarrow>
                                           (if list_ex (\<lambda>(l, g). line_net l + line_tax l \<noteq> g) (zip (tax_lines final) cents)
                                            then None else Some (Inr final))))))"

definition calculate_purchase_transaction where
  "calculate_purchase_transaction = calculate_tax PurchaseTax"

definition calculate_sales_transaction where
  "calculate_sales_transaction = calculate_tax SalesTax"

definition reconstruct_purchase_tax_excluded where
  "reconstruct_purchase_tax_excluded = reconstruct_tax_excluded PurchaseTax"

definition reconstruct_sales_tax_excluded where
  "reconstruct_sales_tax_excluded = reconstruct_tax_excluded SalesTax"

section \<open>The search is exact\<close>

lemma inverse_search_Some: "inverse_search f target low high = Some m \<Longrightarrow> f m = target \<and> low \<le> m \<and> m \<le> high"
proof (induction f target low high rule: inverse_search.induct)
  case (1 f target low high)
  show ?case
  proof (cases "low \<le> high")
    case True
    define m' where "m' = (low + high) div 2"
    have m': "low \<le> m'" "m' \<le> high" using True by (simp_all add: m'_def)
    show ?thesis
      using 1(1,2) [OF True refl [of m', unfolded m'_def] refl] 1(3) True m'
      by (subst (asm) inverse_search.simps) (auto simp: Let_def m'_def [symmetric] split: if_splits)
  qed (use 1(3) in \<open>simp add: inverse_search.simps [of f target low high]\<close>)
qed

lemma inverse_search_finds:
  assumes "\<And>a b. low0 \<le> a \<Longrightarrow> a < b \<Longrightarrow> f a < f b"
  shows "low0 \<le> low \<Longrightarrow> low \<le> m \<Longrightarrow> m \<le> high \<Longrightarrow> f m = target \<Longrightarrow> inverse_search f target low high = Some m"
  using assms
proof (induction f target low high rule: inverse_search.induct)
  case (1 f target low high)
  define m' where "m' = (low + high) div 2"
  have le: "low \<le> high" using 1 by linarith
  have m': "low \<le> m'" "m' \<le> high" using le by (simp_all add: m'_def)
  have cases: "inverse_search f target low high =
      (if f m' = target then Some m' else if f m' < target then inverse_search f target (m' + 1) high
       else inverse_search f target low (m' - 1))"
    using le by (subst inverse_search.simps) (simp add: Let_def m'_def)
  consider "m = m'" | "m < m'" | "m' < m" by linarith
  then show ?case
  proof cases
    case 1
    then show ?thesis using cases \<open>f m = target\<close> by simp
  next
    case 2
    then have "f m < f m'" using "1.prems"(5) [of m m'] "1.prems"(1,2) by simp
    then show ?thesis using cases "1.IH"(2) [OF le refl [of m', unfolded m'_def] refl] "1.prems" 2
      by (simp add: m'_def [symmetric])
  next
    case 3
    then have "f m' < f m" using "1.prems"(5) [of m' m] "1.prems"(1) m' by simp
    then show ?thesis using cases "1.IH"(1) [OF le refl [of m', unfolded m'_def] refl] "1.prems" 3 m'
      by (simp add: m'_def [symmetric])
  qed
qed

lemma exact_monotone_inverse_iff:
  assumes mono: "\<And>a b. 0 \<le> a \<Longrightarrow> a < b \<Longrightarrow> f a < f b" and above: "\<And>a. 0 \<le> a \<Longrightarrow> a \<le> f a"
  shows "exact_monotone_inverse target f = Some m \<longleftrightarrow> 0 \<le> m \<and> f m = target"
proof
  assume "exact_monotone_inverse target f = Some m"
  then show "0 \<le> m \<and> f m = target" unfolding exact_monotone_inverse_def by (auto dest: inverse_search_Some)
next
  assume m: "0 \<le> m \<and> f m = target"
  then have "m \<le> target" using above by blast
  then show "exact_monotone_inverse target f = Some m"
    unfolding exact_monotone_inverse_def using inverse_search_finds [of 0 f 0 m target target] mono m by blast
qed

section \<open>What is inverted\<close>

text \<open>The net magnitudes with given gross magnitudes.\<close>

definition inverse_of :: "int list \<Rightarrow> nat list \<Rightarrow> ratio \<Rightarrow> (nat \<Rightarrow> int) \<Rightarrow> bool" where
  "inverse_of targets indexes rate y \<longleftrightarrow>
     (\<forall>i \<in> set indexes. 0 \<le> y i \<and> y i + allocated rate y indexes i = targets ! i)"

section \<open>Candidates\<close>

lemma candidate_of_iff:
  assumes "ratio_ok rate"
  shows "candidate_of targets rate i b = Some c \<longleftrightarrow>
    c = \<lparr>net_magnitude = net_magnitude c, bonus = b,
         cand_remainder = net_magnitude c * fst rate mod (snd rate * 100), cand_index = i\<rparr>
    \<and> 0 \<le> net_magnitude c
    \<and> net_magnitude c + net_magnitude c * fst rate div (snd rate * 100) + (if b then 1 else 0) = targets ! i"
proof -
  have pos: "0 < snd rate * 100" "0 \<le> fst rate" using ratio_okD [OF assms] by simp_all
  let ?f = "\<lambda>net. net + net * fst rate div (snd rate * 100) + (if b then 1 else (0::int))"
  have mono: "?f x < ?f y" if "0 \<le> x" "x < y" for x y
  proof -
    have "x * fst rate \<le> y * fst rate" using that pos by (simp add: mult_right_mono)
    then have "x * fst rate div (snd rate * 100) \<le> y * fst rate div (snd rate * 100)" using pos by (simp add: zdiv_mono1)
    then show ?thesis using that by simp
  qed
  have above: "x \<le> ?f x" if "0 \<le> x" for x using that pos by (simp add: pos_imp_zdiv_nonneg_iff)
  have e: "exact_monotone_inverse (targets ! i) ?f = Some m \<longleftrightarrow> 0 \<le> m \<and> ?f m = targets ! i" for m
    by (rule exact_monotone_inverse_iff [OF mono above])
  show ?thesis
  proof
    assume "candidate_of targets rate i b = Some c"
    then obtain m where m: "exact_monotone_inverse (targets ! i) ?f = Some m"
      "c = \<lparr>net_magnitude = m, bonus = b, cand_remainder = m * fst rate mod (snd rate * 100), cand_index = i\<rparr>"
      by (auto simp: candidate_of_def Let_def split: option.splits)
    then show "c = \<lparr>net_magnitude = net_magnitude c, bonus = b,
         cand_remainder = net_magnitude c * fst rate mod (snd rate * 100), cand_index = i\<rparr>
      \<and> 0 \<le> net_magnitude c
      \<and> net_magnitude c + net_magnitude c * fst rate div (snd rate * 100) + (if b then 1 else 0) = targets ! i"
      using e [of m] by simp
  next
    assume c: "c = \<lparr>net_magnitude = net_magnitude c, bonus = b,
         cand_remainder = net_magnitude c * fst rate mod (snd rate * 100), cand_index = i\<rparr>
      \<and> 0 \<le> net_magnitude c
      \<and> net_magnitude c + net_magnitude c * fst rate div (snd rate * 100) + (if b then 1 else 0) = targets ! i"
    then have "exact_monotone_inverse (targets ! i) ?f = Some (net_magnitude c)" unfolding e by simp
    then show "candidate_of targets rate i b = Some c" using c by (simp add: candidate_of_def Let_def)
  qed
qed

lemma candidates_at_split:
  "candidates_at targets rate i =
     (case candidate_of targets rate i False of None \<Rightarrow> [] | Some c \<Rightarrow> [c])
     @ (case candidate_of targets rate i True of None \<Rightarrow> [] | Some c \<Rightarrow> [c])"
  by (auto simp: candidates_at_def map_filter_def split: option.splits)

lemma in_candidates_at: "c \<in> set (candidates_at targets rate i) \<longleftrightarrow> (\<exists>b. candidate_of targets rate i b = Some c)"
proof
  assume "c \<in> set (candidates_at targets rate i)"
  then show "\<exists>b. candidate_of targets rate i b = Some c" by (auto simp: candidates_at_split split: option.splits)
next
  assume "\<exists>b. candidate_of targets rate i b = Some c"
  then obtain b where "candidate_of targets rate i b = Some c" by blast
  then show "c \<in> set (candidates_at targets rate i)" by (cases b) (auto simp: candidates_at_split)
qed

lemma candidate_facts:
  assumes "ratio_ok rate" "c \<in> set (candidates_at targets rate i)"
  shows "cand_index c = i" "0 \<le> net_magnitude c"
    "cand_remainder c = net_magnitude c * fst rate mod (snd rate * 100)"
    "net_magnitude c + net_magnitude c * fst rate div (snd rate * 100) + (if bonus c then 1 else 0) = targets ! i"
proof -
  obtain b where "candidate_of targets rate i b = Some c" using assms(2) in_candidates_at by blast
  note f = this [unfolded candidate_of_iff [OF assms(1)]]
  have b: "bonus c = b" using f by (metis candidate.select_convs(2))
  show "cand_index c = i" "cand_remainder c = net_magnitude c * fst rate mod (snd rate * 100)"
    using f by (metis candidate.select_convs(4), metis candidate.select_convs(3))
  show "0 \<le> net_magnitude c"
    "net_magnitude c + net_magnitude c * fst rate div (snd rate * 100) + (if bonus c then 1 else 0) = targets ! i"
    using f b by simp_all
qed

text \<open>Of two candidates of a line, the one without the extra cent comes first.\<close>

lemma no_bonus_first:
  assumes rate: "ratio_ok rate" "fst rate \<noteq> 0" and c: "candidate_of targets rate i False = Some c"
    and d: "candidate_of targets rate i True = Some d"
  shows "cand_key c < cand_key d"
proof -
  have pos: "0 < snd rate * 100" "0 < fst rate" using ratio_okD [OF rate(1)] rate(2) by simp_all
  define n where "n = fst rate"
  define T where "T = snd rate * 100"
  define x where "x = net_magnitude c"
  define y where "y = net_magnitude d"
  have cf: "cand_index c = i" "cand_remainder c = x * n mod T" "0 \<le> x" "x + x * n div T = targets ! i"
    using c [unfolded candidate_of_iff [OF rate(1)]] unfolding x_def n_def T_def
    by (metis candidate.select_convs(4), metis candidate.select_convs(3), simp, simp)
  have df: "cand_index d = i" "cand_remainder d = y * n mod T" "0 \<le> y" "y + y * n div T + 1 = targets ! i"
    using d [unfolded candidate_of_iff [OF rate(1)]] unfolding y_def n_def T_def
    by (metis candidate.select_convs(4), metis candidate.select_convs(3), simp, simp)
  have mono: "a * n div T \<le> b * n div T" if "a \<le> b" for a b
    using that pos by (intro zdiv_mono1) (auto simp: n_def T_def mult_right_mono)
  have "y < x"
  proof (rule ccontr)
    assume "\<not> y < x"
    then have "x * n div T \<le> y * n div T" using mono by simp
    then show False using cf(4) df(4) \<open>\<not> y < x\<close> by simp
  qed
  moreover have "\<not> y + 1 < x" using mono [of y x] cf(4) df(4) by linarith
  ultimately have x: "x = y + 1" by simp
  have e1: "x * n div T = y * n div T" using cf(4) df(4) x by simp
  have e2: "x * n = y * n + n" using x by (simp add: distrib_right)
  have "x * n mod T = x * n - T * (x * n div T)" by (simp add: minus_mult_div_eq_mod)
  also have "\<dots> = y * n + n - T * (y * n div T)" unfolding e1 unfolding e2 by (rule refl)
  also have "\<dots> = y * n mod T + n" by (simp add: minus_mult_div_eq_mod [symmetric])
  finally have "x * n mod T = y * n mod T + n" .
  then show ?thesis using cf df pos by (simp add: cand_key_def n_def)
qed

section \<open>Sorted lists with distinct keys\<close>

lemma prefix_is_filter:
  assumes "sorted (map f xs)" "\<And>x y. x \<in> set xs \<Longrightarrow> y \<in> set xs \<Longrightarrow> P x \<Longrightarrow> \<not> P y \<Longrightarrow> f x < f y"
  shows "take (length (filter P xs)) xs = filter P xs"
  using assms
proof (induction xs)
  case (Cons x xs)
  show ?case
  proof (cases "P x")
    case False
    have "\<not> P y" if "y \<in> set xs" for y
    proof
      assume "P y"
      then have "f y < f x" using Cons.prems(2) [of y x] that False by simp
      moreover have "f x \<le> f y" using Cons.prems(1) that by simp
      ultimately show False by simp
    qed
    then have "filter P xs = []" by (simp add: filter_empty_conv)
    then show ?thesis using False by simp
  next
    case True
    then show ?thesis using Cons by simp
  qed
qed simp

lemma rank_of_less:
  assumes "sorted (map cand_key ps)" "distinct (map cand_key ps)" "c \<in> set ps" "d \<in> set ps"
  shows "rank_of ps c < rank_of ps d \<longleftrightarrow> cand_key c < cand_key d"
  using assms
proof (induction ps)
  case (Cons p ps)
  have less: "cand_key p < cand_key x" if "x \<in> set ps" for x
    using Cons.prems(1,2) that by (simp add: order.strict_iff_order) (metis image_eqI)
  have ih: "c \<in> set ps \<Longrightarrow> d \<in> set ps \<Longrightarrow> rank_of ps c < rank_of ps d \<longleftrightarrow> cand_key c < cand_key d"
    using Cons by simp
  consider "c = p" "d = p" | "c = p" "d \<noteq> p" | "c \<noteq> p" "d = p" | "c \<noteq> p" "d \<noteq> p" by blast
  then show ?case
  proof cases
    case 2
    then show ?thesis using less [of d] Cons.prems(4) by (simp add: rank_of_def)
  next
    case 3
    then show ?thesis using less [of c] Cons.prems(3) by (simp add: rank_of_def less_le_not_le)
  next
    case 4
    then show ?thesis using ih Cons.prems by (simp add: rank_of_def)
  qed (simp add: rank_of_def)
qed simp

lemma rank_of_bound: "c \<in> set ps \<Longrightarrow> rank_of ps c < length ps"
  by (induction ps) (auto simp: rank_of_def)

section \<open>The sweep\<close>

text \<open>The outcome reports whether the set of solutions is empty, a singleton or larger.\<close>

definition reports :: "group_inverse \<Rightarrow> int list set \<Rightarrow> bool" where
  "reports r solutions \<longleftrightarrow>
     (case r of
        NoInverse \<Rightarrow> solutions = {}
      | UniqueInverse s \<Rightarrow> solutions = {s}
      | MultipleInverse \<Rightarrow> \<exists>s s'. s \<noteq> s' \<and> {s, s'} \<subseteq> solutions)"

lemma sweep_cuts_spec:
  assumes "length solutions \<le> 1"
  shows "reports (sweep_cuts f ps solutions) (set solutions \<union> {s. \<exists>p \<in> set ps. f p = Some s})"
  using assms
proof (induction ps arbitrary: solutions)
  case Nil
  then show ?case by (cases solutions) (auto simp: reports_def)
next
  case (Cons p ps)
  show ?case
  proof (cases "f p")
    case None
    then have "{s. \<exists>q \<in> set (p # ps). f q = Some s} = {s. \<exists>q \<in> set ps. f q = Some s}" by auto
    then show ?thesis using Cons.IH [OF Cons.prems] None by (simp only: sweep_cuts.simps option.case)
  next
    case (Some s)
    define new where "new = (if s \<in> set solutions then solutions else solutions @ [s])"
    have set_new: "set new = insert s (set solutions)" by (auto simp: new_def)
    have all: "set solutions \<union> {t. \<exists>q \<in> set (p # ps). f q = Some t} = set new \<union> {t. \<exists>q \<in> set ps. f q = Some t}"
      using Some set_new by auto
    have step: "sweep_cuts f (p # ps) solutions = (if 1 < length new then MultipleInverse else sweep_cuts f ps new)"
      using Some by (simp add: new_def)
    show ?thesis
    proof (cases "1 < length new")
      case True
      then have "s \<notin> set solutions" "solutions \<noteq> []" using Cons.prems by (auto simp: new_def split: if_splits)
      then have "\<exists>s'. s \<noteq> s' \<and> {s, s'} \<subseteq> set new" using set_new by (cases solutions) auto
      then show ?thesis unfolding step all using True by (auto simp: reports_def)
    next
      case False
      then show ?thesis using Cons.IH [of new] unfolding step all by simp
    qed
  qed
qed

section \<open>Cuts and solutions\<close>

lemma select_candidates_Some:
  "select_candidates ps k css = Some cs \<longleftrightarrow> length cs = length css \<and> (\<forall>j < length css. admitted ps k (css ! j) = [cs ! j])"
proof (induction css arbitrary: cs)
  case (Cons c css)
  show ?case
    by (cases cs) (auto simp: Cons.IH less_Suc_eq_0_disj split: list.splits)
qed auto

lemma bonus_before:
  assumes "sorted (map cand_key xs)" "sorted (map cand_key ys)"
    and "\<not> (xs \<noteq> [] \<and> ys \<noteq> [] \<and> cand_key (hd ys) \<le> cand_key (last xs))" "x \<in> set xs" "y \<in> set ys"
  shows "cand_key x < cand_key y"
proof -
  have "cand_key x \<le> cand_key (last xs)"
    using assms(1,4) by (induction xs) auto
  moreover have "cand_key (hd ys) \<le> cand_key y" using assms(2,5) by (cases ys) auto
  ultimately show ?thesis using assms(3,4,5) by (metis empty_iff leI list.set(1) order.strict_trans1 order.strict_trans2)
qed

section \<open>The allocation is a cut of the priority order\<close>

definition share_key :: "ratio \<Rightarrow> (nat \<Rightarrow> int) \<Rightarrow> nat \<Rightarrow> int \<times> nat" where
  "share_key rate y i = (- (y i * fst rate mod (snd rate * 100)), i)"

lemma by_priority_facts:
  "sorted (map (\<lambda>s. (- share_remainder s, share_index s)) (by_priority ss))" "mset (by_priority ss) = mset ss"
  by (simp_all add: by_priority_def)

text \<open>A set of lines that comes first and has the right size is the one given the extra cents.\<close>

lemma extra_cents_ordered:
  assumes d: "distinct indexes" and order: "\<And>i j. i \<in> set indexes \<Longrightarrow> j \<in> set indexes \<Longrightarrow> b i \<Longrightarrow> \<not> b j \<Longrightarrow> share_key rate y i < share_key rate y j"
    and size: "round_ratio ((\<Sum>i \<leftarrow> indexes. y i) * fst rate) (snd rate * 100)
        - (\<Sum>i \<leftarrow> indexes. share_tax (share_at rate y i)) = int (length (filter b indexes))"
  shows "set (extra_cents rate y indexes) = {i \<in> set indexes. b i}"
proof -
  define ss where "ss = map (share_at rate y) indexes"
  let ?P = "\<lambda>s. b (share_index s)" and ?ps = "by_priority ss"
  have "length (filter ?P ?ps) = length (filter ?P ss)"
    using by_priority_facts(2) [of ss] by (metis mset_filter size_mset)
  also have "\<dots> = length (filter b indexes)" by (simp add: ss_def filter_map o_def)
  finally have len: "length (filter ?P ?ps) = length (filter b indexes)" .
  have set_ps: "set ?ps = set ss" using by_priority_facts(2) by (rule mset_eq_setD)
  have "take (length (filter ?P ?ps)) ?ps = filter ?P ?ps"
  proof (rule prefix_is_filter [OF by_priority_facts(1)])
    have key: "(- share_remainder s, share_index s) = share_key rate y (share_index s) \<and> share_index s \<in> set indexes"
      if "s \<in> set ?ps" for s
      using that unfolding set_ps by (auto simp: ss_def share_key_def)
    fix s t assume "s \<in> set ?ps" "t \<in> set ?ps" "?P s" "\<not> ?P t"
    then show "(- share_remainder s, share_index s) < (- share_remainder t, share_index t)"
      using order [of "share_index s" "share_index t"] key by presburger
  qed
  then have "extra_cents rate y indexes = map share_index (filter ?P ?ps)"
    unfolding extra_cents_def size ss_def [symmetric] by (simp add: hand_out_take len)
  then have e: "set (extra_cents rate y indexes) = share_index ` {s \<in> set ss. ?P s}" using set_ps by auto
  have "i \<in> share_index ` {s \<in> set ss. ?P s}" if "i \<in> set indexes" "b i" for i
    using that by (intro image_eqI [of _ _ "share_at rate y i"]) (simp_all add: ss_def)
  then show ?thesis unfolding e by (auto simp: ss_def)
qed

lemma sorted_take_less:
  assumes "sorted (map f xs)" "distinct (map f xs)" "x \<in> set (take n xs)" "y \<in> set xs" "y \<notin> set (take n xs)"
  shows "f x < f y"
proof -
  have "y \<in> set (drop n xs)" using assms(4,5) by (metis Un_iff append_take_drop_id set_append)
  have "sorted (map f (take n xs) @ map f (drop n xs))" "distinct (map f (take n xs) @ map f (drop n xs))"
    using assms(1,2) by (simp_all flip: map_append)
  then have "f x \<le> f y" "f x \<noteq> f y" using assms(3) \<open>y \<in> set (drop n xs)\<close> by (auto simp: sorted_append)
  then show ?thesis by simp
qed

lemma allocation_is_ordered:
  assumes rate: "ratio_ok rate" and d: "distinct indexes" and y: "\<forall>i \<in> set indexes. 0 \<le> y i"
  defines "b \<equiv> \<lambda>i. i \<in> set (extra_cents rate y indexes)"
  shows "set (extra_cents rate y indexes) \<subseteq> set indexes"
    and "\<And>i j. i \<in> set indexes \<Longrightarrow> j \<in> set indexes \<Longrightarrow> b i \<Longrightarrow> \<not> b j \<Longrightarrow> share_key rate y i < share_key rate y j"
    and "(\<Sum>i \<leftarrow> indexes. allocated rate y indexes i) = round_ratio ((\<Sum>i \<leftarrow> indexes. y i) * fst rate) (snd rate * 100)"
proof -
  define ss where "ss = map (share_at rate y) indexes"
  let ?key = "\<lambda>s. (- share_remainder s, share_index s)"
  have ids: "map share_index ss = indexes" by (simp add: ss_def o_def)
  obtain c where c: "round_ratio ((\<Sum>i \<leftarrow> indexes. y i) * fst rate) (snd rate * 100) - (\<Sum>i \<leftarrow> indexes. share_tax (share_at rate y i)) = int c"
    "c \<le> length (filter (\<lambda>s. 0 < share_remainder s) ss)"
    using allocation_counts [OF rate y] unfolding ss_def by blast
  have ex: "extra_cents rate y indexes = map share_index (take c (by_priority ss))"
    unfolding extra_cents_def c(1) ss_def [symmetric] by (simp add: hand_out_take)
  have set_ps: "set (by_priority ss) = set ss" using by_priority_facts(2) by (rule mset_eq_setD)
  have "mset (map share_index (by_priority ss)) = mset indexes" using by_priority_facts(2) [of ss] ids by (metis mset_map)
  then have dps: "distinct (map share_index (by_priority ss))" using d by (metis mset_eq_imp_distinct_iff)
  show "set (extra_cents rate y indexes) \<subseteq> set indexes"
    unfolding ex using set_ps by (auto simp: ss_def dest!: in_set_takeD)
  show "share_key rate y i < share_key rate y j" if "i \<in> set indexes" "j \<in> set indexes" "b i" "\<not> b j" for i j
  proof -
    have in_take: "share_at rate y k \<in> set (take c (by_priority ss)) \<longleftrightarrow> b k" for k
    proof
      assume "share_at rate y k \<in> set (take c (by_priority ss))"
      then show "b k" unfolding b_def ex by (metis (no_types) image_eqI list.set_map share_at_simps(1))
    next
      assume "b k"
      then obtain s where s: "s \<in> set (take c (by_priority ss))" "k = share_index s" unfolding b_def ex by auto
      then have "s \<in> set ss" using set_ps by (auto dest: in_set_takeD)
      then have "s = share_at rate y k" using s(2) by (auto simp: ss_def)
      then show "share_at rate y k \<in> set (take c (by_priority ss))" using s(1) by simp
    qed
    have "distinct (map ?key (by_priority ss))" using dps by (auto simp: distinct_map inj_on_def)
    then have "?key (share_at rate y i) < ?key (share_at rate y j)"
      by (rule sorted_take_less [OF by_priority_facts(1)]) (use that in_take set_ps in \<open>auto simp: ss_def\<close>)
    then show ?thesis by (simp add: share_key_def)
  qed
  have "(\<Sum>s \<leftarrow> ss. share_tax s + (if share_index s \<in> set (map share_index (take c (by_priority ss))) then 1 else 0))
      = (\<Sum>s \<leftarrow> ss. share_tax s) + int c"
    by (rule sum_chosen) (use ids d c(2) in \<open>auto intro: le_trans [OF _ length_filter_le]\<close>)
  then have "(\<Sum>i \<leftarrow> indexes. allocated rate y indexes i) = (\<Sum>i \<leftarrow> indexes. share_tax (share_at rate y i)) + int c"
    unfolding allocated_def ex by (simp add: ss_def o_def)
  then show "(\<Sum>i \<leftarrow> indexes. allocated rate y indexes i) = round_ratio ((\<Sum>i \<leftarrow> indexes. y i) * fst rate) (snd rate * 100)"
    using c(1) by simp
qed

end
