(* ===== verification/TaxUnique.thy ===== *)
theory TaxUnique
  imports TaxInverse
begin

text \<open>
  The reconstruction of \<open>TaxInverse\<close> is the inverse of the calculation of
  \<open>TaxCalc\<close>: the cuts of the priority order are the allocations of the extra cents, so the
  sweep of one rate reports exactly the set of net amounts with the given gross amounts, and the
  transaction that is reconstructed is the only one.
\<close>

section \<open>Solutions and cuts correspond\<close>

lemma function_of_list: "distinct xs \<Longrightarrow> length ys = length xs \<Longrightarrow> \<exists>f. map f xs = ys"
proof (induction xs arbitrary: ys)
  case (Cons x xs)
  then obtain z zs where ys: "ys = z # zs" "length zs = length xs" by (cases ys) auto
  then obtain f where "map f xs = zs" using Cons by auto
  then have "map (f(x := z)) (x # xs) = ys" using ys Cons.prems(1) by auto
  then show ?case by blast
qed simp

definition priority_list :: "int list \<Rightarrow> ratio \<Rightarrow> nat list \<Rightarrow> candidate list" where
  "priority_list targets rate indexes = sort_key cand_key (concat (map (candidates_at targets rate) indexes))"

lemma set_priority_list: "set (priority_list targets rate indexes) = (\<Union>i \<in> set indexes. set (candidates_at targets rate i))"
  by (simp add: priority_list_def)

lemma distinct_candidates:
  assumes "ratio_ok rate" "fst rate \<noteq> 0"
  shows "distinct (map cand_key (candidates_at targets rate i))"
  using less_imp_neq [OF no_bonus_first [OF assms, of targets i]] by (auto simp: candidates_at_split split: option.splits)

lemma priority_list_facts:
  assumes "ratio_ok rate" "fst rate \<noteq> 0" "distinct indexes"
  shows "sorted (map cand_key (priority_list targets rate indexes))"
    "distinct (map cand_key (priority_list targets rate indexes))"
proof -
  show "sorted (map cand_key (priority_list targets rate indexes))" by (simp add: priority_list_def)
  have "distinct (map cand_key (concat (map (candidates_at targets rate) indexes)))"
    using assms(3)
  proof (induction indexes)
    case (Cons i indexes)
    have "snd (cand_key c) = j" if "c \<in> set (candidates_at targets rate j)" for c j
      using candidate_facts(1) [OF assms(1) that] by (simp add: cand_key_def)
    then have "snd x = i" if "x \<in> cand_key ` set (candidates_at targets rate i)" for x using that by auto
    moreover have "snd x \<in> set indexes" if "x \<in> cand_key ` (\<Union>j \<in> set indexes. set (candidates_at targets rate j))" for x
      using that \<open>\<And>j c. c \<in> set (candidates_at targets rate j) \<Longrightarrow> snd (cand_key c) = j\<close> by auto
    ultimately have "cand_key ` set (candidates_at targets rate i) \<inter> cand_key ` (\<Union>j \<in> set indexes. set (candidates_at targets rate j)) = {}"
      using Cons.prems unfolding disjoint_iff by (metis distinct.simps(2))
    then show ?case using Cons distinct_candidates [OF assms(1,2), of targets i] by simp
  qed simp
  then show "distinct (map cand_key (priority_list targets rate indexes))"
    by (simp add: priority_list_def distinct_map)
qed

definition chosen_candidate :: "ratio \<Rightarrow> (nat \<Rightarrow> int) \<Rightarrow> nat list \<Rightarrow> nat \<Rightarrow> candidate" where
  "chosen_candidate rate y indexes i =
     \<lparr>net_magnitude = y i, bonus = (i \<in> set (extra_cents rate y indexes)),
      cand_remainder = y i * fst rate mod (snd rate * 100), cand_index = i\<rparr>"

lemma chosen_candidate_simps [simp]:
  "net_magnitude (chosen_candidate rate y indexes i) = y i"
  "bonus (chosen_candidate rate y indexes i) \<longleftrightarrow> i \<in> set (extra_cents rate y indexes)"
  "cand_key (chosen_candidate rate y indexes i) = share_key rate y i"
  by (simp_all add: chosen_candidate_def cand_key_def share_key_def)

lemma chosen_is_candidate:
  assumes "ratio_ok rate" "inverse_of targets indexes rate y" "i \<in> set indexes"
  shows "candidate_of targets rate i (i \<in> set (extra_cents rate y indexes)) = Some (chosen_candidate rate y indexes i)"
  using assms(2,3) unfolding candidate_of_iff [OF assms(1)]
  by (auto simp: chosen_candidate_def inverse_of_def allocated_def add.assoc)

text \<open>A cut that selects candidates selects the solution of an allocation.\<close>

lemma cut_sound:
  assumes rate: "ratio_ok rate" and idx: "distinct indexes"
    and required: "required + round_ratio (required * fst rate) (snd rate * 100) = (\<Sum>i \<leftarrow> indexes. targets ! i)"
    and found: "cut_solution required ps (map (candidates_at targets rate) indexes) k = Some ns"
  shows "\<exists>y. inverse_of targets indexes rate y \<and> map y indexes = ns"
proof -
  obtain cs where sel: "select_candidates ps k (map (candidates_at targets rate) indexes) = Some cs"
    and sum: "sum_list (map net_magnitude cs) = required" and ns: "ns = map net_magnitude cs"
    and order: "\<not> (sort_key cand_key (filter bonus cs) \<noteq> [] \<and> sort_key cand_key (filter (\<lambda>c. \<not> bonus c) cs) \<noteq> []
      \<and> cand_key (hd (sort_key cand_key (filter (\<lambda>c. \<not> bonus c) cs))) \<le> cand_key (last (sort_key cand_key (filter bonus cs))))"
    using found by (auto simp: cut_solution_def Let_def split: option.splits if_splits)
  have "length cs = length indexes" using sel by (simp add: select_candidates_Some)
  then obtain c where c: "map c indexes = cs" using function_of_list [OF idx] by blast
  define y where "y i = net_magnitude (c i)" for i
  have at: "c i \<in> set (candidates_at targets rate i)" if i: "i \<in> set indexes" for i
  proof -
    obtain j where j: "j < length indexes" "i = indexes ! j" using i by (metis in_set_conv_nth)
    then have "admitted ps k (candidates_at targets rate i) = [c i]"
      using sel c by (auto simp: select_candidates_Some)
    then have "c i \<in> set (admitted ps k (candidates_at targets rate i))" by simp
    then show ?thesis by (simp add: admitted_def)
  qed
  note facts = candidate_facts [OF rate at]
  have key: "cand_key (c i) = share_key rate y i" if "i \<in> set indexes" for i
    using facts(1,3) [OF that] by (simp add: cand_key_def share_key_def y_def)
  have less: "share_key rate y i < share_key rate y j"
    if "i \<in> set indexes" "j \<in> set indexes" "bonus (c i)" "\<not> bonus (c j)" for i j
  proof -
    have "cand_key (c i) < cand_key (c j)"
      by (rule bonus_before [OF _ _ order]) (use that c in auto)
    then show ?thesis using key that by simp
  qed
  have floors: "(\<Sum>i \<leftarrow> indexes. share_tax (share_at rate y i)) + int (length (filter (\<lambda>i. bonus (c i)) indexes))
      = round_ratio (required * fst rate) (snd rate * 100)"
  proof -
    have target: "targets ! i = y i + share_tax (share_at rate y i) + (if bonus (c i) then 1 else 0)" if "i \<in> set indexes" for i
      using facts(4) [OF that] by (simp add: y_def)
    have "(\<Sum>i \<leftarrow> indexes. targets ! i) = (\<Sum>i \<leftarrow> indexes. y i + share_tax (share_at rate y i) + (if bonus (c i) then 1 else 0))"
      by (rule arg_cong [of _ _ sum_list], rule map_cong [OF refl], rule target)
    also have "\<dots> = (\<Sum>i \<leftarrow> indexes. y i) + (\<Sum>i \<leftarrow> indexes. share_tax (share_at rate y i)) + (\<Sum>i \<leftarrow> indexes. if bonus (c i) then 1 else 0)"
      by (simp add: sum_list_addf)
    also have "(\<Sum>i \<leftarrow> indexes. if bonus (c i) then 1 else 0) = int (length (filter (\<lambda>i. bonus (c i)) indexes))"
      by (induction indexes) auto
    also have "(\<Sum>i \<leftarrow> indexes. y i) = required" using sum by (simp add: y_def o_def flip: c)
    finally show ?thesis using required by simp
  qed
  have "(\<Sum>i \<leftarrow> indexes. y i) = required" using sum by (simp add: y_def o_def flip: c)
  then have extra: "set (extra_cents rate y indexes) = {i \<in> set indexes. bonus (c i)}"
    using floors by (intro extra_cents_ordered [OF idx less]) simp_all
  have "inverse_of targets indexes rate y"
    unfolding inverse_of_def
  proof (intro ballI conjI)
    fix i assume i: "i \<in> set indexes"
    show "0 \<le> y i" using facts(2) [OF i] by (simp add: y_def)
    have "i \<in> set (extra_cents rate y indexes) \<longleftrightarrow> bonus (c i)" using extra i by simp
    then show "y i + allocated rate y indexes i = targets ! i"
      using facts(4) [OF i] unfolding allocated_def y_def [symmetric] by (simp add: add.assoc)
  qed
  moreover have "map y indexes = ns" unfolding ns by (simp add: y_def flip: c)
  ultimately show ?thesis by blast
qed


text \<open>Every allocation with the given gross amounts is found at some cut.\<close>

lemma cut_complete:
  assumes rate: "ratio_ok rate" "fst rate \<noteq> 0" and idx: "distinct indexes"
    and inv: "inverse_of targets indexes rate y" and required: "required = (\<Sum>i \<leftarrow> indexes. y i)"
  shows "\<exists>k < Suc (length (priority_list targets rate indexes)).
    cut_solution required (priority_list targets rate indexes) (map (candidates_at targets rate) indexes) k = Some (map y indexes)"
proof -
  define ps where "ps = priority_list targets rate indexes"
  define c where "c = chosen_candidate rate y indexes"
  define b where "b i \<longleftrightarrow> i \<in> set (extra_cents rate y indexes)" for i
  have c_simps: "net_magnitude (c i) = y i" "bonus (c i) \<longleftrightarrow> b i" "cand_key (c i) = share_key rate y i" for i
    by (simp_all add: c_def b_def)
  have is_cand: "candidate_of targets rate i (b i) = Some (c i)" if "i \<in> set indexes" for i
    unfolding b_def c_def by (rule chosen_is_candidate [OF rate(1) inv that])
  then have at: "c i \<in> set (candidates_at targets rate i)" if "i \<in> set indexes" for i
    using that in_candidates_at by blast
  have nonneg: "\<forall>i \<in> set indexes. 0 \<le> y i" using inv by (simp add: inverse_of_def)
  have order: "cand_key (c i) < cand_key (c j)" if "i \<in> set indexes" "j \<in> set indexes" "b i" "\<not> b j" for i j
    using allocation_is_ordered(2) [OF rate(1) idx nonneg that(1,2)] that(3,4) by (simp add: c_simps b_def)
  note sorted_ps = priority_list_facts(1) [OF rate idx, of targets, folded ps_def]
  note distinct_ps = priority_list_facts(2) [OF rate idx, of targets, folded ps_def]
  have in_ps: "d \<in> set ps" if "i \<in> set indexes" "d \<in> set (candidates_at targets rate i)" for i d
    using that by (auto simp: ps_def set_priority_list)
  define B where "B = c ` {i \<in> set indexes. b i}"
  define k where "k = (if B = {} then 0 else Suc (Max (rank_of ps ` B)))"
  have B_ps: "B \<subseteq> set ps" using at in_ps by (auto simp: B_def)
  have k: "rank_of ps d < k \<longleftrightarrow> (\<exists>e \<in> B. cand_key d \<le> cand_key e)" if d: "d \<in> set ps" for d
  proof (cases "B = {}")
    case False
    have "rank_of ps d < k \<longleftrightarrow> rank_of ps d \<le> Max (rank_of ps ` B)" using False by (simp add: k_def less_Suc_eq_le)
    also have "\<dots> \<longleftrightarrow> (\<exists>e \<in> B. rank_of ps d \<le> rank_of ps e)"
      using False by (subst Max_ge_iff) (auto simp: B_def)
    also have "\<dots> \<longleftrightarrow> (\<exists>e \<in> B. cand_key d \<le> cand_key e)"
      using rank_of_less [OF sorted_ps distinct_ps] d B_ps by (metis not_le subsetD)
    finally show ?thesis .
  qed (simp add: k_def)
  have "k \<le> length ps"
  proof (cases "B = {}")
    case False
    then have "Max (rank_of ps ` B) \<in> rank_of ps ` B" by (intro Max_in) (auto simp: B_def)
    then show ?thesis using False B_ps rank_of_bound by (force simp: k_def Suc_le_eq)
  qed (simp add: k_def)
  have admit: "admitted ps k (candidates_at targets rate i) = [c i]" if i: "i \<in> set indexes" for i
    unfolding admitted_def
  proof (rule filter_unique [OF _ at [OF i]])
    show "distinct (candidates_at targets rate i)" using distinct_candidates [OF rate] by (metis distinct_map)
    fix d assume d: "d \<in> set (candidates_at targets rate i)"
    then obtain b' where b': "candidate_of targets rate i b' = Some d" using in_candidates_at by blast
    then have bd: "bonus d = b'" using candidate_of_iff [OF rate(1)] by (metis candidate.select_convs(2))
    have same: "d = c i" if "b' = b i" using that b' is_cand [OF i] by simp
    note rank_d = k [OF in_ps [OF i d]]
    show "(if bonus d then rank_of ps d < k else k \<le> rank_of ps d) \<longleftrightarrow> d = c i"
    proof (cases "b i")
      case True
      then have ci: "c i \<in> B" using i by (auto simp: B_def)
      show ?thesis
      proof (cases b')
        case True
        then show ?thesis using same \<open>b i\<close> ci rank_d bd by auto
      next
        case False
        then have "cand_key d < cand_key (c i)" using no_bonus_first [OF rate] b' is_cand [OF i] True by simp
        then have "rank_of ps d < k" using rank_d ci by (meson less_imp_le)
        then show ?thesis using False bd True c_simps(2) by auto
      qed
    next
      case False
      have later: "\<not> cand_key (c i) \<le> cand_key e" if "e \<in> B" for e
        using that order [OF _ i _ False] by (auto simp: B_def not_le)
      show ?thesis
      proof (cases b')
        case True
        then have "cand_key (c i) < cand_key d" using no_bonus_first [OF rate] b' is_cand [OF i] False by simp
        then have "\<not> rank_of ps d < k" using rank_d later by (meson less_imp_le order_trans)
        then show ?thesis using True bd False c_simps(2) by auto
      next
        case b'False: False
        then show ?thesis using same False rank_d later bd by (auto simp: not_less)
      qed
    qed
  qed
  have sel: "select_candidates ps k (map (candidates_at targets rate) indexes) = Some (map c indexes)"
    using admit by (simp add: select_candidates_Some)
  have "\<not> (sort_key cand_key (filter bonus (map c indexes)) \<noteq> [] \<and> sort_key cand_key (filter (\<lambda>c. \<not> bonus c) (map c indexes)) \<noteq> []
      \<and> cand_key (hd (sort_key cand_key (filter (\<lambda>c. \<not> bonus c) (map c indexes)))) \<le> cand_key (last (sort_key cand_key (filter bonus (map c indexes)))))"
  proof
    let ?w = "sort_key cand_key (filter bonus (map c indexes))" and ?o = "sort_key cand_key (filter (\<lambda>c. \<not> bonus c) (map c indexes))"
    assume a: "?w \<noteq> [] \<and> ?o \<noteq> [] \<and> cand_key (hd ?o) \<le> cand_key (last ?w)"
    then have "last ?w \<in> set ?w" "hd ?o \<in> set ?o" by (metis last_in_set, metis hd_in_set)
    then obtain i j where "i \<in> set indexes" "b i" "last ?w = c i" "j \<in> set indexes" "\<not> b j" "hd ?o = c j"
      by (auto simp: c_simps)
    then have "cand_key (last ?w) < cand_key (hd ?o)" using order by simp
    then show False using a by (meson leD)
  qed
  moreover have "sum_list (map net_magnitude (map c indexes)) = required" using required by (simp add: c_simps o_def)
  moreover have "map net_magnitude (map c indexes) = map y indexes" by (simp add: c_simps)
  ultimately have "cut_solution required ps (map (candidates_at targets rate) indexes) k = Some (map y indexes)"
    unfolding cut_solution_def sel Let_def option.case by (simp only: if_False if_True simp_thms)
  then show ?thesis using \<open>k \<le> length ps\<close> unfolding ps_def by (auto simp: less_Suc_eq_le)
qed


text \<open>
  C24. The inverse of one rate: for the lines of a rate the sweep over all cuts answers that
  there are no net amounts with the given gross amounts exactly when there are none, answers
  with net amounts exactly when they are the only ones, and otherwise says that there are several.
\<close>

theorem inverse_group_reports:
  assumes rate: "ratio_ok rate" and idx: "distinct indexes" and targets: "\<forall>i \<in> set indexes. 0 \<le> targets ! i"
  shows "reports (inverse_group targets indexes rate) {map y indexes | y. inverse_of targets indexes rate y}"
proof (cases "fst rate = 0")
  case True
  have none: "allocated rate y indexes i = 0" for y i
  proof -
    have "(\<Sum>i \<leftarrow> indexes. share_tax (share_at rate y i)) = 0" using True by (induction indexes) auto
    then show ?thesis using True ratio_okD [OF rate]
      by (simp add: allocated_def extra_cents_def round_ratio_def hand_out_take)
  qed
  have "{map y indexes | y. inverse_of targets indexes rate y} = {map (\<lambda>i. targets ! i) indexes}" (is "?A = _")
  proof (intro equalityI subsetI)
    fix ns assume "ns \<in> ?A"
    then show "ns \<in> {map (\<lambda>i. targets ! i) indexes}" by (auto simp: inverse_of_def none)
  next
    fix ns assume "ns \<in> {map (\<lambda>i. targets ! i) indexes}"
    moreover have "inverse_of targets indexes rate (\<lambda>i. targets ! i)" using targets by (simp add: inverse_of_def none)
    ultimately show "ns \<in> ?A" by blast
  qed
  then show ?thesis using True by (simp add: inverse_group_def reports_def)
next
  case False
  define n T where "n = fst rate" and "T = snd rate * 100"
  define goal where "goal = (\<Sum>i \<leftarrow> indexes. targets ! i)"
  let ?A = "{map y indexes | y. inverse_of targets indexes rate y}"
  have pos: "0 < T" "0 \<le> n" using ratio_okD [OF rate] by (simp_all add: n_def T_def)
  have total: "(\<Sum>i \<leftarrow> indexes. y i) + round_ratio ((\<Sum>i \<leftarrow> indexes. y i) * n) T = goal" "0 \<le> (\<Sum>i \<leftarrow> indexes. y i)"
    if inv: "inverse_of targets indexes rate y" for y
  proof -
    have "\<forall>i \<in> set indexes. 0 \<le> y i" using inv by (simp add: inverse_of_def)
    note a = allocation_is_ordered(3) [OF rate idx this]
    have "goal = (\<Sum>i \<leftarrow> indexes. y i + allocated rate y indexes i)"
      unfolding goal_def using inv by (intro arg_cong [of _ _ sum_list] map_cong) (simp_all add: inverse_of_def)
    then show "(\<Sum>i \<leftarrow> indexes. y i) + round_ratio ((\<Sum>i \<leftarrow> indexes. y i) * n) T = goal"
      using a by (simp add: sum_list_addf n_def T_def)
    show "0 \<le> (\<Sum>i \<leftarrow> indexes. y i)" using inv by (intro sum_list_nonneg) (auto simp: inverse_of_def)
  qed
  let ?f = "\<lambda>net. net + round_ratio (net * n) T"
  have mono: "?f a < ?f b" if "0 \<le> a" "a < b" for a b
    using round_ratio_mono [of T "a * n" "b * n"] that pos by (simp add: mult_right_mono)
  have above: "a \<le> ?f a" if "0 \<le> a" for a
    using round_ratio_nonneg(1) [of "a * n" T] that pos by simp
  have search: "exact_monotone_inverse goal ?f = Some m \<longleftrightarrow> 0 \<le> m \<and> ?f m = goal" for m
    by (rule exact_monotone_inverse_iff [OF mono above])
  have unfold: "inverse_group targets indexes rate =
      (case exact_monotone_inverse goal ?f of
         None \<Rightarrow> NoInverse
       | Some required \<Rightarrow>
           (if [] \<in> set (map (candidates_at targets rate) indexes) then NoInverse
            else sweep_cuts (cut_solution required (priority_list targets rate indexes) (map (candidates_at targets rate) indexes))
                   [0..<Suc (length (priority_list targets rate indexes))] []))"
    using False unfolding inverse_group_def Let_def priority_list_def goal_def n_def T_def by simp
  show ?thesis
  proof (cases "exact_monotone_inverse goal ?f")
    case None
    have "\<not> inverse_of targets indexes rate y" for y
    proof
      assume "inverse_of targets indexes rate y"
      from total [OF this] search None show False by (metis option.distinct(1))
    qed
    then show ?thesis unfolding unfold None by (simp add: reports_def)
  next
    case (Some required)
    have req: "0 \<le> required" "?f required = goal" using search Some by auto
    show ?thesis
    proof (cases "[] \<in> set (map (candidates_at targets rate) indexes)")
      case True
      then obtain i where i: "i \<in> set indexes" "candidates_at targets rate i = []" by auto
      have "\<not> inverse_of targets indexes rate y" for y
      proof
        assume "inverse_of targets indexes rate y"
        from chosen_is_candidate [OF rate this i(1)]
        have "chosen_candidate rate y indexes i \<in> set (candidates_at targets rate i)" using in_candidates_at by blast
        then show False using i(2) by simp
      qed
      then show ?thesis unfolding unfold Some option.case if_P [OF True] by (simp add: reports_def)
    next
      case False
      let ?ps = "priority_list targets rate indexes" and ?css = "map (candidates_at targets rate) indexes"
      let ?B = "{s. \<exists>p \<in> set [0..<Suc (length ?ps)]. cut_solution required ?ps ?css p = Some s}"
      have "?A = ?B"
      proof (intro equalityI subsetI)
        fix s assume "s \<in> ?A"
        then obtain y where y: "inverse_of targets indexes rate y" "s = map y indexes" by blast
        have r: "required = (\<Sum>i \<leftarrow> indexes. y i)"
          using total [OF y(1)] search Some by (metis option.inject)
        obtain k where "k < Suc (length ?ps)" "cut_solution required ?ps ?css k = Some s"
          using cut_complete [OF rate \<open>fst rate \<noteq> 0\<close> idx y(1) r] y(2) by blast
        then have "k \<in> set [0..<Suc (length ?ps)]" "cut_solution required ?ps ?css k = Some s" by (auto simp: less_Suc_eq)
        then show "s \<in> ?B" by blast
      next
        fix s assume "s \<in> ?B"
        then obtain k where k: "cut_solution required ?ps ?css k = Some s" by blast
        have "required + round_ratio (required * fst rate) (snd rate * 100) = (\<Sum>i \<leftarrow> indexes. targets ! i)"
          using req(2) by (simp add: goal_def n_def T_def)
        from cut_sound [OF rate idx this k] show "s \<in> ?A" by blast
      qed
      moreover have "reports (sweep_cuts (cut_solution required ?ps ?css) [0..<Suc (length ?ps)] []) (set [] \<union> ?B)"
        by (rule sweep_cuts_spec) simp
      ultimately show ?thesis unfolding unfold Some option.case if_not_P [OF False] by simp
    qed
  qed
qed

section \<open>The reconstruction is the inverse of the calculation\<close>

lemma allocated_zero:
  assumes "ratio_ok rate" "\<forall>i \<in> set indexes. 0 \<le> y i" "y j = 0"
  shows "allocated rate y indexes j = 0"
proof -
  define ss where "ss = map (share_at rate y) indexes"
  obtain c where c: "round_ratio ((\<Sum>i \<leftarrow> indexes. y i) * fst rate) (snd rate * 100) - (\<Sum>i \<leftarrow> indexes. share_tax (share_at rate y i)) = int c"
    "c \<le> length (filter (\<lambda>s. 0 < share_remainder s) ss)"
    using allocation_counts [OF assms(1,2)] unfolding ss_def by blast
  have ex: "extra_cents rate y indexes = map share_index (take c (by_priority ss))"
    unfolding extra_cents_def c(1) ss_def [symmetric] by (simp add: hand_out_take)
  have "j \<notin> set (extra_cents rate y indexes)"
  proof
    assume "j \<in> set (extra_cents rate y indexes)"
    then obtain s where s: "s \<in> set (take c (by_priority ss))" "j = share_index s" unfolding ex by auto
    have "s \<in> set ss" using s(1) by (metis by_priority_facts(2) in_set_takeD mset_eq_setD)
    then have "s = share_at rate y j" using s(2) by (auto simp: ss_def)
    then show False using chosen_positive [OF c(2) s(1)] assms(3) by simp
  qed
  then show ?thesis using assms(3) by (simp add: allocated_def)
qed

lemma allocated_nonneg:
  assumes "ratio_ok rate" "0 \<le> y i"
  shows "0 \<le> allocated rate y indexes i"
  using ratio_okD [OF assms(1)] assms(2) by (simp add: allocated_def pos_imp_zdiv_nonneg_iff)

lemma put_all_nth:
  "j < length xs \<Longrightarrow> put_all sign indexes (map y indexes) xs ! j = (if j \<in> set indexes then sign * y j else xs ! j)"
  "length (put_all sign indexes ns xs) = length xs"
proof -
  have gen: "length (fold (\<lambda>(i, n) ys. ys[i := sign * n]) ps zs) = length zs" for ps and zs :: "int list"
    by (induction ps arbitrary: zs) auto
  then show "length (put_all sign indexes ns xs) = length xs" by (simp add: put_all_def)
  show "j < length xs \<Longrightarrow> put_all sign indexes (map y indexes) xs ! j = (if j \<in> set indexes then sign * y j else xs ! j)"
    unfolding put_all_def
  proof (induction indexes arbitrary: xs)
    case (Cons i indexes)
    then show ?case by (cases "i = j") (auto simp: nth_list_update)
  qed simp
qed

lemma reconstruct_nets_unique:
  assumes "\<forall>(i, indexes, rate) \<in> set groups. ratio_ok rate \<and> distinct indexes \<and> (\<forall>k \<in> set indexes. 0 \<le> targets ! k)
      \<and> inverse_of targets indexes rate y"
    and "reconstruct_nets targets sign groups xs = Some ys" "j < length xs"
  shows "ys ! j = (if \<exists>(i, indexes, rate) \<in> set groups. j \<in> set indexes then sign * y j else xs ! j) \<and> length ys = length xs"
  using assms
proof (induction groups arbitrary: xs)
  case (Cons g groups)
  obtain i indexes rate where g: "g = (i, indexes, rate)" by (cases g)
  have props: "ratio_ok rate" "distinct indexes" "\<forall>k \<in> set indexes. 0 \<le> targets ! k" "inverse_of targets indexes rate y"
    using Cons.prems(1) by (auto simp: g)
  obtain nets where nets: "inverse_group targets indexes rate = UniqueInverse nets"
    and rest: "reconstruct_nets targets sign groups (put_all sign indexes nets xs) = Some ys"
    using Cons.prems(2) by (auto simp: g split: group_inverse.splits)
  have "map y indexes = nets"
    using inverse_group_reports [OF props(1,2,3)] props(4) by (auto simp: nets reports_def)
  then have rest: "reconstruct_nets targets sign groups (put_all sign indexes (map y indexes) xs) = Some ys" using rest by simp
  show ?case
    using Cons.IH [OF _ rest] Cons.prems(1,3) put_all_nth(1) [OF Cons.prems(3)] by (auto simp: g put_all_nth(2))
qed simp

lemma single_groups_components:
  "map components rs = map (\<lambda>c. [c]) cs \<Longrightarrow> component_groups i rs groups = single_groups i cs groups"
proof (induction cs arbitrary: i rs groups)
  case (Cons c cs)
  then obtain r rs' where "rs = r # rs'" "components r = [c]" "map components rs' = map (\<lambda>c. [c]) cs" by auto
  then show ?case using Cons.IH by simp
qed simp

lemma with_cents_simps [simp]:
  "gross_cents (with_cents line n) = Fin (of_int n)"
  "tax_code (with_cents line n) = tax_code line"
  "non_tax_treatment (with_cents line n) = non_tax_treatment line"
  by (simp_all add: with_cents_def)

lemma resolve_tax_line_cents: "resolve_tax_line (with_cents line n) = resolve_tax_line line"
  unfolding fun_eq_iff resolve_tax_line_def with_cents_simps by blast

lemma resolve_single_ok:
  "resolve_single i inputs codes rates dir = Inr cs \<Longrightarrow>
     length cs = length inputs
     \<and> (\<forall>j < length inputs. \<exists>r. resolve_tax_line (inputs ! j) TaxExcluded codes rates dir = Inr r \<and> components r = [cs ! j])"
proof (induction i inputs codes rates dir arbitrary: cs rule: resolve_single.induct)
  case (2 i line lines codes rates dir)
  then obtain r c cs' where r: "resolve_tax_line line TaxExcluded codes rates dir = Inr r" "components r = [c]"
      "resolve_single (Suc i) lines codes rates dir = Inr cs'" "cs = c # cs'"
    by (auto split: sum.splits list.splits)
  then show ?case using 2(1) [OF r(1,2) refl r(3)] by (auto simp: less_Suc_eq_0_disj)
qed simp

lemma resolved_singles:
  assumes single: "resolve_single 0 inputs codes rates dir = Inr cs" and len: "length nets = length inputs"
    and lines: "resolve_lines 0 (map2 with_cents inputs nets) TaxExcluded codes rates dir = Inr resolved"
  shows "map components resolved = map (\<lambda>c. [c]) cs"
proof (rule nth_equalityI)
  have l: "length resolved = length inputs" "length cs = length inputs"
    using resolve_lines_ok [OF lines] resolve_single_ok [OF single] len by simp_all
  then show "length (map components resolved) = length (map (\<lambda>c. [c]) cs)" by simp
  fix j assume "j < length (map components resolved)"
  then have j: "j < length inputs" using l by simp
  have "resolve_tax_line (inputs ! j) TaxExcluded codes rates dir = Inr (resolved ! j)"
    using resolve_lines_ok [OF lines] j len by (auto simp: resolve_tax_line_cents)
  then show "map components resolved ! j = map (\<lambda>c. [c]) cs ! j"
    using resolve_single_ok [OF single] j l by fastforce
qed

lemma sign_of_nonzero:
  assumes "\<not> mixed_signs gs" "g \<in> set gs" "g \<noteq> 0"
  shows "sgn g = sign_of gs"
proof -
  obtain h hs where h: "filter (\<lambda>g. g \<noteq> 0) gs = h # hs" using assms(2,3) by (metis (mono_tags, lifting) filter_empty_conv list.exhaust)
  then have "h \<in> set (filter (\<lambda>g. g \<noteq> 0) gs)" by simp
  then have "h \<in> set gs" "h \<noteq> 0" by simp_all
  then have "sgn g = sgn h" using not_mixed_signs [OF assms(1)] assms(2,3) unfolding one_sign_def by (auto simp: sgn_if)
  then show ?thesis by (simp add: sign_of_def h)
qed

lemma calculate_tax_resolves:
  "calculate_tax dir company calculation inputs reference = Inr res \<Longrightarrow>
     \<exists>resolved. resolve_lines 0 inputs calculation (array_items (get reference ''codes'')) (array_items (get reference ''rates'')) dir = Inr resolved"
  by (auto simp: calculate_tax_def split: if_splits option.splits sum.splits)

text \<open>Where every line has one rate, it is in exactly one group.\<close>

lemma one_group:
  assumes proper: "\<forall>r \<in> set resolved. proper_line rates r" and single: "map components resolved = map (\<lambda>c. [c]) cs"
    and j: "j < length resolved"
  defines "G \<equiv> component_groups 0 resolved []"
  shows "\<exists>g \<in> set G. own_groups G j = [g] \<and> j \<in> set (fst (snd g))"
proof -
  have comp: "components (resolved ! j) = [cs ! j]" "length cs = length resolved"
    using single j by (metis length_map nth_map, metis length_map)
  have inv: "groups_inv rates (uses resolved) G" unfolding G_def by (rule component_groups_ok [OF proper])
  then have d: "distinct (map fst G)" by (simp add: groups_inv_def)
  have "uses resolved (fst (cs ! j)) j" using j comp by (simp add: uses_def)
  then obtain indexes rate where m: "map_of G (fst (cs ! j)) = Some (indexes, rate)" "j \<in> set indexes"
    using inv unfolding groups_inv_def group_of_def by (auto split: option.splits dest!: spec [of _ "fst (cs ! j)"])
  let ?g = "(fst (cs ! j), indexes, rate)"
  have g: "?g \<in> set G" using m(1) by (rule map_of_SomeD)
  have "j \<in> set (fst (snd h)) \<longleftrightarrow> h = ?g" if h: "h \<in> set G" for h
  proof
    assume jh: "j \<in> set (fst (snd h))"
    have "(fst h, snd (snd h)) \<in> set (components (resolved ! j))"
      using component_groups_proper [OF proper, folded G_def] h jh by (cases h) fastforce
    then have "cs ! j = (fst h, snd (snd h))" using comp(1) by simp
    then have "fst h = fst (cs ! j)" by simp
    then show "h = ?g" using h g d by (metis eq_key_imp_eq_value fst_conv prod.collapse)
  qed (simp add: m(2))
  then have "own_groups G j = [?g]"
    unfolding own_groups_def using d g by (intro filter_unique) (auto simp: distinct_map)
  then show ?thesis using g m(2) by (intro bexI [OF _ g]) simp
qed

lemma inverse_from_allocation:
  assumes rate: "ratio_ok rate"
    and gross: "\<forall>k \<in> set indexes. n k + sgn (n k) * allocated rate (\<lambda>i. \<bar>n i\<bar>) indexes k = c k \<and> targets ! k = \<bar>c k\<bar>"
  shows "inverse_of targets indexes rate (\<lambda>i. \<bar>n i\<bar>)"
  unfolding inverse_of_def
proof (intro ballI conjI)
  fix k assume k: "k \<in> set indexes"
  show "0 \<le> \<bar>n k\<bar>" by simp
  have a: "0 \<le> allocated rate (\<lambda>i. \<bar>n i\<bar>) indexes k" using rate by (intro allocated_nonneg) simp_all
  have z: "n k = 0 \<Longrightarrow> allocated rate (\<lambda>i. \<bar>n i\<bar>) indexes k = 0" using rate by (intro allocated_zero) simp_all
  have "n k + sgn (n k) * allocated rate (\<lambda>i. \<bar>n i\<bar>) indexes k = c k" "targets ! k = \<bar>c k\<bar>" using gross k by simp_all
  then show "\<bar>n k\<bar> + allocated rate (\<lambda>i. \<bar>n i\<bar>) indexes k = targets ! k"
    using a z by (auto simp: sgn_if split: if_splits)
qed

lemma allocated_cong:
  assumes "\<forall>i \<in> set indexes. y i = z i" "k \<in> set indexes"
  shows "allocated rate y indexes k = allocated rate z indexes k"
proof -
  have "map (share_at rate y) indexes = map (share_at rate z) indexes" using assms(1) by (simp add: share_at_def)
  moreover have "map (\<lambda>i. share_tax (share_at rate y i)) indexes = map (\<lambda>i. share_tax (share_at rate z i)) indexes"
    "map y indexes = map z indexes" using assms(1) by simp_all
  ultimately have "extra_cents rate y indexes = extra_cents rate z indexes" unfolding extra_cents_def by (simp only:)
  then show ?thesis using assms by (simp add: allocated_def)
qed

text \<open>
  C8. Reconstruction of the net amounts of a tax-exclusive transaction from its gross amounts:
  the result returned has the given gross amounts, and it is the only one, so that whatever net
  amounts were entered, the calculation from them is what is reconstructed.
\<close>

theorem reconstruct_tax_excluded_unique:
  assumes rec: "reconstruct_tax_excluded dir company inputs reference = Some (Inr res)"
    and len: "length nets = length inputs"
    and calc: "calculate_tax dir company TaxExcluded (map2 with_cents inputs nets) reference = Inr other"
    and gross: "map (\<lambda>l. line_net l + line_tax l) (tax_lines other) = map (cents_of \<circ> gross_cents) inputs"
  shows "other = res"
proof -
  define cents where "cents = map (cents_of \<circ> gross_cents) inputs"
  define sent where "sent = map2 with_cents inputs nets"
  let ?codes = "array_items (get reference ''codes'')" and ?rates = "array_items (get reference ''rates'')"
  obtain cs ys where single: "resolve_single 0 inputs ?codes ?rates dir = Inr cs" and signs: "\<not> mixed_signs cents"
    and nets: "reconstruct_nets (map abs cents) (sign_of cents) (single_groups 0 cs []) (replicate (length inputs) 0) = Some ys"
    and final: "calculate_tax dir company TaxExcluded (map2 with_cents inputs ys) reference = Inr res"
    using rec unfolding reconstruct_tax_excluded_def cents_def [symmetric]
    by (auto simp: Let_def split: if_splits sum.splits option.splits tax_stop.splits)
  obtain resolved where res: "resolve_lines 0 sent TaxExcluded ?codes ?rates dir = Inr resolved"
    using calculate_tax_resolves calc unfolding sent_def by blast
  have sent: "length sent = length inputs" "\<And>j. j < length inputs \<Longrightarrow> input_cents sent j = nets ! j"
    using len by (simp_all add: sent_def input_cents_def)
  note st = calculate_tax_stages [OF calc [folded sent_def] res]
  have len_res: "length resolved = length inputs" using st sent(1) by simp
  have proper: "\<forall>r \<in> set resolved. proper_line ?rates r" using resolve_lines_proper [OF res] by blast
  have comps: "map components resolved = map (\<lambda>c. [c]) cs" by (rule resolved_singles [OF single len res [unfolded sent_def]])
  define L where "L = map2 untaxed_line sent resolved"
  have L: "line_gross (L ! j) = nets ! j" "line_net (L ! j) = nets ! j" if "j < length inputs" for j
    using untaxed_lines [of resolved sent j] that sent len_res by (simp_all add: L_def)
  define G where "G = component_groups 0 resolved []"
  have G: "single_groups 0 cs [] = G" unfolding G_def by (rule single_groups_components [OF comps, symmetric])
  have each: "nets ! j + sgn (nets ! j) * allocated_in G (\<lambda>i. \<bar>line_gross (L ! i)\<bar>) j = cents ! j"
    if j: "j < length inputs" for j
  proof -
    obtain tax where t: "length (tax_lines other) = length sent"
      "tax_lines other ! j = (L ! j)\<lparr>line_tax := tax\<rparr>"
      "tax = sgn (nets ! j) * allocated_in G (\<lambda>i. \<bar>line_gross (L ! i)\<bar>) j"
      using excluded_stage [OF res] st j sent(2) [OF j] unfolding G_def [symmetric] sent(1) L_def [symmetric] by auto
    have "line_net (tax_lines other ! j) + line_tax (tax_lines other ! j) = cents ! j"
      using arg_cong [OF gross, of "\<lambda>zs. zs ! j"] j t(1) sent(1) by (simp add: cents_def)
    then show ?thesis using t(2,3) L [OF j] by simp
  qed
  have group: "ratio_ok rate \<and> distinct indexes \<and> (\<forall>k \<in> set indexes. 0 \<le> map abs cents ! k)
      \<and> inverse_of (map abs cents) indexes rate (\<lambda>i. \<bar>nets ! i\<bar>)" if g: "(i, indexes, rate) \<in> set G" for i indexes rate
  proof -
    have p: "ratio_ok rate" "distinct indexes" "\<forall>k \<in> set indexes. k < length inputs"
      using component_groups_proper [OF proper, folded G_def] g len_res by auto
    have a: "allocated rate (\<lambda>i. \<bar>line_gross (L ! i)\<bar>) indexes k = allocated rate (\<lambda>i. \<bar>nets ! i\<bar>) indexes k"
      if "k \<in> set indexes" for k
      using that p(3) L by (intro allocated_cong) simp_all
    have "nets ! k + sgn (nets ! k) * allocated rate (\<lambda>i. \<bar>nets ! i\<bar>) indexes k = cents ! k" if k: "k \<in> set indexes" for k
    proof -
      obtain h where h: "own_groups G k = [h]"
        using one_group [OF proper comps, of k] k p len_res unfolding G_def by auto
      have "(i, indexes, rate) \<in> set (own_groups G k)" using g k by (simp add: own_groups_def)
      then have "h = (i, indexes, rate)" using h by simp
      then show ?thesis using each [of k] h p k a by (simp add: allocated_in_def)
    qed
    then have "inverse_of (map abs cents) indexes rate (\<lambda>i. \<bar>nets ! i\<bar>)"
      by (intro inverse_from_allocation [OF p(1), of _ "\<lambda>i. nets ! i" "\<lambda>k. cents ! k"]) (use p in \<open>simp add: cents_def\<close>)
    then show ?thesis using p by (simp add: cents_def)
  qed
  have "ys = nets"
  proof (rule nth_equalityI)
    have "inputs \<noteq> []" using rec by (auto simp: reconstruct_tax_excluded_def)
    have groups: "\<forall>(i, indexes, rate) \<in> set G. ratio_ok rate \<and> distinct indexes \<and> (\<forall>k \<in> set indexes. 0 \<le> map abs cents ! k)
        \<and> inverse_of (map abs cents) indexes rate (\<lambda>i. \<bar>nets ! i\<bar>)"
      using group by fast
    have at: "ys ! j = (if \<exists>(i, indexes, rate) \<in> set G. j \<in> set indexes then sign_of cents * \<bar>nets ! j\<bar> else 0) \<and> length ys = length inputs"
      if j: "j < length inputs" for j
      using reconstruct_nets_unique [OF groups nets [unfolded G], of j] j by (simp cong: if_cong split del: if_split)
    have len_ys: "length ys = length inputs" using at [of 0] \<open>inputs \<noteq> []\<close> by simp
    then show "length ys = length nets" using len by simp
    fix j assume "j < length ys"
    then have j: "j < length inputs" using len_ys by simp
    obtain i indexes rate where g: "(i, indexes, rate) \<in> set G" "j \<in> set indexes"
      using one_group [OF proper comps, of j] j len_res unfolding G_def by auto
    then have "ys ! j = sign_of cents * \<bar>nets ! j\<bar>" using at [OF j] by auto
    also have "\<dots> = nets ! j"
    proof (cases "nets ! j = 0")
      case False
      obtain i' indexes' rate' where h: "(i', indexes', rate') \<in> set G" "own_groups G j = [(i', indexes', rate')]"
        using one_group [OF proper comps, of j] j len_res unfolding G_def by auto
      then have "0 \<le> allocated_in G (\<lambda>i. \<bar>line_gross (L ! i)\<bar>) j"
        using group [OF h(1)] by (auto simp: allocated_in_def intro!: allocated_nonneg)
      then have "cents ! j \<noteq> 0" "sgn (cents ! j) = sgn (nets ! j)" using False each [OF j] by (auto simp: sgn_if split: if_splits)
      moreover have "cents ! j \<in> set cents" using j by (simp add: cents_def)
      ultimately have "sign_of cents = sgn (nets ! j)" using sign_of_nonzero [OF signs] by simp
      then show ?thesis by (simp add: sgn_mult_abs)
    qed simp
    finally show "ys ! j = nets ! j" .
  qed
  then show ?thesis using final calc by simp
qed

end
