(* ===== verification/PurchaseLine.thy ===== *)
theory PurchaseLine
  imports TaxProofs
begin

text \<open>
  The calculator of one purchase line, \<open>calculatePurchaseLine\<close> of
  \<open>lib/qbo/purchaseTax.ts\<close>, on reference data of the declared types, and its agreement
  with the calculator of a transaction.
\<close>

section \<open>One line\<close>

record purchase_line =
  pl_gross :: int
  pl_net :: int
  pl_tax :: int

text \<open>The rates of a code's components, in order; \<open>seen\<close> are the identities so far.\<close>

fun purchase_rates :: "json list \<Rightarrow> json option list \<Rightarrow> json list \<Rightarrow> tax_reason + ratio list" where
  "purchase_rates rates seen [] = Inr []"
| "purchase_rates rates seen (c # cs) =
     (if get c ''taxRateQboId'' \<in> set seen then Inl TaxRateUnsupported
      else case find (\<lambda>r. get r ''qboId'' = get c ''taxRateQboId'') rates of
             None \<Rightarrow> Inl TaxRateUnavailable
           | Some rate \<Rightarrow>
               (if get rate ''active'' \<noteq> Some (JBool True) then Inl TaxRateUnavailable
                else case get rate ''rateValue'' of
                       Some (JNum v) \<Rightarrow>
                         (if \<not> supported_rate_value (Some (JNum v)) then Inl TaxRateUnsupported
                          else case rate_value_to_ratio v of
                                 Inl e \<Rightarrow> Inl e
                               | Inr r \<Rightarrow>
                                   (case purchase_rates rates (get c ''taxRateQboId'' # seen) cs of
                                      Inl e \<Rightarrow> Inl e
                                    | Inr rs \<Rightarrow> Inr (r # rs)))
                     | _ \<Rightarrow> Inl TaxRateUnsupported))"

definition safe_line :: "int \<Rightarrow> int \<Rightarrow> int \<Rightarrow> tax_reason + purchase_line" where
  "safe_line gross net tax =
     (case (to_safe_cents net, to_safe_cents tax) of
        (Some n, Some t) \<Rightarrow> Inr \<lparr>pl_gross = gross, pl_net = n, pl_tax = t\<rparr>
      | _ \<Rightarrow> Inl TaxAmountInvalid)"

definition calculate_purchase_line ::
  "jsnum \<Rightarrow> tax_calculation \<Rightarrow> jstring \<Rightarrow> json \<Rightarrow> tax_reason + purchase_line" where
  "calculate_purchase_line gross_value calculation code_id reference =
     (if \<not> is_safe_integer gross_value then Inl TaxAmountInvalid
      else case find_by_id code_id (array_items (get reference ''codes'')) of
             None \<Rightarrow> Inl TaxCodeUnavailable
           | Some code \<Rightarrow>
               (let gross = cents_of gross_value; cs = array_items (get code ''purchaseRates'')
                in if get code ''active'' \<noteq> Some (JBool True) then Inl TaxCodeUnavailable
                   else if calculation = NotApplicable
                   then if get code ''taxable'' \<noteq> Some (JBool False) then Inl TaxRateUnsupported
                        else Inr \<lparr>pl_gross = gross, pl_net = gross, pl_tax = 0\<rparr>
                   else if cs = [] \<or> list_ex (\<lambda>c. get c ''taxTypeApplicable'' \<noteq> Some (JStr (js ''TaxOnAmount''))) cs
                   then Inl TaxRateUnsupported
                   else case purchase_rates (array_items (get reference ''rates'')) [] cs of
                          Inl e \<Rightarrow> Inl e
                        | Inr rates \<Rightarrow>
                            (let rate = sum_rate_ratios rates; den = snd rate * 100
                             in if calculation = TaxInclusive
                                then let net = round_ratio (gross * den) (den + fst rate)
                                     in safe_line gross net (gross - net)
                                else safe_line gross gross
                                       (foldl (\<lambda>tax r. tax + round_ratio (gross * fst r) (snd r * 100)) 0 rates))))"

section \<open>Agreement\<close>

lemma purchase_rates_agree:
  "resolve_components rates seen cs = Inr rs \<Longrightarrow>
     purchase_rates rates (map (\<lambda>s. Some (JStr s)) seen) cs = Inr (map snd rs)
     \<and> list_all (\<lambda>c. get c ''taxTypeApplicable'' = Some (JStr (js ''TaxOnAmount''))) cs \<and> length rs = length cs"
proof (induction rates seen cs arbitrary: rs rule: resolve_components.induct)
  case (2 rates seen c cs)
  from 2(2) obtain i r rs' where c: "component_ok c" "get c ''taxTypeApplicable'' = Some (JStr (js ''TaxOnAmount''))"
    "get c ''taxRateQboId'' = Some (JStr i)" "i \<notin> set seen" "resolve_rate rates i = Inr r"
    "resolve_components rates (i # seen) cs = Inr rs'" "rs = (i, r) # rs'"
    by (auto split: if_splits option.splits json.splits sum.splits)
  have ih: "purchase_rates rates (map (\<lambda>s. Some (JStr s)) (i # seen)) cs = Inr (map snd rs')
     \<and> list_all (\<lambda>c. get c ''taxTypeApplicable'' = Some (JStr (js ''TaxOnAmount''))) cs \<and> length rs' = length cs"
    using c by (intro 2(1)) simp_all
  obtain rate v where r: "find (\<lambda>r. get r ''qboId'' = Some (JStr i)) rates = Some rate" "get rate ''active'' = Some (JBool True)"
    "get rate ''rateValue'' = Some (JNum v)" "supported_rate_value (Some (JNum v))" "rate_value_to_ratio v = Inr r"
    using c(5) by (auto simp: resolve_rate_def find_by_id_def split: option.splits if_splits bool.splits json.splits sum.splits elim!: json_boolean.elims)
  have "Some (JStr i) \<notin> set (map (\<lambda>s. Some (JStr s)) seen)" using c(4) by auto
  then show ?case using c r ih by simp
qed simp

lemma one_line_groups:
  "distinct (map fst cs) \<Longrightarrow> set (map fst cs) \<inter> set (map fst groups) = {} \<Longrightarrow>
     fold (add_component i) cs groups = groups @ map (\<lambda>c. (fst c, [i], snd c)) cs"
proof (induction cs arbitrary: groups)
  case (Cons c cs)
  have "map_of groups (fst c) = None" using Cons.prems by (auto simp: map_of_eq_None_iff)
  then have "add_component i c groups = groups @ [(fst c, [i], snd c)]" by (simp add: add_component_def)
  then show ?case using Cons by auto
qed simp

lemma foldl_add_map: "foldl (\<lambda>t r. t + f r) (a :: int) rs = a + (\<Sum>r \<leftarrow> rs. f r)"
  by (induction rs arbitrary: a) auto

text \<open>
  The calculator of one line agrees with the calculator of a transaction: for a transaction
  of one line, taxed at some rate or not taxable at all, both give the same gross amount, net
  amount and tax.
\<close>

theorem calculate_purchase_line_agrees:
  assumes calc: "calculate_tax PurchaseTax company calculation [input] reference = Inr res"
    and res: "resolve_lines 0 [input] calculation (array_items (get reference ''codes'')) (array_items (get reference ''rates'')) PurchaseTax = Inr [r]"
    and rated: "calculation = NotApplicable \<or> components r \<noteq> []"
  shows "map (\<lambda>l. Inr \<lparr>pl_gross = line_gross l, pl_net = line_net l, pl_tax = line_tax l\<rparr>) (tax_lines res)
    = [calculate_purchase_line (gross_cents input) calculation (tax_code input) reference]"
proof -
  let ?codes = "array_items (get reference ''codes'')" and ?rates = "array_items (get reference ''rates'')"
  define gross where "gross = cents_of (gross_cents input)"
  define line where "line = untaxed_line input r"
  have line: "line_gross line = gross" "line_net line = gross" "line_tax line = 0"
    by (simp_all add: line_def untaxed_line_def gross_def)
  have safe: "is_safe_integer (gross_cents input)" using calc by (auto simp: calculate_tax_def split: if_splits)
  have taxed: "taxed_lines calculation [r] [line] = Inr (tax_lines res)"
    using calculate_tax_stages [OF calc res] by (simp add: line_def)
  have sums: "sum_safe (map line_net (tax_lines res)) \<noteq> None" "sum_safe (map line_tax (tax_lines res)) \<noteq> None"
    using calc res taxed by (auto simp: calculate_tax_def line_def split: if_splits option.splits sum.splits)
  from res have one: "resolve_tax_line input calculation ?codes ?rates PurchaseTax = Inr r"
    by (auto split: sum.splits)
  then obtain code where code: "find_by_id (tax_code input) ?codes = Some code" "get code ''active'' = Some (JBool True)"
    by (auto simp: resolve_tax_line_def split: if_splits option.splits elim!: json_boolean.elims)
  show ?thesis
  proof (cases "calculation = NotApplicable")
    case True
    then have "get code ''taxable'' = Some (JBool False)"
      using one code by (auto simp: resolve_tax_line_def split: if_splits option.splits)
    moreover have "tax_lines res = [line]" using taxed True by (simp add: taxed_lines_def)
    ultimately show ?thesis using True code safe line by (simp add: calculate_purchase_line_def gross_def Let_def)
  next
    case False
    then have ne: "components r \<noteq> []" using rated by blast
    from one code False ne obtain cs where cs: "get code ''purchaseRates'' = Some (JArr cs)"
      "resolve_components ?rates [] cs = Inr (components r)"
      by (auto simp: resolve_tax_line_def components_for_def split: if_splits option.splits sum.splits elim!: json_array.elims)
    note pr = purchase_rates_agree [OF cs(2)]
    have "cs \<noteq> []" using pr ne by auto
    then have calcu: "calculate_purchase_line (gross_cents input) calculation (tax_code input) reference =
      (let rate = sum_rate_ratios (map snd (components r)); den = snd rate * 100
       in if calculation = TaxInclusive
          then let net = round_ratio (gross * den) (den + fst rate) in safe_line gross net (gross - net)
          else safe_line gross gross (foldl (\<lambda>tax r. tax + round_ratio (gross * fst r) (snd r * 100)) 0 (map snd (components r))))"
      using False code cs(1) pr safe
      by (simp add: calculate_purchase_line_def Let_def gross_def list_all_iff list_ex_iff)
    show ?thesis
    proof (cases calculation)
      case TaxInclusive
      let ?rate = "sum_rate_ratios (map snd (components r))"
      define net where "net = round_ratio (gross * (snd ?rate * 100)) (snd ?rate * 100 + fst ?rate)"
      have out: "tax_lines res = [line\<lparr>line_net := net, line_tax := gross - net\<rparr>]"
        using taxed ne unfolding TaxInclusive
        by (auto simp: taxed_lines_def inclusive_line_def Let_def net_def line to_safe_cents_def split: option.splits if_splits sum.splits)
      then have "safe_line gross net (gross - net) = Inr \<lparr>pl_gross = gross, pl_net = net, pl_tax = gross - net\<rparr>"
        using sums by (auto simp: safe_line_def to_safe_cents_def split: if_splits)
      then show ?thesis using out line unfolding calcu by (simp add: TaxInclusive Let_def net_def)
    next
      case TaxExcluded
      have proper: "proper_line ?rates r" using resolve_lines_proper [OF res] by simp
      have groups: "component_groups 0 [r] [] = map (\<lambda>c. (fst c, [0], snd c)) (components r)"
        using one_line_groups [of "components r" "[]" 0] proper by (simp add: proper_line_def)
      obtain tax where out: "tax_lines res = [line\<lparr>line_tax := tax\<rparr>]"
        and tax: "tax = (\<Sum>g \<leftarrow> component_groups 0 [r] []. group_total [line] g)"
        using excluded_stage [OF res [unfolded TaxExcluded]] taxed calculate_tax_stages [OF calc res]
        unfolding TaxExcluded by (auto simp: line_def length_Suc_conv)
      have "tax = foldl (\<lambda>tax r. tax + round_ratio (gross * fst r) (snd r * 100)) 0 (map snd (components r))"
        unfolding tax groups by (simp add: foldl_add_map group_total_def o_def line)
      moreover have "safe_line gross gross tax = Inr \<lparr>pl_gross = gross, pl_net = gross, pl_tax = tax\<rparr>"
        using sums out line by (auto simp: safe_line_def to_safe_cents_def split: if_splits)
      ultimately show ?thesis using out line unfolding calcu by (simp add: TaxExcluded)
    qed (use False in simp)
  qed
qed

end
