(* ===== verification/TaxWitness.thy ===== *)
theory TaxWitness
  imports TaxUnique PurchaseLine
begin

text \<open>The properties of the tax calculator at concrete transactions: one code with one rate of 5 %.\<close>

definition sample_reference :: json where
  "sample_reference = JObj
     [(js ''companyId'', JStr (js ''c'')),
      (js ''codes'', JArr [JObj
        [(js ''qboId'', JStr (js ''1'')), (js ''active'', JBool True), (js ''taxable'', JBool True),
         (js ''purchaseRates'', JArr [JObj [(js ''taxRateQboId'', JStr (js ''r'')), (js ''taxTypeApplicable'', JStr (js ''TaxOnAmount''))]])]]),
      (js ''rates'', JArr [JObj
        [(js ''qboId'', JStr (js ''r'')), (js ''active'', JBool True), (js ''rateValue'', JNum (Fin 5))]])]"

definition sample_line :: "int \<Rightarrow> tax_line_input" where
  "sample_line c = \<lparr>gross_cents = Fin (of_int c), tax_code = js ''1'', non_tax_treatment = None\<rparr>"

definition sample_resolved :: resolved_line where
  "sample_resolved = \<lparr>components = [(js ''r'', (5, 1))], resolved_treatment = Standard\<rparr>"

definition sample_taxed :: "int \<Rightarrow> int \<Rightarrow> int \<Rightarrow> tax_line" where
  "sample_taxed gross net tax =
     \<lparr>line_gross = gross, line_net = net, line_tax = tax, line_code = js ''1'', line_treatment = Standard\<rparr>"

lemma sample_resolves:
  "resolve_lines 0 [sample_line 105, sample_line 210] TaxInclusive (array_items (get sample_reference ''codes''))
     (array_items (get sample_reference ''rates'')) PurchaseTax = Inr [sample_resolved, sample_resolved]"
  "resolve_lines 0 [sample_line 110, sample_line 110] TaxExcluded (array_items (get sample_reference ''codes''))
     (array_items (get sample_reference ''rates'')) PurchaseTax = Inr [sample_resolved, sample_resolved]"
  "resolve_lines 0 [sample_line 107] TaxInclusive (array_items (get sample_reference ''codes''))
     (array_items (get sample_reference ''rates'')) PurchaseTax = Inr [sample_resolved]"
  by code_simp+

lemma sample_inclusive:
  "calculate_tax PurchaseTax (js ''c'') TaxInclusive [sample_line 105, sample_line 210] sample_reference
     = Inr \<lparr>total_gross = 315, total_net = 300, total_tax = 15, tax_lines = [sample_taxed 105 100 5, sample_taxed 210 200 10]\<rparr>"
  by code_simp

lemma sample_excluded:
  "calculate_tax PurchaseTax (js ''c'') TaxExcluded [sample_line 110, sample_line 110] sample_reference
     = Inr \<lparr>total_gross = 220, total_net = 220, total_tax = 11, tax_lines = [sample_taxed 110 110 6, sample_taxed 110 110 5]\<rparr>"
  by code_simp

lemma sample_one:
  "calculate_tax PurchaseTax (js ''c'') TaxInclusive [sample_line 107] sample_reference
     = Inr \<lparr>total_gross = 107, total_net = 102, total_tax = 5, tax_lines = [sample_taxed 107 102 5]\<rparr>"
  by code_simp

lemma sample_reconstructed:
  "reconstruct_tax_excluded PurchaseTax (js ''c'') [sample_line 116, sample_line 115] sample_reference
     = Some (Inr \<lparr>total_gross = 220, total_net = 220, total_tax = 11, tax_lines = [sample_taxed 110 110 6, sample_taxed 110 110 5]\<rparr>)"
  by code_simp

section \<open>The properties at these transactions\<close>

abbreviation sample_codes :: "json list" where
  "sample_codes \<equiv> array_items (get sample_reference ''codes'')"

abbreviation sample_rates :: "json list" where
  "sample_rates \<equiv> array_items (get sample_reference ''rates'')"

theorem tax_inclusive_split_witness:
  "(300 + 15 = (315 :: int)) \<and> length [sample_taxed 105 100 5, sample_taxed 210 200 10] = length [sample_line 105, sample_line 210]
    \<and> line_net (sample_taxed 210 200 10) + line_tax (sample_taxed 210 200 10) = 210
    \<and> \<bar>of_int (line_net (sample_taxed 210 200 10))
        - of_int (input_cents [sample_line 105, sample_line 210] 1) / (1 + (\<Sum>c \<leftarrow> components sample_resolved. percent (snd c)) / 100)\<bar> \<le> (1 / 2 :: rat)"
  using tax_inclusive_split [OF sample_inclusive sample_resolves(1)]
  by (auto simp: input_cents_def sample_line_def dest!: spec [of _ "Suc 0"])

lemma sample_groups: "component_groups 0 [sample_resolved, sample_resolved] [] = [(js ''r'', [0, 1], (5, 1))]"
  by code_simp


theorem inverse_group_reports_witness:
  "inverse_group [116, 115] [0, 1] (5, 1) = UniqueInverse [110, 110]
    \<and> {map y [0, 1] | y. inverse_of [116, 115] [0, 1] (5, 1) y} = {[110, 110]}"
proof -
  have g: "inverse_group [116, 115] [0, 1] (5, 1) = UniqueInverse [110, 110]" by code_simp
  have "reports (inverse_group [116, 115] [0, 1] (5, 1)) {map y [0, 1] | y. inverse_of [116, 115] [0, 1] (5, 1) y}"
    by (rule inverse_group_reports) (auto simp: ratio_ok_def intro: exI [of _ 0])
  then show ?thesis unfolding g reports_def by simp
qed

theorem reconstruct_tax_excluded_unique_witness:
  "projr (calculate_tax PurchaseTax (js ''c'') TaxExcluded [sample_line 110, sample_line 110] sample_reference)
    = projr (the (reconstruct_tax_excluded PurchaseTax (js ''c'') [sample_line 116, sample_line 115] sample_reference))"
proof -
  have m: "map2 with_cents [sample_line 116, sample_line 115] [110, 110] = [sample_line 110, sample_line 110]"
    by (simp add: with_cents_def sample_line_def)
  have "\<lparr>total_gross = 220, total_net = 220, total_tax = 11, tax_lines = [sample_taxed 110 110 6, sample_taxed 110 110 5]\<rparr>
      = (\<lparr>total_gross = 220, total_net = 220, total_tax = 11, tax_lines = [sample_taxed 110 110 6, sample_taxed 110 110 5]\<rparr> :: tax_result)"
    by (rule reconstruct_tax_excluded_unique [OF sample_reconstructed, of "[110, 110]"])
      (simp, simp only: m sample_excluded, simp add: sample_taxed_def sample_line_def)
  then show ?thesis by (simp only: sample_excluded sample_reconstructed sum.sel option.sel)
qed

theorem calculate_purchase_line_agrees_witness:
  "calculate_purchase_line (Fin 107) TaxInclusive (js ''1'') sample_reference
    = Inr \<lparr>pl_gross = 107, pl_net = 102, pl_tax = 5\<rparr>"
  using calculate_purchase_line_agrees [OF sample_one sample_resolves(3)]
  by (simp add: sample_line_def sample_taxed_def sample_resolved_def)

end
