(* ===== verification/NumberText.thy ===== *)
theory NumberText
  imports Decimal
begin

text \<open>
  The text of a number is faithful: read back as a decimal and rounded to binary64 it is the
  number. So seventeen digits suffice, and different numbers have different texts.
\<close>

section \<open>Rounding near a double\<close>

definition is_double :: "rat \<Rightarrow> bool" where
  "is_double x \<longleftrightarrow> rnd x = x"

lemma double_multiple:
  assumes "is_double x" "0 < x"
  obtains m where "x = of_int m * 2 powi (max (floor_log2 x - 52) (- 1074))"
proof -
  have "rnd x = of_int (round_even (x / 2 powi (max (floor_log2 x - 52) (- 1074)))) * 2 powi (max (floor_log2 x - 52) (- 1074))"
    using assms(2) by (simp add: rnd_def Let_def)
  then show thesis using assms(1) that unfolding is_double_def by metis
qed

lemma round_even_near: "\<bar>y - of_int m\<bar> < 1 / 2 \<Longrightarrow> round_even y = m"
  using round_even_error [of y] by linarith

text \<open>A power of two is a multiple of every smaller one, and the next multiple of a grid is a grid step away.\<close>

lemma power_int_multiple:
  assumes "a \<le> (b::int)"
  shows "\<exists>n. (2::rat) powi b = of_int n * 2 powi a"
proof -
  have "(2::rat) powi b = 2 powi (b - a) * 2 powi a" by (simp flip: power_int_add)
  moreover have "(2::rat) powi (b - a) = of_int (2 ^ nat (b - a))" using assms by (simp add: power_int_def)
  ultimately show ?thesis by metis
qed

lemma next_multiple:
  assumes "of_int m * u < of_int k * u" "0 < (u::rat)"
  shows "of_int m * u + u \<le> of_int k * u"
proof -
  have "m + 1 \<le> k" using assms by simp
  then have "(of_int (m + 1) :: rat) * u \<le> of_int k * u" using assms(2) by (intro mult_right_mono) (simp_all only: of_int_le_iff less_imp_le)
  then show ?thesis by (simp add: distrib_right)
qed

lemma rnd_close:
  assumes x: "is_double x" "0 < x" and y: "\<bar>y - x\<bar> < x / 2 ^ 54"
  shows "rnd y = x"
proof -
  define e where "e = floor_log2 x"
  define E where "E = max (e - 52) (- 1074)"
  obtain m where m: "x = of_int m * 2 powi E" using double_multiple [OF x] unfolding E_def e_def by blast
  have xe: "2 powi e \<le> x" "x < 2 powi (e + 1)" using floor_log2_bounds [OF x(2)] by (simp_all add: e_def)
  have half: "x / 2 ^ 54 < 2 powi (e - 53)"
  proof -
    have "x / 2 ^ 54 < 2 powi (e + 1) / 2 ^ 54" using xe(2) by (rule divide_strict_right_mono) simp
    also have "\<dots> = 2 powi (e - 53)" by (simp add: power_int_diff power_int_add)
    finally show ?thesis .
  qed
  have dist: "y - x < x / 2 ^ 54" "x - y < x / 2 ^ 54" using y by linarith+
  have "x / 2 ^ 54 \<le> x / 2" using x(2) by (intro divide_left_mono) auto
  then have near: "y < x + 2 powi (e - 53)" "x / 2 < y" using dist half by linarith+
  have y0: "0 < y" using near(2) x(2) by simp
  have grid: "(2::rat) powi (e - 53) \<le> 2 powi E" unfolding E_def by (intro power_int_increasing) auto
  have "2 powi E \<le> x" using next_multiple [of 0 "2 powi E" m] x(2) m by simp
  then have E_e: "E \<le> e" unfolding e_def by (rule floor_log2_ge [OF x(2)])
  define e' where "e' = floor_log2 y"
  define E' where "E' = max (e' - 52) (- 1074)"
  have "y < 2 powi (e + 1)"
  proof -
    obtain k where k: "(2::rat) powi (e + 1) = of_int k * 2 powi E" using power_int_multiple [of E "e + 1"] E_e by auto
    have "x + 2 powi E \<le> 2 powi (e + 1)" using next_multiple [of m "2 powi E" k] xe(2) unfolding k m by simp
    then show ?thesis using near(1) grid by linarith
  qed
  then have "e' \<le> e" using floor_log2_less [OF y0, of "e + 1"] by (simp add: e'_def)
  then have E': "E' \<le> E" by (simp add: E_def E'_def)
  have bound: "x \<le> 2 powi (E' + 53)"
  proof (cases "e \<le> e'")
    case True
    then have "(2::rat) powi (e + 1) \<le> 2 powi (E' + 53)" unfolding E'_def by (intro power_int_increasing) auto
    then show ?thesis using xe(2) by linarith
  next
    case False
    have "y < 2 powi e" using floor_log2_ge [OF y0, of e] False unfolding e'_def by linarith
    moreover have "(2::rat) powi (e - 1) < y"
    proof -
      have "(2::rat) powi (e - 1) = 2 powi e / 2" by (simp add: power_int_diff)
      also have "\<dots> \<le> x / 2" using xe(1) by simp
      finally show ?thesis using near(2) by linarith
    qed
    then have "e - 1 \<le> e'" unfolding e'_def by (intro floor_log2_ge [OF y0]) simp
    then have "(2::rat) powi e \<le> 2 powi (E' + 53)" unfolding E'_def by (intro power_int_increasing) auto
    moreover have "x \<le> 2 powi e"
    proof (rule ccontr)
      assume "\<not> x \<le> 2 powi e"
      then have gt: "2 powi e < x" by simp
      obtain k where k: "(2::rat) powi e = of_int k * 2 powi E" using power_int_multiple [OF E_e] by blast
      have "2 powi e + 2 powi E \<le> x" using next_multiple [of k "2 powi E" m] gt unfolding k m by simp
      moreover have "x < y + 2 powi (e - 53)" using dist half by linarith
      ultimately show False using \<open>y < 2 powi e\<close> grid by linarith
    qed
    ultimately show ?thesis by linarith
  qed
  obtain M where M: "x = of_int M * 2 powi E'"
  proof -
    obtain n where "(2::rat) powi E = of_int n * 2 powi E'" using power_int_multiple [OF E'] by blast
    then have "x = of_int (m * n) * 2 powi E'" unfolding m by simp
    then show thesis by (rule that)
  qed
  have "y / 2 powi E' - of_int M = (y - x) / 2 powi E'" unfolding M by (simp add: diff_divide_distrib)
  then have "\<bar>y / 2 powi E' - of_int M\<bar> = \<bar>y - x\<bar> / 2 powi E'" by simp
  also have "\<dots> < x / 2 ^ 54 / 2 powi E'" using y by (rule divide_strict_right_mono) simp
  also have "\<dots> \<le> 2 powi (E' + 53) / 2 ^ 54 / 2 powi E'" using bound by (intro divide_right_mono) auto
  also have "\<dots> = 1 / 2" by (simp add: power_int_add)
  finally have "round_even (y / 2 powi E') = M" by (rule round_even_near)
  then show ?thesis using y0 M by (simp add: rnd_def Let_def flip: e'_def E'_def)
qed

section \<open>Digits\<close>

lemma dec_digits_bounds:
  assumes "0 < n"
  shows "10 ^ (length (dec_digits n) - 1) \<le> n \<and> n < 10 ^ length (dec_digits n)"
  using assms
proof (induction n rule: dec_digits.induct)
  case (1 n)
  show ?case
  proof (cases "n < 10")
    case True
    then have "dec_digits n = [of_int (48 + n)]" by (subst dec_digits.simps) simp
    then show ?thesis using True 1(2) by simp
  next
    case False
    then have d: "dec_digits n = dec_digits (n div 10) @ [of_int (48 + n mod 10)]" by (subst dec_digits.simps) simp
    have q: "0 < n div 10" using False by (simp add: pos_imp_zdiv_pos_iff)
    note IH = 1(1) [OF False q]
    have ne: "0 < length (dec_digits (n div 10))" using digits_value_dec_digits [of "n div 10"] q by simp
    have "10 ^ length (dec_digits (n div 10)) = 10 * (10::int) ^ (length (dec_digits (n div 10)) - 1)"
      using ne by (simp add: power_eq_if)
    moreover have "10 * (n div 10) \<le> n" "n < 10 * (n div 10) + 10" by linarith+
    ultimately show ?thesis using IH unfolding d by (simp; linarith)
  qed
qed

lemma length_dec_digits:
  assumes "10 ^ k \<le> n" "n < 10 ^ Suc k"
  shows "length (dec_digits n) = Suc k"
proof -
  have n: "0 < n" using assms(1) by (rule less_le_trans [rotated]) simp
  note b = dec_digits_bounds [OF n]
  have "(10::int) ^ k < 10 ^ length (dec_digits n)" "(10::int) ^ (length (dec_digits n) - 1) < 10 ^ Suc k"
    using b assms by linarith+
  then have "k < length (dec_digits n)" "length (dec_digits n) - 1 < Suc k"
    by (simp_all del: power_Suc)
  then show ?thesis by linarith
qed

lemma dec_exponent_bounds:
  assumes "0 < x"
  shows "10 powi (dec_exponent x - 1) \<le> x" "x < 10 powi (dec_exponent x)"
proof -
  obtain p q where pq: "quotient_of x = (p, q)" by (cases "quotient_of x")
  have q: "0 < q" using pq by (rule quotient_of_denom_pos)
  have x: "x = of_int p / of_int q" using pq by (rule quotient_of_div)
  have p: "0 < p" using assms q by (simp add: x zero_less_divide_iff)
  have digits: "(10::rat) powi (int (length (dec_digits n)) - 1) \<le> of_int n \<and> of_int n < (10::rat) powi (int (length (dec_digits n)))"
    if "0 < n" for n
  proof -
    have len: "0 < length (dec_digits n)" using digits_value_dec_digits [of n] that by simp
    have "of_int (10 ^ (length (dec_digits n) - 1)) \<le> (of_int n :: rat) \<and> of_int n < (of_int (10 ^ length (dec_digits n)) :: rat)"
      using dec_digits_bounds [OF that] by (simp only: of_int_le_iff of_int_less_iff)
    moreover have "(10::rat) powi (int (length (dec_digits n)) - 1) = 10 ^ (length (dec_digits n) - 1)"
      using len by (simp add: power_int_def nat_diff_distrib)
    ultimately show ?thesis by simp
  qed
  let ?e = "int (length (dec_digits p)) - int (length (dec_digits q))"
  have "x < 10 powi (int (length (dec_digits p))) / of_int q"
    unfolding x using digits [OF p] q by (simp add: divide_strict_right_mono)
  also have "\<dots> \<le> 10 powi (int (length (dec_digits p))) / 10 powi (int (length (dec_digits q)) - 1)"
    using digits [OF q] q by (intro divide_left_mono) auto
  also have "\<dots> = 10 powi (?e + 1)" by (subst power_int_diff [symmetric]) (simp_all add: algebra_simps)
  finally have up: "x < 10 powi (?e + 1)" .
  have "(10::rat) powi (?e - 1) = 10 powi (int (length (dec_digits p)) - 1) / 10 powi (int (length (dec_digits q)))"
    by (subst power_int_diff [symmetric]) (simp_all add: algebra_simps)
  also have "\<dots> \<le> of_int p / 10 powi (int (length (dec_digits q)))"
    using digits [OF p] by (intro divide_right_mono) auto
  also have "\<dots> \<le> of_int p / of_int q" using digits [OF q] q p by (intro divide_left_mono) auto
  finally have low: "10 powi (?e - 1) \<le> x" by (simp add: x)
  show "10 powi (dec_exponent x - 1) \<le> x" "x < 10 powi (dec_exponent x)"
    using up low by (auto simp: dec_exponent_def pq Let_def)
qed

section \<open>The shortest digits\<close>

lemma digits_of_length_spec:
  assumes "s \<in> set (digits_of_length x n (Suc k))" "10 powi (n - 1) \<le> x" "x < 10 powi n"
  shows "rnd (of_int s * 10 powi (n - int (Suc k))) = x" "10 ^ k \<le> s" "s \<le> 10 ^ Suc k"
proof -
  define u lo where "u = (10::rat) powi (n - int (Suc k))" and "lo = \<lfloor>x / u\<rfloor>"
  have u: "0 < u" by (simp add: u_def)
  have s: "s = lo \<or> s = lo + 1" "rnd (of_int s * u) = x"
    using assms(1) unfolding digits_of_length_def Let_def u_def [symmetric] lo_def [symmetric] by (auto split: if_splits)
  show "rnd (of_int s * 10 powi (n - int (Suc k))) = x" using s(2) by (simp add: u_def)
  have "(10::rat) powi (n - 1) = of_int (10 ^ k) * u" "(10::rat) powi n = of_int (10 ^ Suc k) * u"
    by (simp_all add: u_def flip: power_int_of_nat power_int_add del: power_Suc)
  then have "of_int (10 ^ k) \<le> x / u" "x / u < of_int (10 ^ Suc k)"
    using assms(2,3) u by (simp_all add: pos_le_divide_eq pos_divide_less_eq del: power_Suc)
  then have "10 ^ k \<le> lo" "lo < 10 ^ Suc k"
    unfolding lo_def by (simp_all only: le_floor_iff floor_less_iff)
  then show "10 ^ k \<le> s" "s \<le> 10 ^ Suc k" using s(1) by auto
qed

lemma seventeen_digits:
  assumes x: "is_double x" "0 < x" and n: "10 powi (n - 1) \<le> x"
  shows "digits_of_length x n 17 \<noteq> []"
proof -
  define u lo where "u = (10::rat) powi (n - 17)" and "lo = \<lfloor>x / u\<rfloor>"
  have u: "0 < u" by (simp add: u_def)
  have "u = 10 powi (n - 1) / 10 ^ 16" by (simp add: u_def power_int_diff)
  also have "\<dots> \<le> x / 10 ^ 16" using n by (rule divide_right_mono) simp
  finally have "u / 2 \<le> x / 20000000000000000" by simp
  also have "\<dots> < x / 2 ^ 54" using x(2) by (intro divide_strict_left_mono) auto
  finally have half: "u / 2 < x / 2 ^ 54" .
  have hit: "rnd (of_int s * u) = x" if "\<bar>of_int s - x / u\<bar> \<le> 1 / 2" for s
  proof (rule rnd_close [OF x])
    have "of_int s * u - x = (of_int s - x / u) * u" using u by (simp add: field_simps)
    then have "\<bar>of_int s * u - x\<bar> = \<bar>of_int s - x / u\<bar> * u" using u by (simp add: abs_mult)
    also have "\<dots> \<le> 1 / 2 * u" using that u by (intro mult_right_mono) auto
    finally show "\<bar>of_int s * u - x\<bar> < x / 2 ^ 54" using half by linarith
  qed
  have "of_int lo \<le> x / u" "x / u < of_int lo + 1" unfolding lo_def by linarith+
  then have "\<bar>of_int lo - x / u\<bar> \<le> 1 / 2 \<or> \<bar>of_int (lo + 1) - x / u\<bar> \<le> 1 / 2"
    unfolding of_int_add of_int_1 by arith
  then have "rnd (of_int lo * u) = x \<or> rnd (of_int (lo + 1) * u) = x" using hit by blast
  then show ?thesis
    unfolding digits_of_length_def Let_def by (auto simp: filter_empty_conv simp flip: u_def lo_def)
qed

lemma shortest_from_hit:
  assumes "k \<le> j" "j < k + fuel" "digits_of_length x n j \<noteq> []"
  shows "fst (shortest_from fuel x n k) \<in> set (digits_of_length x n (snd (shortest_from fuel x n k)))
    \<and> k \<le> snd (shortest_from fuel x n k)"
  using assms
proof (induction fuel x n k rule: shortest_from.induct)
  case (2 fuel x n k)
  show ?case
  proof (cases "digits_of_length x n k")
    case Nil
    then have "k \<noteq> j" using 2(4) by metis
    then show ?thesis using 2 Nil by simp
  qed simp
qed simp

section \<open>The value of a text\<close>

definition text_value :: "jstring \<Rightarrow> rat" where
  "text_value t = of_int (decimal_unscaled (decimal_coefficient t))
     * 10 powi (decimal_scale (decimal_coefficient t) (decimal_exponent t))"

lemma text_value_parts:
  assumes "digit_units a" "digit_units (part_digits b)"
  shows "text_value (number_parts a b e) = parts_value a b e"
  by (simp add: text_value_def parts_value_def decimal_unscaled_digits decimal_scale_def number_parts_read [OF assms])

lemma shortest_form_spec:
  assumes x: "is_double x" "0 < x" and form: "shortest_form x = (s, k, n)"
  shows "rnd (of_int s * 10 powi (n - int k)) = x" "length (dec_digits s) = k"
proof -
  let ?n = "dec_exponent x"
  note n = dec_exponent_bounds [OF x(2)]
  obtain s0 k0 where s0: "shortest_from 17 x ?n 1 = (s0, k0)" by fastforce
  have "s0 \<in> set (digits_of_length x ?n k0)" "1 \<le> k0"
    using shortest_from_hit [OF _ _ seventeen_digits [OF x n(1)], of 1 17] s0 by simp_all
  then obtain j where j: "k0 = Suc j" "s0 \<in> set (digits_of_length x ?n (Suc j))" by (cases k0) auto
  note d = digits_of_length_spec [OF j(2) n]
  have skn: "(if s0 = 10 ^ k0 then (1, 1, ?n + 1) else (s0, k0, ?n)) = (s, k, n)"
    using form unfolding shortest_form_def Let_def s0 by simp
  show "rnd (of_int s * 10 powi (n - int k)) = x"
  proof (cases "s0 = 10 ^ k0")
    case True
    then have "of_int s0 * 10 powi (?n - int k0) = (10::rat) powi ?n" by (simp add: power_int_diff)
    moreover have "n - int k = ?n" "s = 1" using skn True by auto
    ultimately show ?thesis using d(1) j(1) by simp
  next
    case False
    then have "s = s0" "n = ?n" "k = Suc j" using skn j(1) by auto
    then show ?thesis using d(1) by (simp only:)
  qed
  show "length (dec_digits s) = k"
  proof (cases "s0 = 10 ^ k0")
    case True
    then show ?thesis using skn length_dec_digits [of 0 1] by simp
  next
    case False
    then have "s0 < 10 ^ Suc j" using d(3) j(1) by (simp del: power_Suc)
    moreover have "s = s0" "k = Suc j" using skn j(1) False by auto
    ultimately show ?thesis using length_dec_digits [OF d(2)] by simp
  qed
qed

text \<open>Read back and rounded, the text of a double is the double.\<close>

theorem positive_text_value:
  assumes x: "is_double x" "0 < x"
  shows "rnd (text_value (positive_text x)) = x"
proof -
  obtain s k n where form: "shortest_form x = (s, k, n)" by (cases "shortest_form x") auto
  obtain a b e where p: "positive_text x = number_parts a b e" "digit_units a" "digit_units (part_digits b)"
    "length (dec_digits s) = k \<Longrightarrow> parts_value a b e = of_int s * 10 powi (n - int k)"
    using positive_text_layout [OF x(2) form] by blast
  then show ?thesis using shortest_form_spec [OF x form] text_value_parts [OF p(2,3)] by simp
qed

end
