(* ===== verification/JsonText.thy ===== *)
theory JsonText
  imports NumberText
begin

text \<open>
  The canonical text of a JSON value determines the value up to the order of the keys, and no
  text continues another one: equal texts are equal values.
\<close>

section \<open>Strings\<close>

definition hex_value :: "unit16 \<Rightarrow> nat" where
  "hex_value c = (if c < 58 then unat c - 48 else unat c - 87)"

text \<open>The inverse of \<open>quote_units\<close>: reads up to the closing quote.\<close>

fun unquote :: "jstring \<Rightarrow> (jstring \<times> jstring) option" where
  "unquote [] = None"
| "unquote (c # cs) =
     (if c = 34 then Some ([], cs)
      else if c \<noteq> 92 then map_option (\<lambda>(s, r). (c # s, r)) (unquote cs)
      else case cs of
             [] \<Rightarrow> None
           | d # ds \<Rightarrow>
               if d = 117
               then (case ds of
                       h # i # j # k # rest \<Rightarrow>
                         map_option (\<lambda>(s, r). (of_nat (hex_value h * 4096 + hex_value i * 256 + hex_value j * 16 + hex_value k) # s, r)) (unquote rest)
                     | _ \<Rightarrow> None)
               else map_option (\<lambda>(s, r).
                      ((if d = 98 then 8 else if d = 116 then 9 else if d = 110 then 10 else if d = 102 then 12
                        else if d = 114 then 13 else d) # s, r)) (unquote ds))"

lemma hex_value_digit:
  assumes "n < 16"
  shows "hex_value (hex_digit n) = n"
proof -
  have all: "list_all (\<lambda>n. hex_value (hex_digit n) = n) [0..<16]" by code_simp
  have "n \<in> set [0..<16]" using assms by (simp only: set_upt atLeastLessThan_iff le0 simp_thms)
  then show ?thesis using all unfolding list_all_iff by blast
qed

lemma unquote_escape: "unquote (u_escape c @ t) = map_option (\<lambda>(s, r). (c # s, r)) (unquote t)"
proof -
  define n where "n = unat c"
  have "n < 65536" using unsigned_less [of c] by (simp add: n_def)
  then have d: "n div 4096 < 16" "n div 256 mod 16 < 16" "n div 16 mod 16 < 16" "n mod 16 < 16" by simp_all
  define a b where "a = n div 16" and "b = a div 16"
  have dv: "n div 256 = b" "n div 4096 = b div 16" using div_mult2_eq [of n 16 16] div_mult2_eq [of n 256 16] by (simp_all add: a_def b_def)
  have "n = a * 16 + n mod 16" "a = b * 16 + a mod 16" "b = b div 16 * 16 + b mod 16" by (simp_all add: a_def b_def)
  then have "b div 16 * 4096 + b mod 16 * 256 + a mod 16 * 16 + n mod 16 = n" by linarith
  then have "n div 4096 * 4096 + n div 256 mod 16 * 256 + n div 16 mod 16 * 16 + n mod 16 = n" by (simp only: dv a_def)
  moreover have "(of_nat n :: unit16) = c" by (simp add: n_def)
  ultimately show ?thesis
    by (simp add: u_escape_def Let_def del: of_nat_add of_nat_mult flip: n_def) (simp add: hex_value_digit d del: of_nat_add of_nat_mult)
qed

lemma unquote_plain: "c \<noteq> 34 \<Longrightarrow> c \<noteq> 92 \<Longrightarrow> unquote (c # t) = map_option (\<lambda>(s, r). (c # s, r)) (unquote t)"
  by simp

lemma unquote_unit: "unquote (quote_unit c @ t) = map_option (\<lambda>(s, r). (c # s, r)) (unquote t)"
  by (simp add: quote_unit_def unquote_escape del: unquote.simps) (simp add: unquote_escape)

lemma surrogate_plain: "0xd800 \<le> c \<Longrightarrow> c \<noteq> 34 \<and> c \<noteq> (92 :: unit16)"
  by (auto simp: word_le_nat_alt)

lemma quote_units_step:
  "(\<exists>n rest. cs = n # rest \<and> 0xd800 \<le> c \<and> 0xdc00 \<le> n \<and> quote_units (c # cs) = c # n # quote_units rest)
   \<or> quote_units (c # cs) = u_escape c @ quote_units cs \<or> quote_units (c # cs) = quote_unit c @ quote_units cs"
  by (cases cs) auto

lemma unquote_units: "unquote (quote_units s @ t) = map_option (\<lambda>(s', r). (s @ s', r)) (unquote t)"
proof (induction "length s" arbitrary: s rule: less_induct)
  case less
  show ?case
  proof (cases s)
    case Nil
    then show ?thesis by (cases "unquote t") auto
  next
    case (Cons c cs)
    consider n rest where "cs = n # rest" "0xd800 \<le> c" "0xdc00 \<le> n" "quote_units (c # cs) = c # n # quote_units rest"
      | "quote_units (c # cs) = u_escape c @ quote_units cs" | "quote_units (c # cs) = quote_unit c @ quote_units cs"
      using quote_units_step by blast
    then show ?thesis
    proof cases
      case 1
      have n: "0xd800 \<le> n" using 1(3) by (rule order.trans [rotated]) simp
      have "unquote (quote_units rest @ t) = map_option (\<lambda>(s', r). (rest @ s', r)) (unquote t)" by (rule less) (simp add: Cons 1(1))
      then show ?thesis
        using unquote_plain surrogate_plain [OF 1(2)] surrogate_plain [OF n] 1(4)
        by (cases "unquote t") (auto simp add: Cons 1(1) simp del: quote_units.simps unquote.simps)
    next
      case 2
      have "unquote (quote_units cs @ t) = map_option (\<lambda>(s', r). (cs @ s', r)) (unquote t)" by (rule less) (simp add: Cons)
      then show ?thesis using 2 by (cases "unquote t") (auto simp add: Cons unquote_escape simp del: quote_units.simps)
    next
      case 3
      have "unquote (quote_units cs @ t) = map_option (\<lambda>(s', r). (cs @ s', r)) (unquote t)" by (rule less) (simp add: Cons)
      then show ?thesis using 3 by (cases "unquote t") (auto simp add: Cons unquote_unit simp del: quote_units.simps)
    qed
  qed
qed

lemma quote_prefix_free: "quote s @ t = quote s' @ t' \<longleftrightarrow> s = s' \<and> t = t'"
proof
  have read: "unquote (tl (quote s @ t)) = Some (s, t)" for s t
    using unquote_units [of s "34 # t"] by (simp add: quote_def)
  assume "quote s @ t = quote s' @ t'"
  then have "Some (s, t) = Some (s', t')" using read by metis
  then show "s = s' \<and> t = t'" by simp
qed simp

section \<open>Numbers\<close>

lemma positive_text_head: "0 < x \<Longrightarrow> positive_text x \<noteq> 45 # t"
proof
  assume "0 < x" "positive_text x = 45 # t"
  then obtain a b e where "number_parts a b e = 45 # t" "digit_units a" using positive_text_parts by metis
  then show False by (cases a; cases b) (auto simp: number_parts_def split: if_splits)
qed

lemma positive_text_not_zero: "is_double x \<Longrightarrow> 0 < x \<Longrightarrow> positive_text x \<noteq> js ''0''"
proof
  assume x: "is_double x" "0 < x" "positive_text x = js ''0''"
  have "js ''0'' = number_parts [48] None []" by (simp add: number_parts_def js_units)
  then have "text_value (js ''0'') = 0" using text_value_parts [of "[48]" None "[]"] by (simp add: parts_value_def part_digits_def)
  then show False using positive_text_value [OF x(1,2)] x(2,3) by simp
qed

lemma number_text_inject:
  assumes "is_double x" "is_double y"
  shows "number_text (Fin x) = number_text (Fin y) \<longleftrightarrow> x = y"
proof
  assume eq: "number_text (Fin x) = number_text (Fin y)"
  have minus: "is_double (- z)" if "is_double z" for z using that by (simp add: is_double_def rnd_uminus)
  have pos: "u = v" if "positive_text u = positive_text v" "is_double u" "is_double v" "0 < u" "0 < v" for u v
    using that positive_text_value by metis
  have t: "number_text (Fin z) = (if z = 0 then js ''0'' else if z < 0 then 45 # positive_text (- z) else positive_text z)" for z
    by (simp only: number_text.simps js_units append_Cons append_Nil)
  have zero: "js ''0'' \<noteq> 45 # u" for u by (simp add: js_units)
  have not0: "positive_text z \<noteq> js ''0''" if "is_double z" "0 < z" for z using positive_text_not_zero that .
  have head: "positive_text z \<noteq> 45 # u" if "0 < z" for z u using positive_text_head that by blast
  have up: False if "number_text (Fin u) = number_text (Fin v)" "u \<le> 0" "0 < v" "is_double v" for u v
  proof -
    have "number_text (Fin v) = positive_text v" using that(3) unfolding t by simp
    moreover have "u = 0 \<or> number_text (Fin u) = 45 # positive_text (- u)" using that(2) unfolding t by simp
    moreover have "number_text (Fin 0) = js ''0''" unfolding t by simp
    ultimately show False using that(1) not0 [OF that(4,3)] head [OF that(3)] by metis
  qed
  have down: False if "number_text (Fin 0) = number_text (Fin v)" "v < 0" for v
    using that zero unfolding t by simp
  consider "x \<le> 0" "0 < y" | "y \<le> 0" "0 < x" | "x = 0" "y = 0" | "x = 0" "y < 0" | "y = 0" "x < 0" | "x < 0" "y < 0" | "0 < x" "0 < y"
    by linarith
  then show "x = y"
  proof cases
    case 1
    then show ?thesis using up eq assms by blast
  next
    case 2
    then show ?thesis using up eq [symmetric] assms by blast
  next
    case 4
    then show ?thesis using down eq by blast
  next
    case 5
    then show ?thesis using down eq [symmetric] by blast
  next
    case 6
    then have "positive_text (- x) = positive_text (- y)" using eq unfolding t by simp
    then show ?thesis using pos minus assms 6 by fastforce
  next
    case 7
    then have "positive_text x = positive_text y" using eq unfolding t by simp
    then show ?thesis using pos assms 7 by blast
  qed simp
qed simp

definition delimiter :: "unit16 \<Rightarrow> bool" where
  "delimiter c \<longleftrightarrow> c = 44 \<or> c = 93 \<or> c = 125"

definition number_unit :: "unit16 \<Rightarrow> bool" where
  "number_unit c \<longleftrightarrow> 48 \<le> uint c \<and> uint c \<le> 57 \<or> c = 43 \<or> c = 45 \<or> c = 46 \<or> c = 101"

lemma digit_number_units: "digit_units ds \<Longrightarrow> list_all number_unit ds"
  by (auto simp: digit_units_def list_all_iff number_unit_def)

lemma positive_text_units: "0 < x \<Longrightarrow> list_all number_unit (positive_text x) \<and> positive_text x \<noteq> []"
proof -
  assume x: "0 < x"
  obtain s k n where form: "shortest_form x = (s, k, n)" by (cases "shortest_form x") auto
  obtain a b e where p: "positive_text x = number_parts a b e" "digit_units a" "digit_units (part_digits b)" "a \<noteq> []"
    "e = [] \<or> (\<exists>m. e = (if m < 0 then js ''-'' else js ''+'') @ dec_digits \<bar>m\<bar>)"
    by (rule positive_text_layout [OF x form])
  have "list_all number_unit (dec_digits \<bar>m\<bar>)" for m
    using digits_value_dec_digits [OF abs_ge_zero] digit_number_units by blast
  then have "list_all number_unit e" using p(5) by (auto simp: js_units number_unit_def)
  then show ?thesis
    using p digit_number_units [OF p(2)] digit_number_units [OF p(3)]
    by (cases b) (auto simp: number_parts_def part_digits_def number_unit_def)
qed

lemma number_text_units: "list_all number_unit (number_text (Fin x)) \<and> number_text (Fin x) \<noteq> []"
  using positive_text_units [of x] positive_text_units [of "- x"]
  by (auto simp: js_units number_unit_def not_less le_less)

lemma number_unit_not: "number_unit c \<Longrightarrow> \<not> delimiter c \<and> c \<noteq> 34 \<and> c \<noteq> 91 \<and> c \<noteq> 123 \<and> c \<noteq> 110 \<and> c \<noteq> 116 \<and> c \<noteq> 102"
  by (auto simp: number_unit_def delimiter_def)

definition closes :: "jstring \<Rightarrow> bool" where
  "closes t \<longleftrightarrow> (case t of [] \<Rightarrow> True | c # _ \<Rightarrow> delimiter c)"

lemma units_prefix_free:
  assumes "xs @ t = ys @ t'" "list_all number_unit xs" "list_all number_unit ys" "closes t" "closes t'"
  shows "xs = ys \<and> t = t'"
proof -
  have stop: "takeWhile number_unit (zs @ u) = zs" if "list_all number_unit zs" "closes u" for zs u
  proof -
    have "takeWhile number_unit u = []" using that(2) number_unit_not by (cases u) (auto simp: closes_def)
    then show ?thesis using that(1) by (simp add: list_all_iff takeWhile_append)
  qed
  then have "xs = ys" using assms by metis
  then show ?thesis using assms(1) by simp
qed

section \<open>Values\<close>

text \<open>Plain data: finite numbers that are doubles, and no exotic values.\<close>

inductive plain :: "json \<Rightarrow> bool" where
  "plain JNull"
| "plain (JBool b)"
| "is_double x \<Longrightarrow> plain (JNum (Fin x))"
| "plain (JStr s)"
| "(\<And>x. x \<in> set xs \<Longrightarrow> plain x) \<Longrightarrow> plain (JArr xs)"
| "(\<And>f. f \<in> set fs \<Longrightarrow> plain (snd f)) \<Longrightarrow> plain (JObj fs)"

inductive_cases plain_ArrE: "plain (JArr xs)"
inductive_cases plain_ObjE: "plain (JObj fs)"
inductive_cases plain_NumE: "plain (JNum v)"
inductive_cases plain_ExoticE: "plain (JExotic e)"

text \<open>The first unit of a text tells the kind of the value.\<close>

fun lead_ok :: "json \<Rightarrow> unit16 \<Rightarrow> bool" where
  "lead_ok JNull c \<longleftrightarrow> c = 110"
| "lead_ok (JBool b) c \<longleftrightarrow> c = (if b then 116 else 102)"
| "lead_ok (JNum v) c \<longleftrightarrow> number_unit c"
| "lead_ok (JStr s) c \<longleftrightarrow> c = 34"
| "lead_ok (JArr xs) c \<longleftrightarrow> c = 91"
| "lead_ok (JObj fs) c \<longleftrightarrow> c = 123"
| "lead_ok (JExotic e) c \<longleftrightarrow> c = 117"

lemma canonical_lead: "plain v \<Longrightarrow> \<exists>c t. canonical v = c # t \<and> lead_ok v c"
proof (cases v)
  case (JNum w)
  moreover assume "plain v"
  ultimately obtain x where "w = Fin x" using plain_NumE by blast
  then show ?thesis using number_text_units [of x] JNum by (cases "number_text (Fin x)") auto
qed (auto simp: js_def quote_def)

lemma lead_not_delimiter: "plain v \<Longrightarrow> lead_ok v c \<Longrightarrow> \<not> delimiter c"
  using number_unit_not by (cases v) (auto simp: delimiter_def elim: plain_ExoticE)

text \<open>Lists of texts between commas, up to the closing bracket.\<close>

lemma commas_prefix_free:
  assumes "\<And>x y t t'. x \<in> set xs \<Longrightarrow> y \<in> set ys \<Longrightarrow> closes t \<Longrightarrow> closes t' \<Longrightarrow> f x @ t = f y @ t' \<Longrightarrow> g x = g y \<and> t = t'"
    and "\<And>x. x \<in> set xs \<union> set ys \<Longrightarrow> \<exists>c u. f x = c # u \<and> \<not> delimiter c"
    and "commas (map f xs) @ b # t = commas (map f ys) @ b # t'" "delimiter b" "b \<noteq> 44"
  shows "map g xs = map g ys \<and> t = t'"
  using assms
proof (induction xs arbitrary: ys)
  case Nil
  show ?case
  proof (cases ys)
    case (Cons y zs)
    then obtain c u where "f y = c # u" "\<not> delimiter c" using Nil(2) [of y] by auto
    then show ?thesis using Nil(3,4) Cons by (cases zs) auto
  qed (use Nil in simp)
next
  case (Cons x xs)
  show ?case
  proof (cases ys)
    case Nil
    obtain c u where "f x = c # u" "\<not> delimiter c" using Cons.prems(2) [of x] by auto
    then show ?thesis using Cons.prems(3,4) Nil by (cases xs) auto
  next
    case (Cons y zs)
    define rest where "rest ws u = (case ws of [] \<Rightarrow> b # u | _ \<Rightarrow> 44 # commas (map f ws) @ b # u)" for ws :: "'a list" and u
    have split: "commas (map f (w # ws)) @ b # u = f w @ rest ws u" for w ws u by (cases ws) (auto simp: rest_def js_def)
    have closes: "closes (rest ws u)" for ws u using Cons.prems(4) by (cases ws) (auto simp: rest_def closes_def delimiter_def)
    have "f x @ rest xs t = f y @ rest zs t'" using Cons.prems(3) unfolding Cons split .
    then have e: "g x = g y" "rest xs t = rest zs t'" using Cons.prems(1) [of x y] closes Cons by auto
    have "map g xs = map g zs \<and> t = t'"
    proof (cases "xs = [] \<or> zs = []")
      case True
      then show ?thesis using e(2) Cons.prems(5) by (auto simp: rest_def split: list.splits)
    next
      case False
      then have "commas (map f xs) @ b # t = commas (map f zs) @ b # t'" using e(2) by (auto simp: rest_def split: list.splits)
      then show ?thesis using Cons.IH [of zs] Cons.prems Cons by auto
    qed
    then show ?thesis using e(1) Cons by simp
  qed
qed

definition member_text :: "jstring \<times> json \<Rightarrow> jstring" where
  "member_text f = quote (fst f) @ js '':'' @ canonical (snd f)"

lemma member_texts: "(\<lambda>f. quote (fst f) @ js '':'' @ canonical (snd f)) = member_text"
  by (rule ext) (simp add: member_text_def)

lemma js_units': "js ''['' = [91]" "js '']'' = [93]" "js ''{'' = [123]" "js ''}'' = [125]" "js '':'' = [58]" "js '','' = [44]"
  by (simp_all add: js_def)

lemma member_text_lead: "\<exists>c u. member_text f = c # u \<and> \<not> delimiter c"
  by (simp add: member_text_def quote_def delimiter_def)

text \<open>Texts that agree come from values of the same kind.\<close>

lemma same_kind:
  assumes "canonical v @ t = canonical w @ t'" "plain v" "plain w"
  obtains (null) "v = JNull" "w = JNull" | (boolean) b where "v = JBool b" "w = JBool b"
  | (number) x y where "v = JNum (Fin x)" "w = JNum (Fin y)" "is_double x" "is_double y"
  | (str) s s' where "v = JStr s" "w = JStr s'" | (items) xs ys where "v = JArr xs" "w = JArr ys"
  | (members) fs gs where "v = JObj fs" "w = JObj gs"
proof -
  obtain c where c: "lead_ok v c" "lead_ok w c"
    using canonical_lead [OF assms(2)] canonical_lead [OF assms(3)] assms(1) by auto
  have num: "\<not> number_unit c" if "lead_ok u c" "\<And>z. u \<noteq> JNum z" "plain u" for u
    using that number_unit_not [of c] by (cases u) (auto elim: plain_ExoticE)
  show thesis
  proof (cases v)
    case (JNum z)
    then obtain x where x: "z = Fin x" "is_double x" using assms(2) plain_NumE by blast
    obtain z' where z': "w = JNum z'" using num [OF c(2) _ assms(3)] c(1) JNum by auto
    then obtain y where "z' = Fin y" "is_double y" using assms(3) plain_NumE by blast
    then show ?thesis using number JNum x z' by blast
  next
    case (JExotic e)
    then show ?thesis using assms(2) plain_ExoticE by blast
  next
    case (JBool b)
    have "\<And>z. w \<noteq> JNum z" using c JBool number_unit_not [of c] by (auto split: if_splits)
    then show ?thesis using c JBool boolean assms(3) by (cases w) (auto split: if_splits elim: plain_ExoticE)
  qed (use c assms(3) number_unit_not [of c] in \<open>cases w; auto split: if_splits intro: null str items members elim: plain_ExoticE\<close>)+
qed

lemma canonical_prefix_free:
  assumes "plain v" "plain w" "closes t" "closes t'" "canonical v @ t = canonical w @ t'"
  shows "normal v = normal w \<and> t = t'"
  using assms
proof (induction v arbitrary: w t t' rule: json_induct)
  case (Arr xs)
  obtain ys where w: "w = JArr ys" by (rule same_kind [OF Arr.prems(5,1,2)]) auto
  have pl: "plain x" if "x \<in> set xs \<union> set ys" for x using that Arr.prems(1,2) w by (auto elim: plain_ArrE)
  have step: "normal x = normal y \<and> u = u'"
    if "x \<in> set xs" "y \<in> set ys" "closes u" "closes u'" "canonical x @ u = canonical y @ u'" for x y u u'
    using Arr.IH [OF that(1) pl pl that(3-5)] that by blast
  have lead: "\<exists>c u. canonical x = c # u \<and> \<not> delimiter c" if "x \<in> set xs \<union> set ys" for x
    using canonical_lead [OF pl [OF that]] lead_not_delimiter [OF pl [OF that]] by blast
  have "commas (map canonical xs) @ 93 # t = commas (map canonical ys) @ 93 # t'"
    using Arr.prems(5) unfolding w canonical_arr by (simp add: js_units')
  then have "map normal xs = map normal ys \<and> t = t'"
    by (rule commas_prefix_free [rotated 2]) (fact step | fact lead | simp add: delimiter_def)+
  then show ?case by (simp add: w)
next
  case (Obj fs)
  obtain gs where w: "w = JObj gs" by (rule same_kind [OF Obj.prems(5,1,2)]) auto
  let ?f = "sort_key fst fs" and ?g = "sort_key fst gs" and ?n = "\<lambda>f. (fst f, normal (snd f))"
  have pl: "\<And>f. f \<in> set fs \<union> set gs \<Longrightarrow> plain (snd f)" using Obj.prems(1,2) w by (auto elim: plain_ObjE)
  have step: "?n f = ?n g \<and> u = u'"
    if "f \<in> set ?f" "g \<in> set ?g" "closes u" "closes u'" "member_text f @ u = member_text g @ u'" for f g u u'
  proof -
    have "fst f = fst g" "canonical (snd f) @ u = canonical (snd g) @ u'"
      using that(5) quote_prefix_free by (auto simp: member_text_def js_def)
    moreover have "(fst f, snd f) \<in> set fs" "plain (snd f)" "plain (snd g)" using that(1,2) pl by auto
    ultimately have "fst f = fst g" "normal (snd f) = normal (snd g) \<and> u = u'" using Obj.IH that(3,4) by blast+
    then show ?thesis by (simp only: prod.inject simp_thms)
  qed
  have "commas (map member_text ?f) @ 125 # t = commas (map member_text ?g) @ 125 # t'"
    using Obj.prems(5) unfolding w canonical_obj member_texts by (simp add: js_units')
  then have "map ?n ?f = map ?n ?g \<and> t = t'"
    by (rule commas_prefix_free [rotated 2]) (fact step | rule member_text_lead | simp add: delimiter_def)+
  then show ?case by (simp add: w normal_obj)
next
  case (Num v)
  obtain x y where w: "v = Fin x" "w = JNum (Fin y)" "is_double x" "is_double y" by (rule same_kind [OF Num(5,1,2)]) auto
  then have "number_text (Fin x) @ t = number_text (Fin y) @ t'" using Num(5) by (simp only: canonical.simps)
  then have "number_text (Fin x) = number_text (Fin y) \<and> t = t'" using units_prefix_free number_text_units Num(3,4) by blast
  then show ?case using number_text_inject [OF w(3,4)] w(1,2) by simp
next
  case (Str s)
  obtain s' where w: "w = JStr s'" by (rule same_kind [OF Str(5,1,2)]) auto
  then have "quote s @ t = quote s' @ t'" using Str(5) by (simp only: canonical.simps)
  then show ?case by (simp add: w quote_prefix_free)
next
  case (Exotic e)
  then show ?case using plain_ExoticE by blast
next
  case Null
  have "w = JNull" by (rule same_kind [OF Null(5,1,2)]) auto
  then show ?case using Null(5) by simp
next
  case (Bool b)
  have "w = JBool b" by (rule same_kind [OF Bool(5,1,2)]) auto
  then show ?case using Bool(5) by simp
qed

text \<open>The canonical text of plain data determines it up to the order of the keys.\<close>

theorem canonical_inject:
  assumes "plain v" "plain w"
  shows "canonical v = canonical w \<longleftrightarrow> normal v = normal w"
proof
  assume "canonical v = canonical w"
  then show "normal v = normal w" using canonical_prefix_free [OF assms, of "[]" "[]"] by (simp add: closes_def)
next
  assume "normal v = normal w"
  then show "canonical v = canonical w" using canonical_normal by metis
qed

end
