(* ===== verification/RateText.thy ===== *)
theory RateText
  imports TaxProofs JsonText
begin

text \<open>
  The exact fraction of a tax rate, which \<open>lib/qbo/purchaseTax.ts\<close> takes from the decimal text
  of the stored number.
\<close>

lemma number_text_value:
  assumes "is_double x" "0 \<le> x"
  shows "rnd (text_value (number_text (Fin x))) = x"
proof (cases "x = 0")
  case True
  have "js ''0'' = number_parts [48] None []" by (simp add: number_parts_def js_units)
  then have "text_value (js ''0'') = 0" using text_value_parts [of "[48]" None "[]"] by (simp add: parts_value_def part_digits_def)
  then show ?thesis using True by simp
next
  case False
  then have x: "0 < x" using assms(2) by simp
  then have "number_text (Fin x) = positive_text x" by simp
  then show ?thesis using positive_text_value [OF assms(1) x] by (simp only:)
qed

text \<open>
  C37. The fraction that stands for a tax rate in every exact calculation is the rate: rounded to
  a double it gives the number that was stored, whatever number that is. So no digits are lost
  on the way through the decimal text.
\<close>

theorem rate_ratio_is_rate:
  assumes "rate_value_to_ratio (Fin x) = Inr (num, den)" "is_double x"
  shows "0 \<le> num \<and> 0 < den \<and> rnd (of_int num / of_int den) = x"
proof -
  define t where "t = number_text (Fin x)"
  define u e where "u = decimal_unscaled (decimal_coefficient t)" and "e = decimal_scale (decimal_coefficient t) (decimal_exponent t)"
  have x: "0 \<le> x" and r: "(if 0 \<le> e then (u * 10 ^ nat e, 1) else (u, 10 ^ nat (- e))) = (num, den)"
    using assms(1) unfolding rate_value_to_ratio.simps Let_def t_def [symmetric] u_def [symmetric] e_def [symmetric]
    by (simp_all split: if_splits)
  have "text_value t = of_int u * 10 powi e" by (simp only: text_value_def u_def e_def)
  moreover have "of_int num / of_int den = (of_int u * 10 powi e :: rat) \<and> 0 < den"
  proof (cases "0 \<le> e")
    case True
    then have "num = u * 10 ^ nat e" "den = 1" using r by simp_all
    then show ?thesis using True by (simp add: power_int_def)
  next
    case False
    then have "num = u" "den = 10 ^ nat (- e)" using r by simp_all
    moreover have "(10::rat) powi e = 1 / 10 ^ nat (- e)"
      using False by (simp only: power_int_def if_False inverse_eq_divide power_one_over)
    ultimately show ?thesis by simp
  qed
  ultimately have quotient: "of_int num / of_int den = text_value t" and den: "0 < den" by simp_all
  have rate: "rnd (of_int num / of_int den) = x" unfolding quotient t_def by (rule number_text_value [OF assms(2) x])
  then show ?thesis using rate_ratio_ok [OF assms(1)] den by (simp add: ratio_ok_def)
qed

theorem rate_ratio_is_rate_witness:
  "rate_value_to_ratio (Fin 5) = Inr (5, 1) \<and> rnd (of_int 5 / of_int 1) = (5 :: rat)"
proof -
  have r: "rate_value_to_ratio (Fin 5) = Inr (5, 1)" by code_simp
  have "is_double 5" using rnd_of_int [of 5] by (simp add: is_double_def)
  then show ?thesis using rate_ratio_is_rate [OF r] r by simp
qed

end
