(* ===== verification/ContentHash.thy ===== *)
theory ContentHash
  imports LineWrite JsonText
begin

text \<open>
  The content hash of \<open>lib/qbo/lineWrite.ts\<close> determines the content: entities of the same hash
  differ only in what the hash leaves out, or their texts collide.
\<close>

lemma plain_sanitize:
  "plain v \<Longrightarrow> plain (sanitize loc v)"
  "list_all plain xs \<Longrightarrow> list_all plain (sanitize_items loc xs)"
  "list_all (plain \<circ> snd) fs \<Longrightarrow> list_all (plain \<circ> snd) (sanitize_fields loc r fs)"
proof (induction loc v and loc xs and loc r fs rule: sanitize_sanitize_items_sanitize_fields.induct)
  case (1 loc xs)
  then show ?case by (auto simp: list_all_iff elim!: plain_ArrE intro!: plain.intros)
next
  case (2 loc fs)
  then show ?case by (auto simp: list_all_iff elim!: plain_ObjE intro!: plain.intros)
next
  case (11 loc r f fs)
  then show ?case
    by (cases "snd f") (auto simp: list_all_iff elim!: plain_ArrE intro!: plain.intros)
qed (auto intro: plain.intros elim: plain_ExoticE)

text \<open>
  C38. Two entities have the same content hash only if their contents are the same value up to the
  order of the keys, at any depth: the hash misses no change of an amount, an account, a line or
  any other field that it covers, short of a collision of the digest on these two texts.
\<close>

theorem content_hash_determines:
  assumes "hash_content sha v = Inr h" "hash_content sha w = Inr h'" "plain v" "plain w"
    and "inj_on sha {canonical (sanitize Top v), canonical (sanitize Top w)}"
  shows "h = h' \<longleftrightarrow> normal (sanitize Top v) = normal (sanitize Top w)"
proof -
  have "h = sha (canonical (sanitize Top v))" "h' = sha (canonical (sanitize Top w))"
    using assms(1,2) unfolding hash_content_Inr by blast+
  then have "h = h' \<longleftrightarrow> canonical (sanitize Top v) = canonical (sanitize Top w)"
    by (simp only: inj_on_eq_iff [OF assms(5)] insert_iff simp_thms)
  also have "\<dots> \<longleftrightarrow> normal (sanitize Top v) = normal (sanitize Top w)"
    by (rule canonical_inject [OF plain_sanitize(1) [OF assms(3)] plain_sanitize(1) [OF assms(4)]])
  finally show ?thesis .
qed

theorem content_hash_determines_witness:
  "hash_content id (JObj [(js ''Amount'', JNum (Fin 5))]) \<noteq> hash_content id (JObj [(js ''Amount'', JNum (Fin 6))])"
proof -
  have hash: "hash_content id (JObj [(js ''Amount'', JNum (Fin n))]) = Inr (canonical (sanitize Top (JObj [(js ''Amount'', JNum (Fin n))])))"
    if "n = 5 \<or> n = 6" for n
    using that by (auto simp: hash_content_Inr json_number_def simp del: canonical_obj)
  have "is_double 5" "is_double 6" using rnd_of_int [of 5] rnd_of_int [of 6] by (simp_all add: is_double_def)
  then have plain: "plain (JObj [(js ''Amount'', JNum (Fin 5))])" "plain (JObj [(js ''Amount'', JNum (Fin 6))])"
    by (auto intro!: plain.intros)
  have "normal (sanitize Top (JObj [(js ''Amount'', JNum (Fin 5))])) \<noteq> normal (sanitize Top (JObj [(js ''Amount'', JNum (Fin 6))]))"
    by code_simp
  then show ?thesis using content_hash_determines [OF hash hash plain] hash by auto
qed

end
