(* ===== verification/Verify.thy ===== *)
theory Verify
  imports PurchasePrep
begin

text \<open>
  The verification of a read-back (\<open>services/tax/verify.ts\<close>): after a prepared write has been
  sent, the snapshot of what QuickBooks then holds is compared with the state the write expects.
  The result is \<open>None\<close> for \<open>ok\<close> and the reason of the drift otherwise.
\<close>

section \<open>Purchases\<close>

datatype drift =
    IdChanged | TotalChanged | AccountChanged | DateChanged | DirectionChanged | ModeChanged | PreservedChanged
  | TotalTaxChanged | TargetMissing | UntouchedChanged | MismatchedKind

text \<open>Cents subtracted and added as numbers.\<close>

definition cents_minus :: "int \<Rightarrow> int \<Rightarrow> int" where
  "cents_minus a b = \<lfloor>rnd (of_int (a - b))\<rfloor>"

definition cents_plus :: "int \<Rightarrow> int \<Rightarrow> int" where
  "cents_plus a b = \<lfloor>rnd (of_int (a + b))\<rfloor>"

definition canonical_purchase_line_hash :: "snapshot_line \<Rightarrow> jstring" where
  "canonical_purchase_line_hash line =
     canonical (JArr
       [case raw_hash line of None \<Rightarrow> JNull | Some h \<Rightarrow> JStr h,
        snap_id line, cents_json (Some (amount_cents line)), snap_description line, snap_account line, snap_customer line,
        snap_class line, snap_code line, cents_json (tax_cents line), cents_json (inclusive_cents line)])"

definition effective_line_tax_cents :: "snapshot_line \<Rightarrow> int option" where
  "effective_line_tax_cents line =
     (case tax_cents line of
        Some t \<Rightarrow> Some t
      | None \<Rightarrow> map_option (\<lambda>i. cents_minus i (amount_cents line)) (inclusive_cents line))"

definition target_line_hash :: "snapshot_line \<Rightarrow> jstring" where
  "target_line_hash line =
     canonical (JArr
       [cents_json (Some (amount_cents line)), snap_description line, snap_account line, snap_customer line, snap_class line,
        snap_code line, cents_json (effective_line_tax_cents line), cents_json (inclusive_cents line)])"

text \<open>The tax that the lines of a tax-inclusive purchase imply; \<open>None\<close> when a coded line has none.\<close>

fun derived_total_tax :: "int \<Rightarrow> snapshot_line list \<Rightarrow> int option" where
  "derived_total_tax acc [] = Some acc"
| "derived_total_tax acc (l # ls) =
     (case effective_line_tax_cents l of
        None \<Rightarrow> (if snap_code l \<noteq> JNull then None else derived_total_tax acc ls)
      | Some t \<Rightarrow> derived_total_tax (cents_plus acc t) ls)"

definition omitted_inclusive_total_tax_matches :: "int option \<Rightarrow> purchase_snapshot \<Rightarrow> bool" where
  "omitted_inclusive_total_tax_matches expected_tax actual \<longleftrightarrow>
     snap_total_tax actual = expected_tax
     \<or> (snap_total_tax actual = None \<and> expected_tax \<noteq> None \<and> is_mode (Some (snap_mode actual)) ''TaxInclusive''
        \<and> derived_total_tax 0 (snap_lines actual) = expected_tax)"

definition inclusive_rounding_residual :: "purchase_expected \<Rightarrow> purchase_snapshot \<Rightarrow> bool" where
  "inclusive_rounding_residual expected actual \<longleftrightarrow>
     is_mode (Some (exp_mode expected)) ''TaxInclusive'' \<and> is_mode (Some (snap_mode actual)) ''TaxInclusive''
     \<and> (case (exp_total_tax expected, snap_total_tax actual) of
          (Some e, Some a) \<Rightarrow> \<bar>cents_minus (exp_total expected) (snap_total actual)\<bar> \<le> 1 \<and> \<bar>cents_minus e a\<bar> = 1
        | _ \<Rightarrow> False)
     \<and> length (exp_targets expected) = 1 \<and> exp_untouched expected = []
     \<and> (case inclusive_cents (hd (exp_targets expected)) of
          None \<Rightarrow> False
        | Some i \<Rightarrow> \<bar>cents_minus (exp_total expected) i\<bar> \<le> 1)"

text \<open>Every target removes the first line that matches it; the lines left over remain.\<close>

fun take_targets :: "('t \<Rightarrow> 'a \<Rightarrow> bool) \<Rightarrow> 't list \<Rightarrow> 'a list \<Rightarrow> 'a list option" where
  "take_targets matches [] xs = Some xs"
| "take_targets matches (t # ts) xs =
     (case take_first (matches t) xs of None \<Rightarrow> None | Some (x, rest) \<Rightarrow> take_targets matches ts rest)"

definition purchase_line_verified :: "purchase_expected \<Rightarrow> purchase_snapshot \<Rightarrow> snapshot_line \<Rightarrow> snapshot_line \<Rightarrow> bool" where
  "purchase_line_verified expected actual target line \<longleftrightarrow>
     purchase_target_line_matches (exp_mode expected) (exp_total_tax expected) (snap_total_tax actual) target line
       (exp_disposition expected)
     \<or> (exp_disposition expected \<noteq> Some PreserveCurrent \<and> target_line_hash line = target_line_hash target)"

definition verify_purchase_result :: "purchase_expected \<Rightarrow> purchase_snapshot \<Rightarrow> drift option" where
  "verify_purchase_result expected actual =
     (let residual = inclusive_rounding_residual expected actual
      in if snap_qbo_id actual \<noteq> exp_qbo_id expected then Some IdChanged
         else if snap_total actual \<noteq> exp_total expected \<and> \<not> residual then Some TotalChanged
         else if snap_payment actual \<noteq> exp_payment expected then Some AccountChanged
         else if snap_date actual \<noteq> exp_date expected then Some DateChanged
         else if snap_refund actual \<noteq> exp_refund expected then Some DirectionChanged
         else if snap_mode actual \<noteq> exp_mode expected then Some ModeChanged
         else if exp_disposition expected = Some PreserveCurrent
                 \<and> (exp_preserved expected = None \<or> exp_preserved expected \<noteq> snap_preserved actual) then Some PreservedChanged
         else if \<not> purchase_total_tax_matches (exp_mode expected) (exp_total_tax expected) (snap_total_tax actual)
                 \<and> \<not> omitted_inclusive_total_tax_matches (exp_total_tax expected) actual \<and> \<not> residual then Some TotalTaxChanged
         else case take_targets (purchase_line_verified expected actual) (exp_targets expected) (snap_lines actual) of
                None \<Rightarrow> Some TargetMissing
              | Some remaining \<Rightarrow>
                  (if sort (map canonical_purchase_line_hash remaining) \<noteq> sort (exp_untouched expected)
                   then Some UntouchedChanged else None))"

section \<open>Deposits\<close>

record deposit_line =
  dep_id :: json
  dep_amount :: int
  dep_description :: json
  dep_account :: json
  dep_entity :: json
  dep_method :: json
  dep_class :: json
  dep_code :: json
  dep_applicable :: json
  dep_raw_hash :: jstring
  dep_target_hash :: jstring

record deposit_snapshot =
  deposit_id :: jstring
  deposit_token :: jstring
  deposit_total :: int
  deposit_to :: json
  deposit_date :: jstring
  deposit_mode :: json
  deposit_total_tax :: "int option"
  deposit_preserved :: jstring
  deposit_lines :: "deposit_line list"

record deposit_expected =
  dexp_id :: jstring
  dexp_total :: int
  dexp_to :: json
  dexp_date :: jstring
  dexp_mode :: json
  dexp_total_tax :: "int option"
  dexp_preserved :: jstring
  dexp_targets :: "deposit_line list"
  dexp_untouched :: "jstring list"

definition canonical_deposit_line_hash :: "deposit_line \<Rightarrow> jstring" where
  "canonical_deposit_line_hash line =
     canonical (JArr
       [JStr (dep_raw_hash line), dep_id line, cents_json (Some (dep_amount line)), dep_description line, dep_account line,
        dep_entity line, dep_method line, dep_class line, dep_code line, dep_applicable line])"

definition target_deposit_line_hash :: "deposit_line \<Rightarrow> jstring" where
  "target_deposit_line_hash line =
     canonical (JArr
       [JStr (dep_target_hash line), cents_json (Some (dep_amount line)), dep_description line, dep_account line,
        dep_entity line, dep_method line, dep_class line, dep_code line, dep_applicable line])"

definition deposit_line_verified :: "deposit_line \<Rightarrow> deposit_line \<Rightarrow> bool" where
  "deposit_line_verified target line \<longleftrightarrow>
     (dep_id target = JNull \<or> dep_id line = dep_id target)
     \<and> target_deposit_line_hash line = target_deposit_line_hash target"

definition verify_deposit_result :: "deposit_expected \<Rightarrow> deposit_snapshot \<Rightarrow> drift option" where
  "verify_deposit_result expected actual =
     (if deposit_id actual \<noteq> dexp_id expected then Some IdChanged
      else if deposit_total actual \<noteq> dexp_total expected then Some TotalChanged
      else if deposit_to actual \<noteq> dexp_to expected then Some AccountChanged
      else if deposit_date actual \<noteq> dexp_date expected then Some DateChanged
      else if deposit_mode actual \<noteq> dexp_mode expected then Some ModeChanged
      else if deposit_total_tax actual \<noteq> dexp_total_tax expected then Some TotalTaxChanged
      else if deposit_preserved actual \<noteq> dexp_preserved expected then Some PreservedChanged
      else case take_targets (\<lambda>h line. canonical_deposit_line_hash line = h) (dexp_untouched expected) (deposit_lines actual) of
             None \<Rightarrow> Some UntouchedChanged
           | Some remaining \<Rightarrow>
               (case take_targets deposit_line_verified (dexp_targets expected) remaining of
                  None \<Rightarrow> Some TargetMissing
                | Some left_over \<Rightarrow> if left_over \<noteq> [] then Some UntouchedChanged else None))"

section \<open>Prepared writes\<close>

datatype any_snapshot = PurchaseSnap purchase_snapshot | DepositSnap deposit_snapshot
datatype any_expected = PurchaseExp purchase_expected | DepositExp deposit_expected

definition verify_prepared_result :: "any_expected \<Rightarrow> any_snapshot \<Rightarrow> drift option" where
  "verify_prepared_result expected actual =
     (case (expected, actual) of
        (PurchaseExp e, PurchaseSnap a) \<Rightarrow> verify_purchase_result e a
      | (DepositExp e, DepositSnap a) \<Rightarrow> verify_deposit_result e a
      | _ \<Rightarrow> Some MismatchedKind)"

end
