(* ===== verification/VerifyProofs.thy ===== *)
theory VerifyProofs
  imports Verify PurchaseRestore JsonText
begin

text \<open>
  What a verified read-back shows (\<open>services/tax/verify.ts\<close>): the lines that QuickBooks holds
  are the untouched lines and one line per target.
\<close>

section \<open>Matching\<close>

lemma take_first_Some: "take_first P xs = Some (x, rest) \<Longrightarrow> P x \<and> mset xs = add_mset x (mset rest)"
  by (induction xs arbitrary: rest) (auto split: if_splits)

lemma take_targets_Some:
  "take_targets m ts xs = Some rest \<Longrightarrow> \<exists>ls. list_all2 m ts ls \<and> mset xs = mset ls + mset rest"
proof (induction ts arbitrary: xs)
  case (Cons t ts)
  then obtain x mid where x: "take_first (m t) xs = Some (x, mid)" "take_targets m ts mid = Some rest"
    by (auto split: option.splits)
  then obtain ls where "list_all2 m ts ls" "mset mid = mset ls + mset rest" using Cons.IH by blast
  then show ?case using take_first_Some [OF x(1)] by (intro exI [of _ "x # ls"]) simp
qed simp

lemma cents_minus_one:
  assumes "\<bar>a - b\<bar> < 2 ^ 53"
  shows "cents_minus a b = a - b"
  using rnd_of_int [OF assms] by (simp add: cents_minus_def)

section \<open>The texts of lines\<close>

text \<open>A line whose names are strings or \<open>null\<close> and whose cents are exact numbers.\<close>

definition text_or_null :: "json \<Rightarrow> bool" where
  "text_or_null v \<longleftrightarrow> v = JNull \<or> (\<exists>s. v = JStr s)"

definition exact_amount :: "int option \<Rightarrow> bool" where
  "exact_amount c \<longleftrightarrow> (case c of None \<Rightarrow> True | Some n \<Rightarrow> \<bar>n\<bar> < 2 ^ 53)"

definition readable_line :: "snapshot_line \<Rightarrow> bool" where
  "readable_line l \<longleftrightarrow>
     list_all text_or_null [snap_id l, snap_description l, snap_account l, snap_customer l, snap_class l, snap_code l]
     \<and> list_all exact_amount [Some (amount_cents l), effective_line_tax_cents l, tax_cents l, inclusive_cents l]"

lemma text_or_null_plain: "text_or_null v \<Longrightarrow> plain v \<and> normal v = v"
  by (auto simp: text_or_null_def intro: plain.intros)

lemma exact_amount_plain: "exact_amount c \<Longrightarrow> plain (cents_json c) \<and> normal (cents_json c) = cents_json c"
  by (auto simp: exact_amount_def cents_json_def of_cents_def is_double_def rnd_of_int intro!: plain.intros split: option.splits)

lemma cents_json_inject: "cents_json a = cents_json b \<longleftrightarrow> a = b"
  by (auto simp: cents_json_def of_cents_def split: option.splits)

lemma canonical_fields:
  assumes "list_all (\<lambda>v. plain v \<and> normal v = v) (xs @ ys)"
  shows "canonical (JArr xs) = canonical (JArr ys) \<longleftrightarrow> xs = ys"
proof -
  have "plain (JArr xs)" "plain (JArr ys)" using assms by (auto simp: list_all_iff intro: plain.intros)
  moreover have "map normal xs = xs" "map normal ys = ys" using assms by (auto simp: list_all_iff intro: map_idI)
  ultimately show ?thesis by (simp only: canonical_inject normal_arr json.inject)
qed

lemma raw_hash_plain: "plain (case h of None \<Rightarrow> JNull | Some s \<Rightarrow> JStr s) \<and> normal (case h of None \<Rightarrow> JNull | Some s \<Rightarrow> JStr s) = (case h of None \<Rightarrow> JNull | Some s \<Rightarrow> JStr s)"
  by (auto intro: plain.intros split: option.splits)

text \<open>What a line posts: an amount to an account.\<close>

definition posting :: "snapshot_line \<Rightarrow> json \<times> int" where
  "posting l = (snap_account l, amount_cents l)"

lemma canonical_line_posting:
  assumes "canonical_purchase_line_hash l = canonical_snapshot_line k" "readable_line l" "readable_line k"
  shows "posting l = posting k" "snap_id l = snap_id k"
proof -
  have "list_all (\<lambda>v. plain v \<and> normal v = v)
     ([case raw_hash l of None \<Rightarrow> JNull | Some h \<Rightarrow> JStr h, snap_id l, cents_json (Some (amount_cents l)), snap_description l,
        snap_account l, snap_customer l, snap_class l, snap_code l, cents_json (tax_cents l), cents_json (inclusive_cents l)]
    @ [case raw_hash k of None \<Rightarrow> JNull | Some h \<Rightarrow> JStr h, snap_id k, cents_json (Some (amount_cents k)), snap_description k,
        snap_account k, snap_customer k, snap_class k, snap_code k, cents_json (tax_cents k), cents_json (inclusive_cents k)])"
    using assms(2,3) raw_hash_plain [of "raw_hash l"] raw_hash_plain [of "raw_hash k"]
    by (simp add: readable_line_def text_or_null_plain exact_amount_plain)
  from canonical_fields [OF this] assms(1) show "posting l = posting k" "snap_id l = snap_id k"
    unfolding canonical_purchase_line_hash_def canonical_snapshot_line_def by (simp_all add: posting_def cents_json_inject)
qed

lemma target_line_posting:
  assumes "target_line_hash l = target_line_hash k" "readable_line l" "readable_line k"
  shows "posting l = posting k"
proof -
  have "list_all (\<lambda>v. plain v \<and> normal v = v)
     ([cents_json (Some (amount_cents l)), snap_description l, snap_account l, snap_customer l, snap_class l, snap_code l,
        cents_json (effective_line_tax_cents l), cents_json (inclusive_cents l)]
    @ [cents_json (Some (amount_cents k)), snap_description k, snap_account k, snap_customer k, snap_class k, snap_code k,
        cents_json (effective_line_tax_cents k), cents_json (inclusive_cents k)])"
    using assms(2,3) by (simp add: readable_line_def text_or_null_plain exact_amount_plain)
  from canonical_fields [OF this] assms(1) show ?thesis
    unfolding target_line_hash_def by (simp add: posting_def cents_json_inject)
qed

lemma verified_line_posting:
  assumes "purchase_line_verified e a t l" "readable_line t" "readable_line l"
  shows "posting l = posting t"
  using assms(1) target_line_posting [OF _ assms(3,2)]
  by (auto simp: purchase_line_verified_def purchase_target_line_matches_def posting_def)


section \<open>What a verified snapshot holds\<close>

lemma verified_None:
  assumes "verify_purchase_result e a = None"
  shows "snap_qbo_id a = exp_qbo_id e" "snap_payment a = exp_payment e" "snap_date a = exp_date e"
    "snap_refund a = exp_refund e" "snap_mode a = exp_mode e"
    "snap_total a = exp_total e \<or> inclusive_rounding_residual e a"
    "\<exists>rest. take_targets (purchase_line_verified e a) (exp_targets e) (snap_lines a) = Some rest
      \<and> mset (map canonical_purchase_line_hash rest) = mset (exp_untouched e)"
proof -
  show "snap_qbo_id a = exp_qbo_id e" "snap_payment a = exp_payment e" "snap_date a = exp_date e"
    "snap_refund a = exp_refund e" "snap_mode a = exp_mode e"
    "snap_total a = exp_total e \<or> inclusive_rounding_residual e a"
    using assms by (auto simp: verify_purchase_result_def Let_def split: if_splits)
  obtain rest where "take_targets (purchase_line_verified e a) (exp_targets e) (snap_lines a) = Some rest"
    "sort (map canonical_purchase_line_hash rest) = sort (exp_untouched e)"
    using assms by (auto simp: verify_purchase_result_def Let_def split: if_splits option.splits)
  then show "\<exists>rest. take_targets (purchase_line_verified e a) (exp_targets e) (snap_lines a) = Some rest
      \<and> mset (map canonical_purchase_line_hash rest) = mset (exp_untouched e)" by (metis mset_sort)
qed

lemma verify_lines:
  assumes "snap_qbo_id a = exp_qbo_id e" "snap_total a = exp_total e" "snap_payment a = exp_payment e" "snap_date a = exp_date e"
    "snap_refund a = exp_refund e" "snap_mode a = exp_mode e" "exp_disposition e = None"
    "purchase_total_tax_matches (exp_mode e) (exp_total_tax e) (snap_total_tax a)"
  shows "verify_purchase_result e a
    = (case take_targets (purchase_line_verified e a) (exp_targets e) (snap_lines a) of
         None \<Rightarrow> Some TargetMissing
       | Some remaining \<Rightarrow> if sort (map canonical_purchase_line_hash remaining) \<noteq> sort (exp_untouched e) then Some UntouchedChanged else None)"
  by (simp only: verify_purchase_result_def Let_def assms simp_thms if_False option.distinct)

lemma same_texts_same_postings:
  assumes "mset (map canonical_purchase_line_hash ls) = mset (map canonical_snapshot_line ks)"
    "list_all readable_line (ls @ ks)"
  shows "mset (map posting ls) = mset (map posting ks)"
  using assms
proof (induction ks arbitrary: ls)
  case (Cons k ks)
  have "canonical_snapshot_line k \<in># mset (map canonical_purchase_line_hash ls)" unfolding Cons.prems(1) by simp
  then obtain l where l: "l \<in> set ls" "canonical_purchase_line_hash l = canonical_snapshot_line k" by auto
  then obtain xs ys where ls: "ls = xs @ l # ys" by (metis split_list)
  have "mset (map canonical_purchase_line_hash (xs @ ys)) = mset (map canonical_snapshot_line ks)"
    using Cons.prems(1) l(2) by (simp add: ls)
  then have "mset (map posting (xs @ ys)) = mset (map posting ks)" using Cons.IH [of "xs @ ys"] Cons.prems(2) by (simp add: ls)
  moreover have "posting l = posting k" using canonical_line_posting(1) [OF l(2)] Cons.prems(2) ls by simp
  ultimately show ?case by (simp add: ls)
qed simp

lemma verified_postings:
  assumes "verify_purchase_result e a = None" "exp_untouched e = map canonical_snapshot_line kept"
    and "list_all readable_line (exp_targets e @ kept @ snap_lines a)"
  shows "mset (map posting (snap_lines a)) = mset (map posting kept) + mset (map posting (exp_targets e))"
proof -
  obtain rest where r: "take_targets (purchase_line_verified e a) (exp_targets e) (snap_lines a) = Some rest"
    "mset (map canonical_purchase_line_hash rest) = mset (exp_untouched e)"
    using verified_None(7) [OF assms(1)] by blast
  obtain ls where ls: "list_all2 (purchase_line_verified e a) (exp_targets e) ls" "mset (snap_lines a) = mset ls + mset rest"
    using take_targets_Some [OF r(1)] by blast
  have split: "set (snap_lines a) = set ls \<union> set rest" using arg_cong [OF ls(2), of set_mset] by simp
  have "mset (map posting rest) = mset (map posting kept)"
    using r(2) assms(3) split unfolding assms(2) by (intro same_texts_same_postings) (auto simp: list_all_iff)
  moreover have "map posting ls = map posting (exp_targets e)"
  proof -
    have "list_all2 (\<lambda>t l. posting l = posting t) (exp_targets e) ls"
      using ls(1) by (rule list.rel_mono_strong) (use verified_line_posting assms(3) split in \<open>auto simp: list_all_iff\<close>)
    then show ?thesis by (induction rule: list_all2_induct) auto
  qed
  ultimately have "mset (map posting rest) = mset (map posting kept)" "mset (map posting ls) = mset (map posting (exp_targets e))"
    by (simp_all only:)
  then show ?thesis using arg_cong [OF ls(2), of "image_mset posting"] by (simp add: union_commute)
qed

section \<open>The targets of a preparation\<close>

lemma snapshot_line_posting:
  assumes "snapshot_line_of digest sign mode raw = Inr l"
  shows "snap_account l = nullish (detail_ref raw ''AccountRef'')" "directional_cents (amount_or_zero raw) sign = Inr (amount_cents l)"
  using assms by (auto simp: snapshot_line_of_def on_ok_Inr)

lemma kept_lines:
  assumes "map_purchase_tax_snapshot digest raw = Inr cur"
    "holding = filter (\<lambda>j. held_in ids (raw_lines raw ! j)) [0..<length (raw_lines raw)]"
  shows "without_indexes holding (snap_lines cur) = filter (\<lambda>l. snap_account l \<notin> JStr ` set ids) (snap_lines cur)"
proof (rule without_indexes_filter)
  fix j assume j: "j < length (snap_lines cur)"
  note s = snapshot_Inr(2) [OF assms(1)]
  have "snap_account (snap_lines cur ! j) = nullish (detail_ref (raw_lines raw ! j) ''AccountRef'')" "j < length (raw_lines raw)"
    using s j by (auto simp: list_all2_conv_all_nth dest: snapshot_line_posting(1))
  then show "j \<in> set holding \<longleftrightarrow> snap_account (snap_lines cur ! j) \<in> JStr ` set ids"
    unfolding assms(2) by (auto simp: held_in_def split: option.splits json.splits)
qed

lemma replacement_from_source:
  assumes "replacement_lines raw staged current holding = Inr (new, True)"
  obtains line where "staged_lines staged = [line]" "length new = 1"
    "same_amounts (staged_mode staged) (snap_lines current ! hd holding) line
       \<and> get (hd new) ''Amount'' = map_option normalized_clone (get (raw_lines raw ! hd holding) ''Amount'')
     \<or> (\<exists>raw'. staged_line_to_raw (staged_mode staged) line = Inr raw' \<and> get (hd new) ''Amount'' = get raw' ''Amount'')"
proof -
  obtain line where one: "staged_lines staged = [line]"
    using assms unfolding replacement_lines_def Let_def by (auto simp: on_ok_Inr length_Suc_conv split: if_splits)
  have amount: "map_of (spread (Some v)) (js ''Amount'') = get v ''Amount''" for v by (cases v) simp_all
  have kept: "get (keep_metadata source l v) ''Amount'' = get v ''Amount''" for source l v
    by (cases v) (simp_all add: keep_metadata_def Let_def map_of_copy_field)
  show thesis
    using assms unfolding replacement_lines_def Let_def one list.sel if_Inl_Inr
    by (intro that [OF one]) (auto simp: on_ok_Inr amount kept with_account_def split: if_splits)
qed

lemma exact_cents_finite: "exact_cents (Some (JNum n)) = Inr c \<Longrightarrow> is_finite n"
  by (cases n) auto

lemma amount_of_clone:
  assumes "directional_cents (amount_or_zero raw) sign = Inr c" "get v ''Amount'' = map_option normalized_clone (get raw ''Amount'')"
  shows "amount_or_zero v = amount_or_zero raw"
proof (cases "get raw ''Amount''")
  case (Some w)
  show ?thesis
  proof (cases w)
    case (JNum n)
    have "is_finite n" using assms(1) Some JNum exact_cents_finite by (auto simp: amount_or_zero_def directional_cents_def on_ok_Inr)
    then show ?thesis using assms Some JNum by (simp add: amount_or_zero_def)
  qed (use assms Some in \<open>auto simp: amount_or_zero_def directional_cents_def on_ok_Inr\<close>)
qed (use assms in \<open>simp add: amount_or_zero_def\<close>)

lemma replacement_amount:
  assumes new: "replacement_lines raw staged current holding = Inr (new, True)"
    and ok: "list_all (\<lambda>l. staged_line_fault (staged_mode staged) (purchase_sign raw) l = None) (staged_lines staged)"
    and snap: "snapshot_line_of digest (purchase_sign raw) mode (raw_lines raw ! hd holding) = Inr (snap_lines current ! hd holding)"
    and t: "snapshot_line_of digest (purchase_sign raw) mode' (hd new) = Inr t"
  shows "[amount_cents t] = map (\<lambda>l. cents_of (staged_subtotal l)) (staged_lines staged)"
proof -
  have sign: "purchase_sign raw = 1 \<or> purchase_sign raw = - 1" by (simp add: purchase_sign_def)
  obtain line where l: "staged_lines staged = [line]"
    "same_amounts (staged_mode staged) (snap_lines current ! hd holding) line
       \<and> get (hd new) ''Amount'' = map_option normalized_clone (get (raw_lines raw ! hd holding) ''Amount'')
     \<or> (\<exists>raw'. staged_line_to_raw (staged_mode staged) line = Inr raw' \<and> get (hd new) ''Amount'' = get raw' ''Amount'')"
    by (rule replacement_from_source [OF new])
  note dt = snapshot_line_posting(2) [OF t] and ds = snapshot_line_posting(2) [OF snap]
  from l(2) have "amount_cents t = cents_of (staged_subtotal line)"
  proof (elim disjE conjE exE)
    assume same: "same_amounts (staged_mode staged) (snap_lines current ! hd holding) line"
      "get (hd new) ''Amount'' = map_option normalized_clone (get (raw_lines raw ! hd holding) ''Amount'')"
    have "amount_cents t = amount_cents (snap_lines current ! hd holding)"
      using dt ds amount_of_clone [OF ds same(2)] by simp
    moreover have "staged_subtotal line = of_cents (amount_cents (snap_lines current ! hd holding))"
      using same(1) by (simp add: same_amounts_def)
    ultimately show ?thesis by simp
  next
    fix raw' assume r: "staged_line_to_raw (staged_mode staged) line = Inr raw'" "get (hd new) ''Amount'' = get raw' ''Amount''"
    have fault: "staged_line_fault (staged_mode staged) (purchase_sign raw) line = None" using ok by (simp add: l(1))
    have "amount_or_zero (hd new) = amount_or_zero raw'" by (simp add: amount_or_zero_def r(2))
    then show ?thesis
      using snapshot_line_posting(2) [OF staged_line_snapshot [OF r(1) fault sign, of undefined]] dt
      by (simp add: staged_line_to_snapshot_def)
  qed
  then show ?thesis by (simp add: l(1))
qed

lemma set_targets:
  assumes prep: "prepare_set digest raw staged current rid holding = Inr p" "map_purchase_tax_snapshot digest raw = Inr current"
    and h: "holding \<noteq> []" "hd holding < length (raw_lines raw)" "assert_staged_amounts staged current holding = Inr ()"
  shows "exp_untouched (pp_expected p) = map canonical_snapshot_line (without_indexes holding (snap_lines current))"
    "map snap_account (exp_targets (pp_expected p)) = map staged_category (staged_lines staged)"
    "map amount_cents (exp_targets (pp_expected p)) = map (cents_of \<circ> staged_subtotal) (staged_lines staged)"
proof -
  note s = snapshot_Inr [OF prep(2)]
  have sign: "(if snap_refund current then 1 else - 1) = purchase_sign raw" using s(3) by (auto simp: purchase_sign_def)
  have snap: "snapshot_line_of digest (purchase_sign raw) (get raw ''GlobalTaxCalculation'') (raw_lines raw ! hd holding)
      = Inr (snap_lines current ! hd holding)"
    using s(2) h(2) by (simp add: list_all2_conv_all_nth)
  obtain new b targets aggregate where r: "replacement_lines raw staged current holding = Inr (new, b)"
    "(if b then on_ok (snapshot_line_of digest (purchase_sign raw) (get raw ''GlobalTaxCalculation'') (hd new)) (\<lambda>l. Inr [l])
      else Inr (map (staged_line_to_snapshot (staged_mode staged)) (staged_lines staged))) = Inr targets"
    "pp_expected p = expected_base current (mode_json (staged_mode staged)) (Some aggregate) None targets
       (map canonical_snapshot_line (without_indexes holding (snap_lines current)))"
    using prep(1) unfolding prepare_set_def Let_def if_Inl_Inr on_ok_Inr by (clarsimp simp: prepared_write_def on_ok_Inr)
  have e: "exp_targets (pp_expected p) = targets" by (simp add: r(3) expected_base_def)
  show "exp_untouched (pp_expected p) = map canonical_snapshot_line (without_indexes holding (snap_lines current))"
    by (simp add: r(3) expected_base_def)
  have "map snap_account targets = map staged_category (staged_lines staged)
    \<and> map amount_cents targets = map (cents_of \<circ> staged_subtotal) (staged_lines staged)"
  proof (cases b)
    case True
    then obtain t where t: "snapshot_line_of digest (purchase_sign raw) (get raw ''GlobalTaxCalculation'') (hd new) = Inr t" "targets = [t]"
      using r(2) by (auto simp: on_ok_Inr)
    have new: "replacement_lines raw staged current holding = Inr (new, True)" using r(1) True by simp
    obtain line where l: "staged_lines staged = [line]" "length new = 1" by (rule replacement_from_source [OF new])
    have "detail_ref (hd new) ''AccountRef'' = Some (staged_category line)"
      using replacement_accounts [OF new] l by (cases new) auto
    then show ?thesis
      using replacement_amount [OF new staged_amounts_ok(1) [OF h(3), unfolded sign] snap t(1)] snapshot_line_posting(1) [OF t(1)]
      by (simp add: t(2) l(1))
  next
    case False
    then show ?thesis using r(2) by (auto simp: staged_line_to_snapshot_def)
  qed
  then show "map snap_account (exp_targets (pp_expected p)) = map staged_category (staged_lines staged)"
    "map amount_cents (exp_targets (pp_expected p)) = map (cents_of \<circ> staged_subtotal) (staged_lines staged)" by (simp_all add: e)
qed

text \<open>The lines of a purchase outside the holding accounts, and those in them.\<close>

definition outside :: "jstring list \<Rightarrow> purchase_snapshot \<Rightarrow> snapshot_line list" where
  "outside ids s = filter (\<lambda>l. snap_account l \<notin> JStr ` set ids) (snap_lines s)"


section \<open>A stored change verifies\<close>

lemma take_first_at:
  "i < length xs \<Longrightarrow> P (xs ! i) \<Longrightarrow> (\<And>j. j < i \<Longrightarrow> \<not> P (xs ! j)) \<Longrightarrow> take_first P xs = Some (xs ! i, take i xs @ drop (Suc i) xs)"
proof (induction xs arbitrary: i)
  case (Cons x xs)
  show ?case
  proof (cases i)
    case (Suc n)
    then have "\<not> P x" "\<And>j. j < n \<Longrightarrow> \<not> P (xs ! j)" using Cons.prems(3) by (metis nth_Cons_0 zero_less_Suc) (use Cons.prems(3) Suc in force)
    then show ?thesis using Cons.IH [of n] Cons.prems(1,2) Suc by simp
  qed (use Cons.prems in simp)
qed simp

lemma without_index: "i < length xs \<Longrightarrow> without_indexes [i] xs = take i xs @ drop (Suc i) xs"
proof -
  assume i: "i < length xs"
  have "map fst (filter (\<lambda>p. snd p \<noteq> k + j) (zip ys [k..<k + length ys])) = take j ys @ drop (Suc j) ys" if "j < length ys" for ys :: "'a list" and k j
    using that
  proof (induction ys arbitrary: k j)
    case (Cons y ys)
    have up: "[k..<k + length (y # ys)] = k # [Suc k..<Suc k + length ys]" by (simp add: upt_rec)
    show ?case
    proof (cases j)
      case 0
      have "filter (\<lambda>p. snd p \<noteq> k) (zip ys [Suc k..<Suc k + length ys]) = zip ys [Suc k..<Suc k + length ys]"
        by (rule filter_True) (auto dest!: set_zip_rightD simp del: upt_Suc)
      then show ?thesis unfolding up 0 by (simp del: upt_Suc)
    next
      case (Suc n)
      then show ?thesis using Cons.IH [of n "Suc k"] Cons.prems unfolding up by simp
    qed
  qed simp
  from this [OF i, of 0] show ?thesis by (simp add: without_indexes_def)
qed

text \<open>
  C35. A category-only change that QuickBooks stores as it was sent, under whatever new token, is
  verified: the read-back is not reported as drift (when no two lines of the purchase have the
  same identity).
\<close>

theorem stored_category_change_verifies:
  assumes "prepare_purchase_recategorization digest raw ids staged before rid = Inr p" "staged_disposition staged = Some PreserveCurrent"
    and "normalized_clone raw = raw" "stored = update_field ''SyncToken'' (\<lambda>v. JStr token) (pp_body p)" "trim token \<noteq> []"
    and apart: "distinct (map snap_id (snap_lines (pp_before p)))"
  shows "\<exists>a. map_purchase_tax_snapshot digest stored = Inr a \<and> snap_token a = token \<and> verify_purchase_result (pp_expected p) a = None"
proof -
  obtain i a0 l target new where "stored_change digest raw stored token p i a0 l target new"
    using category_change_stored [OF assms(1-5)] by blast
  note c = this [unfolded stored_change_def]
  have raw: "map_purchase_tax_snapshot digest raw = Inr (pp_before p)" using c by blast
  let ?ls = "snap_lines (pp_before p)" and ?e = "pp_expected p"
  have i: "i < length ?ls" using snapshot_Inr(2) [OF raw] c by (simp add: list_all2_lengthD)
  have "purchase_target_line_matches m x y target target (Some PreserveCurrent)" for m x y
    using c by (intro matches_itself) auto
  then have match: "purchase_line_verified ?e new target target" by (simp add: purchase_line_verified_def c expected_base_def)
  have other: "\<not> purchase_line_verified ?e new target (?ls[i := target] ! j)" if "j < i" for j
  proof -
    have "snap_id (?ls ! j) \<noteq> snap_id (?ls ! i)" using apart i that by (simp add: distinct_conv_nth)
    then show ?thesis using that c by (simp add: purchase_line_verified_def purchase_target_line_matches_def expected_base_def)
  qed
  have lines: "snap_lines new = ?ls[i := target]" using c by simp
  have "take_first (purchase_line_verified ?e new target) (?ls[i := target]) = Some (target, take i ?ls @ drop (Suc i) ?ls)"
    using take_first_at [of i "?ls[i := target]"] i match other by simp
  then have "take_targets (purchase_line_verified ?e new) (exp_targets ?e) (snap_lines new) = Some (without_indexes [i] ?ls)"
    using c by (simp add: without_index [OF i] expected_base_def)
  moreover have "map canonical_purchase_line_hash = map canonical_snapshot_line"
    by (intro ext map_cong) (simp_all add: canonical_purchase_line_hash_def canonical_snapshot_line_def)
  ultimately have "verify_purchase_result ?e new = None"
    using c snapshot_preserved [OF raw] by (simp add: verify_purchase_result_def Let_def purchase_total_tax_matches_def expected_base_def)
  then show ?thesis using c by auto
qed

end
