(* ===== verification/VerifyWitness.thy ===== *)
theory VerifyWitness
  imports VerifyProofs PurchaseWitness
begin

text \<open>
  The verification of a read-back at the concrete purchase of PurchaseWitness, and a read-back
  of exactly what was sent that it reports as drift.
\<close>

section \<open>A tax-setting recategorization to a chosen account\<close>

definition staged_to :: "string \<Rightarrow> staged_categorization" where
  "staged_to account =
     (sample_staged SetTax JNull)\<lparr>staged_lines := [(sample_staged_line JNull)\<lparr>staged_category := JStr (js account)\<rparr>]\<rparr>"

abbreviation moved_line :: "string \<Rightarrow> json" where
  "moved_line account \<equiv> JObj
     [(js ''Amount'', JNum (Fin 1)), (js ''DetailType'', JStr (js expense_detail)),
      (js expense_detail, JObj [ref_field ''AccountRef'' (JStr (js account))]), (js ''Id'', JStr (js ''2''))]"

definition moved_purchase :: "string \<Rightarrow> json" where
  "moved_purchase account = JObj
     [(js ''Id'', JStr (js ''7'')), (js ''SyncToken'', JStr (js ''1'')), (js ''TxnDate'', JStr (js ''d'')),
      (js ''TotalAmt'', JNum (Fin 1)), ref_field ''AccountRef'' (JStr (js ''bank'')),
      (js ''GlobalTaxCalculation'', mode_json NotApplicable), (js ''Line'', JArr [kept_line, moved_line account])]"

lemma moved_snapshot_line:
  "snapshot_line_of digest (- 1) (Some (mode_json NotApplicable)) (moved_line account)
     = Inr (sample_snap_line digest ''2'' account JNull (moved_line account))"
proof -
  have "amount_or_zero (moved_line account) = Some (JNum (Fin 1))" by (simp add: amount_or_zero_def)
  note snap = snapshot_line_of_def this sample_directional sample_snap_line_def
  show ?thesis by (simp add: snap) (simp add: detail_of_def chain_def detail_ref_def)
qed

abbreviation kept_snap :: "(jstring \<Rightarrow> jstring) \<Rightarrow> snapshot_line" where
  "kept_snap digest \<equiv> sample_snap_line digest ''1'' ''k'' JNull kept_line"

abbreviation moved_snap :: "(jstring \<Rightarrow> jstring) \<Rightarrow> string \<Rightarrow> snapshot_line" where
  "moved_snap digest account \<equiv> sample_snap_line digest ''2'' account JNull (moved_line account)"

lemma moved_replacement:
  assumes "trim (js account) = js account" "account \<noteq> []"
  shows "replacement_lines sample_purchase (staged_to account) (sample_snapshot digest) [Suc 0] = Inr ([moved_line account], True)"
proof -
  let ?line = "(sample_staged_line JNull)\<lparr>staged_category := JStr (js account)\<rparr>"
  let ?raw = "JObj [(js ''Amount'', JNum (Fin 1)), (js ''DetailType'', JStr (js expense_detail)),
      (js expense_detail, JObj [ref_field ''AccountRef'' (JStr (js account))])]"
  have "js account \<noteq> []" using assms(2) by (simp add: js_def)
  then have raw: "staged_line_to_raw NotApplicable ?line = Inr ?raw"
    using assms(1) by (simp add: staged_line_to_raw_def sample_staged_line_def staged_tax_fields_def sample_one_dollar not_applicable_code_def)
  have "keep_metadata holding_line ?line ?raw = moved_line account"
    by (simp add: keep_metadata_def copy_field_def chain_def detail_of_def sample_staged_line_def sample_purchase_line_def set_field_def)
  moreover have "\<not> same_amounts NotApplicable (sample_snap_line digest ''2'' ''h'' (JStr (js ''t'')) holding_line) ?line"
    by (simp add: same_amounts_def sample_snap_line_def sample_staged_line_def)
  ultimately show ?thesis
    using raw by (simp add: replacement_lines_def sample_snap sample_lines sample_source staged_to_def sample_staged_def Let_def)
qed

lemma moved_prepared:
  assumes "trim (js account) = js account" "account \<noteq> []"
  shows "\<exists>p. prepare_purchase_recategorization digest sample_purchase [js ''h''] (staged_to account) (sample_snapshot digest) (js ''r'') = Inr p
    \<and> update_field ''SyncToken'' (\<lambda>v. JStr (js ''1'')) (pp_body p) = moved_purchase account
    \<and> pp_before p = sample_snapshot digest
    \<and> pp_expected p = expected_base (sample_snapshot digest) (mode_json NotApplicable) (Some 0) None [moved_snap digest account]
        [canonical_snapshot_line (kept_snap digest)]"
proof -
  have amounts: "assert_staged_amounts (staged_to account) (sample_snapshot digest) [Suc 0] = Inr ()"
    by (simp add: assert_staged_amounts_def staged_to_def sample_staged_def sample_staged_line_def sample_snapshot_def sample_snap_line_def
      staged_line_fault_def money_cents_def max_exact_cents_value safe_int_def max_safe_def of_cents_def num_sign_def
      purchase_holding_gross_cents_def holding_gross_of_def is_mode_def mode_json_def Let_def)
  have disposition: "staged_disposition (staged_to account) = Some SetTax" "staged_mode (staged_to account) = NotApplicable"
    "staged_totals (staged_to account) = (Fin (- 100), Fin 0, Fin (- 100))"
    by (simp_all add: staged_to_def sample_staged_def)
  let ?body = "purchase_body sample_purchase (js ''0'') [kept_line, moved_line account] (Some (mode_json NotApplicable))"
  have "prepare_set digest sample_purchase (staged_to account) (sample_snapshot digest) (js ''r'') [1]
    = Inr (prepared_write digest Recategorize (js ''r'') ?body (sample_snapshot digest)
        (expected_base (sample_snapshot digest) (mode_json NotApplicable) (Some 0) None [moved_snap digest account]
          [canonical_snapshot_line (kept_snap digest)]))"
    by (simp add: prepare_set_def moved_replacement [OF assms] disposition sample_sign sample_source sample_snap sample_lines
        moved_snapshot_line tax_bearing_def kept_tax_cents_def proven_tax_def sum_proven_def without_indexes_def Let_def)
       (simp add: of_cents_def money_cents_def max_exact_cents_value safe_int_def max_safe_def sample_snapshot_def)
  moreover have "update_field ''SyncToken'' (\<lambda>v. JStr (js ''1'')) ?body = moved_purchase account"
    by (simp add: purchase_body_def sample_purchase_def moved_purchase_def sample_purchase_line_def update_field_def set_field_def
        delete_field_def mode_json_def)
  ultimately show ?thesis
    by (simp add: prepare_purchase_recategorization_def sample_taken sample_current sample_holding amounts disposition prepared_write_def)
qed

text \<open>What is read back once QuickBooks has stored the body as it was sent, under a new token.\<close>

definition moved_snapshot :: "(jstring \<Rightarrow> jstring) \<Rightarrow> string \<Rightarrow> purchase_snapshot" where
  "moved_snapshot digest account = (sample_snapshot digest)
     \<lparr>snap_token := js ''1'', snap_total_tax := Some 0,
      snap_preserved := Some (purchase_preserved_hash digest (moved_purchase account)),
      snap_lines := [kept_snap digest, moved_snap digest account]\<rparr>"

lemma moved_taken: "map_purchase_tax_snapshot digest (moved_purchase account) = Inr (moved_snapshot digest account)"
proof -
  have gets: "get (moved_purchase account) ''Line'' = Some (JArr [kept_line, moved_line account])"
    "get (moved_purchase account) ''Id'' = Some (JStr (js ''7''))" "get (moved_purchase account) ''SyncToken'' = Some (JStr (js ''1''))"
    "get (moved_purchase account) ''TxnDate'' = Some (JStr (js ''d''))" "get (moved_purchase account) ''TotalAmt'' = Some (JNum (Fin 1))"
    "get (moved_purchase account) ''GlobalTaxCalculation'' = Some (mode_json NotApplicable)" "get (moved_purchase account) ''TxnTaxDetail'' = None"
    "chain (get (moved_purchase account) ''AccountRef'') ''value'' = Some (JStr (js ''bank''))" "chain (None :: json option) ''TotalTax'' = None"
    "purchase_sign (moved_purchase account) = - 1"
    by (simp_all add: moved_purchase_def chain_def purchase_sign_def)
  have "provable_line_tax (- 1) (Some (mode_json NotApplicable)) (moved_line account) = Inr (Some 0)"
    by (simp add: provable_line_tax_def detail_of_def chain_def detail_ref_def)
  then show ?thesis
    by (simp add: map_purchase_tax_snapshot_def gets sample_provable sample_line_snapshot moved_snapshot_line sample_directional
        sample_snapshot_def moved_snapshot_def of_cents_def money_cents_def max_exact_cents_value safe_int_def max_safe_def Let_def)
qed

lemma sample_readable: "text_or_null code \<Longrightarrow> readable_line (sample_snap_line digest i account code raw)"
  by (simp add: readable_line_def sample_snap_line_def text_or_null_def exact_amount_def effective_line_tax_cents_def)

lemma sample_posting: "posting (sample_snap_line digest i account code raw) = (JStr (js account), - 100)"
  by (simp add: posting_def sample_snap_line_def)

lemma sample_texts:
  "canonical_purchase_line_hash (kept_snap digest) = canonical_snapshot_line (kept_snap digest)"
  "canonical_purchase_line_hash (moved_snap digest account) \<noteq> canonical_snapshot_line (kept_snap digest)"
proof -
  show "canonical_purchase_line_hash (kept_snap digest) = canonical_snapshot_line (kept_snap digest)"
    by (simp add: canonical_purchase_line_hash_def canonical_snapshot_line_def)
  have "snap_id (moved_snap digest account) \<noteq> snap_id (kept_snap digest)" by (simp add: sample_snap_line_def js_def)
  then show "canonical_purchase_line_hash (moved_snap digest account) \<noteq> canonical_snapshot_line (kept_snap digest)"
    using canonical_line_posting(2) [OF _ sample_readable sample_readable] by (auto simp: text_or_null_def)
qed

lemma moved_verdict:
  assumes e: "e = expected_base (sample_snapshot digest) (mode_json NotApplicable) (Some 0) None [moved_snap digest account]
        [canonical_snapshot_line (kept_snap digest)]"
    and first: "purchase_line_verified e (moved_snapshot digest account) (moved_snap digest account) (kept_snap digest) \<longleftrightarrow> b"
  shows "verify_purchase_result e (moved_snapshot digest account) = (if b then Some UntouchedChanged else None)"
proof -
  have self: "purchase_line_verified e (moved_snapshot digest account) (moved_snap digest account) (moved_snap digest account)"
    by (simp add: purchase_line_verified_def)  (simp add: e expected_base_def)
  have "take_targets (purchase_line_verified e (moved_snapshot digest account)) (exp_targets e) (snap_lines (moved_snapshot digest account))
    = Some [if b then moved_snap digest account else kept_snap digest]"
    using self first by (simp add: e expected_base_def moved_snapshot_def)
  moreover have "exp_untouched e = [canonical_snapshot_line (kept_snap digest)]" by (simp add: e expected_base_def)
  moreover have "verify_purchase_result e (moved_snapshot digest account)
    = (case take_targets (purchase_line_verified e (moved_snapshot digest account)) (exp_targets e) (snap_lines (moved_snapshot digest account)) of
         None \<Rightarrow> Some TargetMissing
       | Some remaining \<Rightarrow> if sort (map canonical_purchase_line_hash remaining) \<noteq> sort (exp_untouched e) then Some UntouchedChanged else None)"
    by (rule verify_lines) (simp_all add: e expected_base_def moved_snapshot_def sample_snapshot_def purchase_total_tax_matches_def)
  moreover have one: "sort (map f [x]) = sort [y] \<longleftrightarrow> f x = y" for f :: "snapshot_line \<Rightarrow> jstring" and x y by simp
  ultimately have v: "verify_purchase_result e (moved_snapshot digest account)
    = (if canonical_purchase_line_hash (if b then moved_snap digest account else kept_snap digest) \<noteq> canonical_snapshot_line (kept_snap digest)
       then Some UntouchedChanged else None)"
    by (simp only: option.case)
  show ?thesis unfolding v using sample_texts [of digest] by (cases b) (simp_all only: if_True if_False simp_thms)
qed

section \<open>The properties at this purchase\<close>

lemma sample_trim: "trim (js ''k'') = js ''k''" "trim (js ''new'') = js ''new''"
  by simp_all

lemma moved_new_verifies:
  assumes "e = expected_base (sample_snapshot digest) (mode_json NotApplicable) (Some 0) None [moved_snap digest ''new'']
        [canonical_snapshot_line (kept_snap digest)]"
  shows "verify_purchase_result e (moved_snapshot digest ''new'') = None"
proof -
  have "posting (kept_snap digest) \<noteq> posting (moved_snap digest ''new'')" by (simp add: sample_posting js_def)
  then have "\<not> purchase_line_verified e (moved_snapshot digest ''new'') (moved_snap digest ''new'') (kept_snap digest)"
    using verified_line_posting [OF _ sample_readable sample_readable] by (auto simp: text_or_null_def)
  then show ?thesis using moved_verdict [OF assms, of False] by simp
qed


theorem stored_category_change_verifies_witness:
  "\<exists>p a. prepare_purchase_recategorization (\<lambda>s. []) sample_purchase [js ''h''] (sample_staged PreserveCurrent (JStr (js ''t'')))
      (sample_snapshot (\<lambda>s. [])) (js ''r'') = Inr p
    \<and> map_purchase_tax_snapshot (\<lambda>s. []) sample_stored = Inr a \<and> verify_purchase_result (pp_expected p) a = None"
proof -
  obtain p where p: "prepare_purchase_recategorization (\<lambda>s. []) sample_purchase [js ''h''] (sample_staged PreserveCurrent (JStr (js ''t'')))
      (sample_snapshot (\<lambda>s. [])) (js ''r'') = Inr p" "pp_body p = edit_line (Suc 0) (with_account (js ''new'')) sample_purchase"
      "pp_before p = sample_snapshot (\<lambda>s. [])" using sample_preserve by blast
  have stored: "sample_stored = update_field ''SyncToken'' (\<lambda>v. JStr (js ''1'')) (pp_body p)"
    by (simp add: p(2) sample_changed sample_stored_def update_field_def set_field_def)
  have "trim (js ''1'') \<noteq> []" by simp
  moreover have "distinct (map snap_id (snap_lines (pp_before p)))" by (simp add: p(3) sample_snap) (simp add: sample_snap_line_def js_def)
  ultimately show ?thesis
    using p(1) stored_category_change_verifies [OF p(1) sample_disposition sample_clone stored] by blast
qed


end
