(* ===== verification/DepositPrep.thy ===== *)
theory DepositPrep
  imports Verify
begin

text \<open>
  The preparation of a recategorization of a QuickBooks deposit and of its undo
  (\<open>lib/qbo/depositTax.ts\<close>), the counterpart of \<open>PurchasePrep\<close>: the amounts of the lines are net
  and signed as QuickBooks has them, and a line keeps its payer, payment method and class.

  A raw deposit is the JSON value of the provider, of the declared type. Money, hashes and the
  errors are those of \<open>PurchasePrep\<close>; \<open>DepositUnsupported\<close> is \<open>QBO_DEPOSIT_UNSUPPORTED\<close>.
\<close>

section \<open>The snapshot of a deposit\<close>

abbreviation deposit_detail_name :: string where
  "deposit_detail_name \<equiv> ''DepositLineDetail''"

definition deposit_money :: "jsnum \<Rightarrow> prep_error + json" where
  "deposit_money v =
     (if \<not> money_cents v then Inl AmountUnsafe
      else let money = JNum (dollars (cents_of v))
           in on_ok (exact_cents (Some money)) (\<lambda>c. if c \<noteq> cents_of v then Inl AmountUnsafe else Inr money))"

definition preserved_deposit :: "json \<Rightarrow> json" where
  "preserved_deposit =
     without_fields [''Id'', ''SyncToken'', ''TotalAmt'', ''Line'', ''GlobalTaxCalculation'', ''TxnTaxDetail'',
       ''HomeTotalAmt'', ''MetaData'', ''status'', ''sparse'', ''domain'']"

definition deposit_detail :: "json \<Rightarrow> json option" where
  "deposit_detail raw = get raw deposit_detail_name"

definition deposit_ref :: "json \<Rightarrow> string \<Rightarrow> json option" where
  "deposit_ref raw k = chain (chain (deposit_detail raw) k) ''value''"

definition stable_target_line :: "json \<Rightarrow> json" where
  "stable_target_line raw = JObj
     [(js ''amount'', nullish (get raw ''Amount'')), (js ''description'', nullish (get raw ''Description'')),
      (js ''detailType'', nullish (get raw ''DetailType'')), (js ''accountQboId'', nullish (deposit_ref raw ''AccountRef'')),
      (js ''entityQboId'', nullish (deposit_ref raw ''Entity'')), (js ''paymentMethodQboId'', nullish (deposit_ref raw ''PaymentMethodRef'')),
      (js ''classQboId'', nullish (deposit_ref raw ''ClassRef'')), (js ''taxCodeQboId'', nullish (deposit_ref raw ''TaxCodeRef'')),
      (js ''taxApplicableOn'', nullish (chain (deposit_detail raw) ''TaxApplicableOn''))]"

definition deposit_line_of :: "(jstring \<Rightarrow> jstring) \<Rightarrow> json \<Rightarrow> prep_error + deposit_line" where
  "deposit_line_of digest raw =
     on_ok (exact_cents (amount_or_zero raw)) (\<lambda>cents.
     Inr \<lparr>dep_id = nullish (get raw ''Id''), dep_amount = cents, dep_description = nullish (get raw ''Description''),
          dep_account = nullish (deposit_ref raw ''AccountRef''), dep_entity = nullish (deposit_ref raw ''Entity''),
          dep_method = nullish (deposit_ref raw ''PaymentMethodRef''), dep_class = nullish (deposit_ref raw ''ClassRef''),
          dep_code = nullish (deposit_ref raw ''TaxCodeRef''), dep_applicable = nullish (chain (deposit_detail raw) ''TaxApplicableOn''),
          dep_raw_hash = fingerprint digest raw, dep_target_hash = fingerprint digest (stable_target_line raw)\<rparr>)"

definition map_deposit_snapshot :: "(jstring \<Rightarrow> jstring) \<Rightarrow> json \<Rightarrow> prep_error + deposit_snapshot" where
  "map_deposit_snapshot digest raw =
     (case (get raw ''Line'', non_blank (get raw ''Id''), non_blank (get raw ''SyncToken''), non_blank (get raw ''TxnDate''), get raw ''TotalAmt'') of
        (Some (JArr lines), Some qbo_id, Some token, Some date, Some amount) \<Rightarrow>
          on_ok (required_identity (chain (get raw ''DepositToAccountRef'') ''value'')) (\<lambda>account.
          on_ok (map_ok (deposit_line_of digest) lines) (\<lambda>ls.
          on_ok (exact_cents (Some amount)) (\<lambda>total_cents.
          on_ok (if get raw ''GlobalTaxCalculation'' = None then Inr None
                 else on_ok (safe_cent_sum (map (of_cents \<circ> dep_amount) ls)) (\<lambda>net.
                      on_ok (safe_cent_sum [of_cents total_cents, of_cents (- net)]) (\<lambda>tax. Inr (Some tax)))) (\<lambda>derived.
          on_ok (case chain (get raw ''TxnTaxDetail'') ''TotalTax'' of
                   None \<Rightarrow> Inr derived
                 | v \<Rightarrow> on_ok (exact_cents v) (\<lambda>t. Inr (Some t))) (\<lambda>aggregate.
          Inr \<lparr>deposit_id = qbo_id, deposit_token = token, deposit_total = total_cents, deposit_to = JStr account,
               deposit_date = date, deposit_mode = nullish (get raw ''GlobalTaxCalculation''), deposit_total_tax = aggregate,
               deposit_preserved = fingerprint digest (preserved_deposit raw), deposit_lines = ls\<rparr>)))))
      | _ \<Rightarrow> Inl DepositUnsupported)"

definition canonical_deposit_line :: "deposit_line \<Rightarrow> jstring" where
  "canonical_deposit_line line =
     canonical (JArr
       [JStr (dep_raw_hash line), dep_id line, cents_json (Some (dep_amount line)), dep_description line, dep_account line,
        dep_entity line, dep_method line, dep_class line, dep_code line, dep_applicable line])"

definition target_deposit_line :: "deposit_line \<Rightarrow> jstring" where
  "target_deposit_line line =
     canonical (JArr
       [JStr (dep_target_hash line), cents_json (Some (dep_amount line)), dep_description line, dep_account line,
        dep_entity line, dep_method line, dep_class line, dep_code line, dep_applicable line])"

definition assert_deposit_equals_before :: "deposit_snapshot \<Rightarrow> deposit_snapshot \<Rightarrow> prep_error + unit" where
  "assert_deposit_equals_before actual before =
     (if deposit_token actual \<noteq> deposit_token before then Inl SyncTokenConflict
      else if actual \<noteq> before then Inl StateDrift else Inr ())"

definition deposit_expected_base :: "deposit_snapshot \<Rightarrow> json \<Rightarrow> int option \<Rightarrow> deposit_line list \<Rightarrow> jstring list \<Rightarrow> deposit_expected" where
  "deposit_expected_base snap mode aggregate targets untouched =
     \<lparr>dexp_id = deposit_id snap, dexp_total = deposit_total snap, dexp_to = deposit_to snap, dexp_date = deposit_date snap,
      dexp_mode = mode, dexp_total_tax = aggregate, dexp_preserved = deposit_preserved snap,
      dexp_targets = targets, dexp_untouched = untouched\<rparr>"

section \<open>Holding lines\<close>

definition only_fields :: "string list \<Rightarrow> json \<Rightarrow> bool" where
  "only_fields ks v \<longleftrightarrow> list_all (\<lambda>f. fst f \<in> js ` set ks) (spread (Some v))"

definition restorable_reference :: "json option \<Rightarrow> bool" where
  "restorable_reference v =
     (case v of Some (JObj fs) \<Rightarrow> only_fields [''value'', ''name''] (JObj fs) | _ \<Rightarrow> True)"

text \<open>A line that has a field the undo could not write back is refused.\<close>

definition assert_restorable_holding_line :: "json \<Rightarrow> prep_error + unit" where
  "assert_restorable_holding_line line =
     (if only_fields [''Id'', ''LineNum'', ''Amount'', ''Description'', ''DetailType'', deposit_detail_name, ''CustomExtensions''] line
         \<and> (get line ''CustomExtensions'' = None \<or> get line ''CustomExtensions'' = Some (JArr []))
         \<and> (case deposit_detail line of
              None \<Rightarrow> True
            | Some detail \<Rightarrow>
                only_fields [''AccountRef'', ''Entity'', ''PaymentMethodRef'', ''ClassRef'', ''TaxCodeRef'', ''TaxApplicableOn''] detail
                \<and> list_all (\<lambda>k. restorable_reference (get detail k)) [''AccountRef'', ''Entity'', ''PaymentMethodRef'', ''ClassRef'', ''TaxCodeRef''])
      then Inr () else Inl DepositUnsupported)"

fun optional_reference :: "json option \<Rightarrow> prep_error + json option" where
  "optional_reference None = Inr None"
| "optional_reference (Some v) =
     (if \<not> is_record v then Inl ReferenceMissing
      else on_ok (required_identity (get v ''value'')) (\<lambda>_.
           case get v ''name'' of
             None \<Rightarrow> Inr (Some (normalized_clone v))
           | Some (JStr _) \<Rightarrow> Inr (Some (normalized_clone v))
           | _ \<Rightarrow> Inl ReferenceMissing))"

definition defined_fields :: "(string \<times> json option) list \<Rightarrow> fields" where
  "defined_fields kvs = List.map_filter (\<lambda>(k, v). map_option (\<lambda>w. (js k, w)) v) kvs"

definition modeled_fields :: "json \<Rightarrow> prep_error + json option \<times> json option \<times> json option" where
  "modeled_fields raw =
     on_ok (optional_reference (chain (deposit_detail raw) ''Entity'')) (\<lambda>payer.
     on_ok (optional_reference (chain (deposit_detail raw) ''PaymentMethodRef'')) (\<lambda>payment_method.
     on_ok (optional_reference (chain (deposit_detail raw) ''ClassRef'')) (\<lambda>class_ref.
     Inr (payer, payment_method, class_ref))))"

definition modeled_text :: "json option \<times> json option \<times> json option \<Rightarrow> jstring" where
  "modeled_text m =
     canonical_json (JObj (defined_fields [(''entity'', fst m), (''paymentMethod'', fst (snd m)), (''classRef'', snd (snd m))]))"

definition preserved_fields :: "json list \<Rightarrow> prep_error + json option \<times> json option \<times> json option" where
  "preserved_fields lines =
     on_ok (map_ok modeled_fields lines) (\<lambda>ms.
       if list_ex (\<lambda>m. modeled_text m \<noteq> modeled_text (hd ms)) ms then Inl DepositUnsupported else Inr (hd ms))"

definition deposit_holding_line_ok :: "json \<Rightarrow> prep_error + unit" where
  "deposit_holding_line_ok raw =
     (if get raw ''DetailType'' \<noteq> Some (JStr (js deposit_detail_name)) \<or> get raw ''Id'' = None \<or> get raw ''Amount'' = None
         \<or> non_blank (deposit_ref raw ''AccountRef'') = None
      then Inl DepositUnsupported
      else on_ok (assert_restorable_holding_line raw) (\<lambda>_. on_ok (exact_cents (get raw ''Amount'')) (\<lambda>_. Inr ())))"

definition deposit_held_in :: "jstring list \<Rightarrow> json \<Rightarrow> bool" where
  "deposit_held_in ids raw \<longleftrightarrow> (case deposit_ref raw ''AccountRef'' of Some (JStr a) \<Rightarrow> a \<in> set ids | _ \<Rightarrow> False)"

fun deposit_holding_indexes :: "jstring list \<Rightarrow> nat \<Rightarrow> json list \<Rightarrow> prep_error + nat list" where
  "deposit_holding_indexes ids i [] = Inr []"
| "deposit_holding_indexes ids i (l # ls) =
     (if deposit_held_in ids l
      then on_ok (deposit_holding_line_ok l) (\<lambda>_. on_ok (deposit_holding_indexes ids (Suc i) ls) (\<lambda>is. Inr (i # is)))
      else deposit_holding_indexes ids (Suc i) ls)"

section \<open>Staged lines\<close>

definition staged_line_to_deposit_raw ::
  "staged_line \<Rightarrow> tax_calculation \<Rightarrow> json option \<times> json option \<times> json option \<Rightarrow> json \<Rightarrow> bool \<Rightarrow> prep_error + json" where
  "staged_line_to_deposit_raw line mode preserved replaced keep_id =
     on_ok (required_identity (Some (staged_category line))) (\<lambda>account.
       if (case staged_idx line of Fin x \<Rightarrow> x < 0 | NInf \<Rightarrow> True | _ \<Rightarrow> False) \<or> \<not> is_safe_integer (staged_idx line)
       then Inl DepositUnsupported
       else on_ok (if mode \<noteq> NotApplicable
                   then on_ok (required_identity (Some (staged_code line))) (\<lambda>code.
                        Inr [ref_field ''TaxCodeRef'' (JStr code), (js ''TaxApplicableOn'', JStr (js ''Sales''))])
                   else if staged_code line \<noteq> JNull then Inl DepositUnsupported else Inr []) (\<lambda>tax_fields.
            on_ok (if get replaced ''Id'' = None \<or> \<not> keep_id then Inr []
                   else on_ok (required_identity (get replaced ''Id'')) (\<lambda>i. Inr [(js ''Id'', JStr i)])) (\<lambda>id_fields.
            on_ok (deposit_money (staged_subtotal line)) (\<lambda>amount.
            Inr (JObj
              (id_fields @ [(js ''Amount'', amount), (js ''DetailType'', JStr (js deposit_detail_name))]
               @ defined_fields [(''Description'', if staged_memo line = JNull then get replaced ''Description'' else Some (staged_memo line))]
               @ [(js deposit_detail_name, JObj
                    (ref_field ''AccountRef'' (JStr account)
                     # defined_fields [(''Entity'', fst preserved), (''PaymentMethodRef'', fst (snd preserved)), (''ClassRef'', snd (snd preserved))]
                     @ tax_fields))]))))))"

definition deposit_staged_fault :: "tax_calculation \<Rightarrow> staged_line \<Rightarrow> prep_error option" where
  "deposit_staged_fault mode line =
     (case safe_cent_sum [staged_subtotal line, staged_tax line, staged_total line] of
        Inl e \<Rightarrow> Some e
      | Inr _ \<Rightarrow>
          (case safe_cent_sum [staged_subtotal line, staged_tax line] of
             Inl e \<Rightarrow> Some e
           | Inr s \<Rightarrow>
               (if of_cents s \<noteq> staged_total line then Some StateDrift
                else if cents_of (staged_subtotal line) < 0 \<or> cents_of (staged_tax line) < 0 \<or> cents_of (staged_total line) \<le> 0
                then Some DepositUnsupported
                else if mode = NotApplicable \<and> staged_tax line \<noteq> Fin 0 then Some DepositUnsupported
                else None)))"

fun first_deposit_fault :: "tax_calculation \<Rightarrow> staged_line list \<Rightarrow> prep_error option" where
  "first_deposit_fault mode [] = None"
| "first_deposit_fault mode (l # ls) =
     (case deposit_staged_fault mode l of Some e \<Rightarrow> Some e | None \<Rightarrow> first_deposit_fault mode ls)"

definition assert_deposit_amounts :: "staged_categorization \<Rightarrow> deposit_snapshot \<Rightarrow> nat list \<Rightarrow> prep_error + unit" where
  "assert_deposit_amounts staged current holding =
     (let lines = staged_lines staged
      in if lines = [] then Inl DepositUnsupported
         else if map staged_idx lines \<noteq> map (Fin \<circ> of_nat) [0..<length lines] then Inl DepositUnsupported
         else case first_deposit_fault (staged_mode staged) lines of
                Some e \<Rightarrow> Inl e
              | None \<Rightarrow>
                  on_ok (safe_cent_sum (map staged_subtotal lines)) (\<lambda>subtotal.
                  on_ok (safe_cent_sum (map staged_tax lines)) (\<lambda>tax.
                  on_ok (safe_cent_sum (map staged_total lines)) (\<lambda>whole.
                    if (of_cents subtotal, of_cents tax, of_cents whole) \<noteq> staged_totals staged then Inl StateDrift
                    else on_ok (safe_cent_sum (map (\<lambda>i. of_cents (dep_amount (deposit_lines current ! i))) holding)) (\<lambda>held.
                         if of_cents held \<noteq> snd (snd (staged_totals staged)) then Inl StateDrift else Inr ())))))"

section \<open>Preparing a recategorization\<close>

record deposit_prepared =
  dp_operation :: purchase_operation
  dp_type :: jstring
  dp_qbo_id :: jstring
  dp_request_id :: jstring
  dp_request_hash :: jstring
  dp_body :: json
  dp_before :: deposit_snapshot
  dp_expected :: deposit_expected

definition deposit_prepared_write ::
  "(jstring \<Rightarrow> jstring) \<Rightarrow> purchase_operation \<Rightarrow> jstring \<Rightarrow> json \<Rightarrow> deposit_snapshot \<Rightarrow> deposit_expected \<Rightarrow> deposit_prepared" where
  "deposit_prepared_write digest operation request_id body current expected =
     \<lparr>dp_operation = operation, dp_type = js ''Deposit'', dp_qbo_id = deposit_id current, dp_request_id = request_id,
      dp_request_hash = fingerprint digest body, dp_body = body, dp_before = current, dp_expected = expected\<rparr>"

definition deposit_body :: "json \<Rightarrow> jstring \<Rightarrow> json list \<Rightarrow> json option \<Rightarrow> json" where
  "deposit_body raw token lines mode =
     normalized_clone (JObj
       ((case mode of None \<Rightarrow> delete_field ''GlobalTaxCalculation'' | Some m \<Rightarrow> set_field ''GlobalTaxCalculation'' m)
          (set_field ''Line'' (JArr lines) (set_field ''SyncToken'' (JStr token)
            (delete_field ''TxnTaxDetail'' (delete_field ''HomeTotalAmt'' (delete_field ''status'' (spread (Some raw)))))))))"

definition deposit_tax_bearing :: "deposit_line \<Rightarrow> bool" where
  "deposit_tax_bearing line \<longleftrightarrow> dep_code line \<noteq> JNull \<or> dep_applicable line \<noteq> JNull"

definition deposit_kept_tax :: "deposit_snapshot \<Rightarrow> deposit_line list \<Rightarrow> deposit_line list \<Rightarrow> prep_error + int" where
  "deposit_kept_tax current kept replaced =
     (if \<not> list_ex (\<lambda>l. dep_amount l \<noteq> 0 \<and> deposit_tax_bearing l) kept then Inr 0
      else case deposit_total_tax current of
             Some t \<Rightarrow> (if list_ex deposit_tax_bearing replaced then Inl DepositUnsupported else Inr t)
           | None \<Rightarrow> Inl DepositUnsupported)"

definition deposit_new_lines ::
  "json list \<Rightarrow> staged_categorization \<Rightarrow> json option \<times> json option \<times> json option \<Rightarrow> prep_error + json list" where
  "deposit_new_lines held staged preserved =
     map_ok (\<lambda>(i, line).
         staged_line_to_deposit_raw line (staged_mode staged) preserved (held ! (if length held = 1 then 0 else i)) (length held \<noteq> 1 \<or> i = 0))
       (enumerate 0 (staged_lines staged))"

definition prepare_deposit_lines ::
  "(jstring \<Rightarrow> jstring) \<Rightarrow> json \<Rightarrow> staged_categorization \<Rightarrow> deposit_snapshot \<Rightarrow> jstring \<Rightarrow> nat list \<Rightarrow> prep_error + deposit_prepared" where
  "prepare_deposit_lines digest raw staged current request_id holding =
     (let held = map (\<lambda>i. raw_lines raw ! i) holding; kept_raw = without_indexes holding (raw_lines raw);
          kept = without_indexes holding (deposit_lines current); mode = mode_json (staged_mode staged)
      in if length (staged_lines staged) \<noteq> length held \<and> length held \<noteq> 1 then Inl DepositUnsupported
         else on_ok (assert_deposit_amounts staged current holding) (\<lambda>_.
              if list_ex deposit_tax_bearing kept \<and> mode \<noteq> deposit_mode current then Inl DepositUnsupported
              else on_ok (deposit_kept_tax current kept (map (\<lambda>i. deposit_lines current ! i) holding)) (\<lambda>kept_tax.
                   on_ok (preserved_fields held) (\<lambda>preserved.
                   on_ok (deposit_new_lines held staged preserved) (\<lambda>new_raw.
                   on_ok (map_ok (deposit_line_of digest) new_raw) (\<lambda>targets.
                   on_ok (safe_cent_sum [of_cents kept_tax, fst (snd (staged_totals staged))]) (\<lambda>aggregate.
                     let body = deposit_body raw (deposit_token current) (kept_raw @ new_raw) (Some mode)
                     in Inr (deposit_prepared_write digest Recategorize request_id body current
                          (deposit_expected_base current mode (Some aggregate) targets (map canonical_deposit_line kept))))))))))"

definition prepare_deposit_recategorization ::
  "(jstring \<Rightarrow> jstring) \<Rightarrow> json \<Rightarrow> jstring list \<Rightarrow> staged_categorization \<Rightarrow> deposit_snapshot \<Rightarrow> jstring
     \<Rightarrow> prep_error + deposit_prepared" where
  "prepare_deposit_recategorization digest raw holding_ids staged before request_id =
     (if trim request_id = [] then Inl ReferenceMissing
      else if holding_ids = [] then Inl ReferenceMissing
      else if list_ex (\<lambda>i. trim i = []) holding_ids then Inl ReferenceMissing
      else on_ok (map_deposit_snapshot digest raw) (\<lambda>current.
           on_ok (assert_deposit_equals_before current before) (\<lambda>_.
           on_ok (deposit_holding_indexes holding_ids 0 (raw_lines raw)) (\<lambda>holding.
             if holding = [] then Inl StateDrift else prepare_deposit_lines digest raw staged current request_id holding))))"

section \<open>Restoring\<close>

fun match_deposit_targets ::
  "deposit_line list \<Rightarrow> (deposit_line \<times> nat) list \<Rightarrow> (nat list \<times> (deposit_line \<times> nat) list) option" where
  "match_deposit_targets [] xs = Some ([], xs)"
| "match_deposit_targets (t # ts) xs =
     (case take_first (\<lambda>x. (dep_id t = JNull \<or> dep_id (fst x) = dep_id t) \<and> target_deposit_line (fst x) = target_deposit_line t) xs of
        None \<Rightarrow> None
      | Some (x, rest) \<Rightarrow> map_option (\<lambda>(is, left_over). (snd x # is, left_over)) (match_deposit_targets ts rest))"

definition assert_expected_deposit :: "deposit_expected \<Rightarrow> deposit_snapshot \<Rightarrow> prep_error + nat list" where
  "assert_expected_deposit expected actual =
     (if deposit_id actual \<noteq> dexp_id expected \<or> deposit_total actual \<noteq> dexp_total expected
         \<or> deposit_to actual \<noteq> dexp_to expected \<or> deposit_date actual \<noteq> dexp_date expected
         \<or> deposit_mode actual \<noteq> dexp_mode expected \<or> deposit_total_tax actual \<noteq> dexp_total_tax expected
         \<or> deposit_preserved actual \<noteq> dexp_preserved expected
      then Inl StateDrift
      else case remove_untouched (canonical_deposit_line \<circ> fst) (dexp_untouched expected)
                  (zip (deposit_lines actual) [0..<length (deposit_lines actual)]) of
             None \<Rightarrow> Inl StateDrift
           | Some remaining \<Rightarrow>
               (case match_deposit_targets (dexp_targets expected) remaining of
                  Some (is, []) \<Rightarrow> Inr is
                | _ \<Rightarrow> Inl StateDrift))"

definition before_deposit_targets :: "deposit_prepared \<Rightarrow> prep_error + deposit_line list" where
  "before_deposit_targets prepared =
     (case remove_untouched canonical_deposit_line (dexp_untouched (dp_expected prepared)) (deposit_lines (dp_before prepared)) of
        None \<Rightarrow> Inl DepositUnsupported
      | Some [] \<Rightarrow> Inl DepositUnsupported
      | Some ls \<Rightarrow> Inr ls)"

definition optional_value :: "string \<Rightarrow> json \<Rightarrow> fields" where
  "optional_value k v = (if v = JNull then [] else [(js k, v)])"

definition deposit_line_to_raw :: "deposit_line \<Rightarrow> prep_error + json" where
  "deposit_line_to_raw line =
     on_ok (required_identity (Some (dep_account line))) (\<lambda>account.
     on_ok (deposit_money (of_cents (dep_amount line))) (\<lambda>amount.
     Inr (JObj
       (optional_value ''Id'' (dep_id line) @ [(js ''Amount'', amount)] @ optional_value ''Description'' (dep_description line)
        @ [(js ''DetailType'', JStr (js deposit_detail_name)),
           (js deposit_detail_name, JObj
             (ref_field ''AccountRef'' (JStr account)
              # optional_ref ''Entity'' (dep_entity line) @ optional_ref ''PaymentMethodRef'' (dep_method line)
              @ optional_ref ''ClassRef'' (dep_class line) @ optional_ref ''TaxCodeRef'' (dep_code line)
              @ optional_value ''TaxApplicableOn'' (dep_applicable line)))]))))"

fun restore_deposit_lines :: "deposit_line list \<Rightarrow> (jstring \<times> json) list \<Rightarrow> prep_error + json list" where
  "restore_deposit_lines [] untouched = Inr []"
| "restore_deposit_lines (l # ls) untouched =
     (case take_first (\<lambda>u. fst u = canonical_deposit_line l) untouched of
        None \<Rightarrow> on_ok (deposit_line_to_raw l) (\<lambda>r. on_ok (restore_deposit_lines ls untouched) (\<lambda>rs. Inr (r # rs)))
      | Some (u, rest) \<Rightarrow> on_ok (restore_deposit_lines ls rest) (\<lambda>rs. Inr (snd u # rs)))"

definition prepare_deposit_restore ::
  "(jstring \<Rightarrow> jstring) \<Rightarrow> json \<Rightarrow> deposit_prepared \<Rightarrow> jstring \<Rightarrow> prep_error + deposit_prepared" where
  "prepare_deposit_restore digest raw prepared request_id =
     (if trim request_id = [] then Inl ReferenceMissing
      else if dp_operation prepared \<noteq> Recategorize \<or> dp_type prepared \<noteq> js ''Deposit'' then Inl DepositUnsupported
      else on_ok (map_deposit_snapshot digest raw) (\<lambda>current.
           on_ok (assert_expected_deposit (dp_expected prepared) current) (\<lambda>targets.
           on_ok (before_deposit_targets prepared) (\<lambda>befores.
             let kept = without_indexes targets (deposit_lines current); before = dp_before prepared
             in on_ok (restore_deposit_lines (deposit_lines before)
                         (zip (map canonical_deposit_line kept) (without_indexes targets (raw_lines raw)))) (\<lambda>restored.
                on_ok (map_ok (\<lambda>l. on_ok (deposit_line_to_raw l) (deposit_line_of digest)) befores) (\<lambda>new_targets.
                  let body = deposit_body raw (deposit_token current) restored
                        (if deposit_mode before = JNull then None else Some (deposit_mode before))
                  in Inr (deposit_prepared_write digest Restore request_id body current
                       (deposit_expected_base before (deposit_mode before) (deposit_total_tax before) new_targets
                          (map canonical_deposit_line kept)))))))))"

end
