(* ===== verification/DepositProofs.thy ===== *)
theory DepositProofs
  imports DepositPrep VerifyProofs
begin

text \<open>
  The preparation of a deposit (\<open>lib/qbo/depositTax.ts\<close>): what it keeps and moves, and that
  what it writes verifies once it is stored.
\<close>

section \<open>Fields\<close>

declare normalized_clone.simps(6) [simp del] normalized_clone.simps(7) [simp del]

lemma map_of_skip: "x \<notin> fst ` set fs \<Longrightarrow> map_of (fs @ gs) x = map_of gs x"
  by (simp add: map_add_dom_app_simps(3) dom_map_of_conv_image_fst)

lemma defined_keys: "fst ` set (defined_fields kvs) \<subseteq> js ` fst ` set kvs"
  by (force simp: defined_fields_def List.map_filter_def)

lemma map_of_defined: "x \<notin> js ` fst ` set kvs \<Longrightarrow> map_of (defined_fields kvs @ gs) x = map_of gs x"
  using defined_keys [of kvs] by (intro map_of_skip) auto

lemma clone_defined:
  assumes "\<And>k v. (k, Some v) \<in> set kvs \<Longrightarrow> normalized_clone v = v"
  shows "map (\<lambda>f. (fst f, normalized_clone (snd f))) (defined_fields kvs) = defined_fields kvs"
  using assms by (intro map_idI) (auto simp: defined_fields_def List.map_filter_def split: option.splits)

lemma deposit_ref_clone [simp]: "deposit_ref (normalized_clone raw) k = map_option normalized_clone (deposit_ref raw k)"
  by (simp add: deposit_ref_def deposit_detail_def)

lemma deposit_money_exact:
  assumes "deposit_money v = Inr m"
  shows "exact_cents (Some m) = Inr (cents_of v)" "m = JNum (dollars (cents_of v))" "money_cents v"
  using assms by (auto simp: deposit_money_def Let_def on_ok_Inr split: if_splits)

lemma staged_deposit_raw:
  assumes "staged_line_to_deposit_raw line mode preserved replaced keep_id = Inr raw"
  obtains account tax_fields id_fields amount where "staged_category line = JStr account" "trim account \<noteq> []"
    "deposit_money (staged_subtotal line) = Inr amount" "id_fields = [] \<or> (\<exists>i. id_fields = [(js ''Id'', JStr i)])"
    "list_all (\<lambda>f. normalized_clone (snd f) = snd f) tax_fields"
    "raw = JObj
       (id_fields @ [(js ''Amount'', amount), (js ''DetailType'', JStr (js deposit_detail_name))]
        @ defined_fields [(''Description'', if staged_memo line = JNull then get replaced ''Description'' else Some (staged_memo line))]
        @ [(js deposit_detail_name, JObj
             (ref_field ''AccountRef'' (JStr account)
              # defined_fields [(''Entity'', fst preserved), (''PaymentMethodRef'', fst (snd preserved)), (''ClassRef'', snd (snd preserved))]
              @ tax_fields))])"
proof -
  from assms obtain account tax_fields id_fields amount where r: "staged_category line = JStr account" "trim account \<noteq> []"
    "(if mode \<noteq> NotApplicable
      then on_ok (required_identity (Some (staged_code line))) (\<lambda>code.
           Inr [ref_field ''TaxCodeRef'' (JStr code), (js ''TaxApplicableOn'', JStr (js ''Sales''))])
      else if staged_code line \<noteq> JNull then Inl DepositUnsupported else Inr []) = Inr tax_fields"
    "(if get replaced ''Id'' = None \<or> \<not> keep_id then Inr []
      else on_ok (required_identity (get replaced ''Id'')) (\<lambda>i. Inr [(js ''Id'', JStr i)])) = Inr id_fields"
    "deposit_money (staged_subtotal line) = Inr amount"
    "raw = JObj
       (id_fields @ [(js ''Amount'', amount), (js ''DetailType'', JStr (js deposit_detail_name))]
        @ defined_fields [(''Description'', if staged_memo line = JNull then get replaced ''Description'' else Some (staged_memo line))]
        @ [(js deposit_detail_name, JObj
             (ref_field ''AccountRef'' (JStr account)
              # defined_fields [(''Entity'', fst preserved), (''PaymentMethodRef'', fst (snd preserved)), (''ClassRef'', snd (snd preserved))]
              @ tax_fields))])"
    unfolding staged_line_to_deposit_raw_def on_ok_Inr required_identity_Inr if_Inl_Inr sum.inject option.inject by blast
  have "list_all (\<lambda>f. normalized_clone (snd f) = snd f) tax_fields"
    using r(3) by (auto simp: on_ok_Inr split: if_splits)
  moreover have "id_fields = [] \<or> (\<exists>i. id_fields = [(js ''Id'', JStr i)])"
    using r(4) by (auto simp: on_ok_Inr split: if_splits)
  ultimately show thesis using that r(1,2,5,6) by blast
qed

lemma staged_deposit_fields:
  assumes "staged_line_to_deposit_raw line mode preserved replaced keep_id = Inr raw"
  shows "deposit_ref raw ''AccountRef'' = Some (staged_category line)" "amount_or_zero raw = get raw ''Amount''"
    "exact_cents (get raw ''Amount'') = Inr (cents_of (staged_subtotal line))"
proof -
  have "deposit_ref raw ''AccountRef'' = Some (staged_category line)
    \<and> (\<exists>amount. deposit_money (staged_subtotal line) = Inr amount \<and> get raw ''Amount'' = Some amount)"
    using assms by (elim staged_deposit_raw disjE exE) (simp_all add: deposit_ref_def deposit_detail_def chain_def map_of_defined del: map_of_append)
  then obtain amount where a: "deposit_money (staged_subtotal line) = Inr amount" "get raw ''Amount'' = Some amount"
    "deposit_ref raw ''AccountRef'' = Some (staged_category line)" by blast
  show "deposit_ref raw ''AccountRef'' = Some (staged_category line)" by (rule a(3))
  show "exact_cents (get raw ''Amount'') = Inr (cents_of (staged_subtotal line))"
    using deposit_money_exact(1) [OF a(1)] by (simp only: a(2))
  show "amount_or_zero raw = get raw ''Amount''" using deposit_money_exact(2) [OF a(1)] a(2) by (simp add: amount_or_zero_def)
qed

lemma dollars_is_finite: "exact_cents (Some (JNum v)) = Inr c \<Longrightarrow> normalized_clone (JNum v) = JNum v"
  using exact_cents_finite by simp

lemma staged_deposit_clone:
  assumes "staged_line_to_deposit_raw line mode preserved replaced keep_id = Inr raw" "normalized_clone (staged_memo line) = staged_memo line"
    "normalized_clone replaced = replaced"
    "\<And>v. Some v \<in> {fst preserved, fst (snd preserved), snd (snd preserved)} \<Longrightarrow> normalized_clone v = v"
  shows "normalized_clone raw = raw"
proof -
  have "map_option normalized_clone (get replaced ''Description'') = get replaced ''Description''"
    using get_clone [of replaced "''Description''"] assms(3) by simp
  then have d: "normalized_clone v = v" if "get replaced ''Description'' = Some v" for v using that by simp
  from assms(1) show ?thesis
  proof (rule staged_deposit_raw)
    fix account tax_fields id_fields amount
    assume r: "deposit_money (staged_subtotal line) = Inr amount" "id_fields = [] \<or> (\<exists>i. id_fields = [(js ''Id'', JStr i)])"
      "list_all (\<lambda>f. normalized_clone (snd f) = snd f) tax_fields"
      "raw = JObj
       (id_fields @ [(js ''Amount'', amount), (js ''DetailType'', JStr (js deposit_detail_name))]
        @ defined_fields [(''Description'', if staged_memo line = JNull then get replaced ''Description'' else Some (staged_memo line))]
        @ [(js deposit_detail_name, JObj
             (ref_field ''AccountRef'' (JStr account)
              # defined_fields [(''Entity'', fst preserved), (''PaymentMethodRef'', fst (snd preserved)), (''ClassRef'', snd (snd preserved))]
              @ tax_fields))])"
    have "normalized_clone amount = amount" using deposit_money_exact(1,2) [OF r(1)] dollars_is_finite by metis
    moreover have "map (\<lambda>f. (fst f, normalized_clone (snd f))) tax_fields = tax_fields"
      using r(3) by (induction tax_fields) auto
    moreover have "map (\<lambda>f. (fst f, normalized_clone (snd f))) id_fields = id_fields" using r(2) by auto
    moreover have "map (\<lambda>f. (fst f, normalized_clone (snd f)))
        (defined_fields [(''Entity'', fst preserved), (''PaymentMethodRef'', fst (snd preserved)), (''ClassRef'', snd (snd preserved))])
      = defined_fields [(''Entity'', fst preserved), (''PaymentMethodRef'', fst (snd preserved)), (''ClassRef'', snd (snd preserved))]"
      using assms(4) by (intro clone_defined) auto
    moreover have "map (\<lambda>f. (fst f, normalized_clone (snd f)))
        (defined_fields [(''Description'', if staged_memo line = JNull then get replaced ''Description'' else Some (staged_memo line))])
      = defined_fields [(''Description'', if staged_memo line = JNull then get replaced ''Description'' else Some (staged_memo line))]"
      using assms(2) d by (intro clone_defined) (auto split: if_splits)
    ultimately show ?thesis unfolding r(4) by (simp only: clone_obj map_append list.map fst_conv snd_conv normalized_clone.simps)
  qed
qed

section \<open>The stages of a preparation\<close>

lemma deposit_snapshot_Inr:
  assumes "map_deposit_snapshot digest raw = Inr snap"
  shows "get raw ''Line'' = Some (JArr (raw_lines raw))"
    "list_all2 (\<lambda>r l. deposit_line_of digest r = Inr l) (raw_lines raw) (deposit_lines snap)"
    "get raw ''SyncToken'' = Some (JStr (deposit_token snap))" "trim (deposit_token snap) \<noteq> []"
    "deposit_mode snap = nullish (get raw ''GlobalTaxCalculation'')"
proof -
  have "get raw ''Line'' = Some (JArr (raw_lines raw))
    \<and> list_all2 (\<lambda>r l. deposit_line_of digest r = Inr l) (raw_lines raw) (deposit_lines snap)
    \<and> get raw ''SyncToken'' = Some (JStr (deposit_token snap)) \<and> trim (deposit_token snap) \<noteq> []
    \<and> deposit_mode snap = nullish (get raw ''GlobalTaxCalculation'')"
    using assms unfolding map_deposit_snapshot_def raw_lines_def
    by (auto simp: on_ok_Inr map_ok_Inr Let_def non_blank_Some split: option.splits json.splits)
  then show "get raw ''Line'' = Some (JArr (raw_lines raw))"
    "list_all2 (\<lambda>r l. deposit_line_of digest r = Inr l) (raw_lines raw) (deposit_lines snap)"
    "get raw ''SyncToken'' = Some (JStr (deposit_token snap))" "trim (deposit_token snap) \<noteq> []"
    "deposit_mode snap = nullish (get raw ''GlobalTaxCalculation'')" by blast+
qed

lemma deposit_holding_ok:
  "deposit_holding_indexes ids i ls = Inr is \<Longrightarrow>
     is = filter (\<lambda>j. deposit_held_in ids (ls ! (j - i))) [i..<i + length ls]
     \<and> (\<forall>l \<in> set ls. deposit_held_in ids l \<longrightarrow> deposit_holding_line_ok l = Inr ())"
proof (induction ids i ls arbitrary: "is" rule: deposit_holding_indexes.induct)
  case (2 ids i l ls)
  have shift: "filter (\<lambda>j. deposit_held_in ids ((l # ls) ! (j - i))) [Suc i..<i + length (l # ls)]
      = filter (\<lambda>j. deposit_held_in ids (ls ! (j - Suc i))) [Suc i..<Suc i + length ls]"
    by (intro filter_cong) (auto simp: nth_Cons')
  have split: "[i..<i + length (l # ls)] = i # [Suc i..<i + length (l # ls)]" by (simp add: upt_rec)
  show ?case
  proof (cases "deposit_held_in ids l")
    case True
    then obtain rest where r: "deposit_holding_line_ok l = Inr ()" "deposit_holding_indexes ids (Suc i) ls = Inr rest" "is = i # rest"
      using 2(3) by (auto simp: on_ok_Inr)
    then show ?thesis using 2(1) [OF True r(1,2)] True shift unfolding split by simp
  next
    case False
    then show ?thesis using 2(2) [OF False] 2(3) shift unfolding split by simp
  qed
qed simp

lemma deposit_stages:
  assumes "prepare_deposit_recategorization digest raw ids staged before rid = Inr p"
  obtains current holding preserved new targets kept_tax aggregate where "map_deposit_snapshot digest raw = Inr current"
    "holding = filter (\<lambda>j. deposit_held_in ids (raw_lines raw ! j)) [0..<length (raw_lines raw)]"
    "assert_deposit_amounts staged current holding = Inr ()"
    "preserved_fields (map (\<lambda>i. raw_lines raw ! i) holding) = Inr preserved"
    "deposit_new_lines (map (\<lambda>i. raw_lines raw ! i) holding) staged preserved = Inr new"
    "map_ok (deposit_line_of digest) new = Inr targets"
    "p = deposit_prepared_write digest Recategorize rid
       (deposit_body raw (deposit_token current) (without_indexes holding (raw_lines raw) @ new) (Some (mode_json (staged_mode staged)))) current
       (deposit_expected_base current (mode_json (staged_mode staged)) (Some aggregate) targets
          (map canonical_deposit_line (without_indexes holding (deposit_lines current))))"
    "holding \<noteq> []" "length (staged_lines staged) = length holding \<or> length holding = 1"
proof -
  from assms obtain current holding where s: "map_deposit_snapshot digest raw = Inr current"
    "deposit_holding_indexes ids 0 (raw_lines raw) = Inr holding" "holding \<noteq> []"
    "prepare_deposit_lines digest raw staged current rid holding = Inr p"
    unfolding prepare_deposit_recategorization_def if_Inl_Inr on_ok_Inr by blast
  have h: "holding = filter (\<lambda>j. deposit_held_in ids (raw_lines raw ! j)) [0..<length (raw_lines raw)]"
    using deposit_holding_ok [OF s(2)] by simp
  have n: "length (staged_lines staged) = length holding \<or> length holding = 1"
    using s(4) unfolding prepare_deposit_lines_def Let_def if_Inl_Inr by simp
  show thesis
    using s(4) unfolding prepare_deposit_lines_def Let_def if_Inl_Inr on_ok_Inr sum.inject
    by (elim conjE exE) (rule that [OF s(1) h _ _ _ _ _ s(3) n], simp, assumption+, erule sym)
qed


lemma deposit_kept:
  assumes "map_deposit_snapshot digest raw = Inr cur"
    "holding = filter (\<lambda>j. deposit_held_in ids (raw_lines raw ! j)) [0..<length (raw_lines raw)]"
  shows "without_indexes holding (raw_lines raw) = filter (\<lambda>l. \<not> deposit_held_in ids l) (raw_lines raw)"
    "list_all2 (\<lambda>r l. deposit_line_of digest r = Inr l) (filter (\<lambda>l. \<not> deposit_held_in ids l) (raw_lines raw)) (without_indexes holding (deposit_lines cur))"
    "map (\<lambda>i. deposit_lines cur ! i) holding = filter (\<lambda>l. dep_account l \<in> JStr ` set ids) (deposit_lines cur)"
proof -
  note s = deposit_snapshot_Inr(2) [OF assms(1)]
  have len: "length (raw_lines raw) = length (deposit_lines cur)" using s by (rule list_all2_lengthD)
  have line: "deposit_held_in ids r \<longleftrightarrow> dep_account l \<in> JStr ` set ids" if "deposit_line_of digest r = Inr l" for r l
    using that by (auto simp: deposit_line_of_def on_ok_Inr deposit_held_in_def split: option.splits json.splits)
  have at: "deposit_held_in ids (raw_lines raw ! j) \<longleftrightarrow> dep_account (deposit_lines cur ! j) \<in> JStr ` set ids" if "j < length (raw_lines raw)" for j
    using that s by (intro line) (simp add: list_all2_conv_all_nth)
  have "without_indexes holding (deposit_lines cur) = filter (\<lambda>l. \<not> dep_account l \<in> JStr ` set ids) (deposit_lines cur)"
    by (rule without_indexes_filter) (use at len in \<open>auto simp: assms(2)\<close>)
  moreover have "list_all2 (\<lambda>r l. deposit_line_of digest r = Inr l) (filter (\<lambda>l. \<not> deposit_held_in ids l) (raw_lines raw))
      (filter (\<lambda>l. \<not> dep_account l \<in> JStr ` set ids) (deposit_lines cur))"
    using s by (induction rule: list_all2_induct) (auto simp: line)
  ultimately show "list_all2 (\<lambda>r l. deposit_line_of digest r = Inr l) (filter (\<lambda>l. \<not> deposit_held_in ids l) (raw_lines raw)) (without_indexes holding (deposit_lines cur))"
    by simp
  show "without_indexes holding (raw_lines raw) = filter (\<lambda>l. \<not> deposit_held_in ids l) (raw_lines raw)"
    by (rule without_indexes_filter) (auto simp: assms(2))
  have "holding = filter (\<lambda>j. dep_account (deposit_lines cur ! j) \<in> JStr ` set ids) [0..<length (deposit_lines cur)]"
    unfolding assms(2) len [symmetric] by (intro filter_cong) (auto simp: at)
  moreover have "map (\<lambda>i. xs ! i) (filter (\<lambda>j. P (xs ! j)) [0..<length xs]) = filter P xs" for P and xs :: "deposit_line list"
  proof -
    have "map (\<lambda>i. xs ! i) (filter (P \<circ> (\<lambda>i. xs ! i)) [0..<length xs]) = filter P xs" by (simp only: filter_map [symmetric] map_nth)
    then show ?thesis by (simp only: o_def)
  qed
  ultimately show "map (\<lambda>i. deposit_lines cur ! i) holding = filter (\<lambda>l. dep_account l \<in> JStr ` set ids) (deposit_lines cur)" by simp
qed

lemma deposit_amounts:
  assumes "assert_deposit_amounts staged current holding = Inr ()"
  shows "(\<Sum>l \<leftarrow> staged_lines staged. cents_of (staged_total l)) = (\<Sum>i \<leftarrow> holding. dep_amount (deposit_lines current ! i))"
    "staged_lines staged \<noteq> []"
proof -
  show "staged_lines staged \<noteq> []" using assms by (simp add: assert_deposit_amounts_def Let_def split: if_splits)
  have "first_deposit_fault (staged_mode staged) (staged_lines staged) = None"
    using assms by (simp add: assert_deposit_amounts_def Let_def split: if_splits option.splits)
  note parts = assms [unfolded assert_deposit_amounts_def Let_def this option.case if_Inl_Inr on_ok_Inr]
  then obtain subtotal tax whole held where w: "safe_cent_sum (map staged_total (staged_lines staged)) = Inr whole"
    "(of_cents subtotal, of_cents tax, of_cents whole) = staged_totals staged"
    "safe_cent_sum (map (\<lambda>i. of_cents (dep_amount (deposit_lines current ! i))) holding) = Inr held"
    "of_cents held = snd (snd (staged_totals staged))" by blast
  have "of_cents held = of_cents whole" using w(2) [symmetric] w(4) by simp
  then have "held = whole" by (simp add: of_cents_def)
  then show "(\<Sum>l \<leftarrow> staged_lines staged. cents_of (staged_total l)) = (\<Sum>i \<leftarrow> holding. dep_amount (deposit_lines current ! i))"
    using cent_sum_Inr [OF w(1)] cent_sum_Inr [OF w(3)] by (simp add: o_def)
qed

lemma deposit_new_lines_Inr:
  assumes "deposit_new_lines held staged preserved = Inr new" "length (staged_lines staged) = length held \<or> length held = 1"
  shows "list_all2 (\<lambda>line r. \<exists>replaced \<in> set held. \<exists>keep. staged_line_to_deposit_raw line (staged_mode staged) preserved replaced keep = Inr r)
    (staged_lines staged) new"
proof (rule list_all2_all_nthI)
  note l = assms(1) [unfolded deposit_new_lines_def map_ok_Inr]
  from list_all2_lengthD [OF l] show "length (staged_lines staged) = length new" by simp
  fix n assume n: "n < length (staged_lines staged)"
  have "staged_line_to_deposit_raw (staged_lines staged ! n) (staged_mode staged) preserved (held ! (if length held = 1 then 0 else n))
      (length held \<noteq> 1 \<or> n = 0) = Inr (new ! n)"
    using list_all2_nthD [OF l] n by (simp add: nth_enumerate_eq)
  moreover have "(if length held = 1 then 0 else n) < length held" using n assms(2) by auto
  ultimately show "\<exists>replaced \<in> set held. \<exists>keep. staged_line_to_deposit_raw (staged_lines staged ! n) (staged_mode staged) preserved replaced keep = Inr (new ! n)"
    by (meson nth_mem)
qed


lemma preserved_clone:
  assumes "preserved_fields lines = Inr m" "Some v \<in> {fst m, fst (snd m), snd (snd m)}" "lines \<noteq> []"
  shows "normalized_clone v = v"
proof -
  have ref: "normalized_clone w = w" if "optional_reference u = Inr (Some w)" for u w
    using that by (cases u) (auto simp: on_ok_Inr split: if_splits option.splits json.splits)
  obtain ms where ms: "list_all2 (\<lambda>r n. modeled_fields r = Inr n) lines ms" "m = hd ms"
    using assms(1) by (auto simp: preserved_fields_def on_ok_Inr map_ok_Inr split: if_splits)
  have "modeled_fields (hd lines) = Inr m" using ms assms(3) by (cases lines; cases ms) auto
  then show ?thesis using assms(2) ref by (auto simp: modeled_fields_def on_ok_Inr)
qed

lemma raw_lines_deposit_body [simp]: "raw_lines (deposit_body raw token lines (Some m)) = map normalized_clone lines"
  unfolding deposit_body_def raw_lines_clone by (simp add: raw_lines_def)

section \<open>What a recategorization writes\<close>

text \<open>
  C39. The body of a deposit recategorization keeps the lines outside the holding accounts as they
  are and in order, and adds one line per staged line that posts the staged net amount to the
  staged category; the staged gross amounts add up to the amount of the lines they replace.
\<close>

theorem deposit_recategorization_moves_holding:
  assumes "prepare_deposit_recategorization digest raw ids staged before rid = Inr p"
  shows "(\<exists>new. raw_lines (dp_body p) = map normalized_clone (filter (\<lambda>l. \<not> deposit_held_in ids l) (raw_lines raw) @ new)
      \<and> map (\<lambda>l. (deposit_ref l ''AccountRef'', exact_cents (get l ''Amount''))) new
        = map (\<lambda>l. (Some (staged_category l), Inr (cents_of (staged_subtotal l)))) (staged_lines staged))
    \<and> (\<Sum>l \<leftarrow> staged_lines staged. cents_of (staged_total l))
      = (\<Sum>l \<leftarrow> filter (\<lambda>l. dep_account l \<in> JStr ` set ids) (deposit_lines (dp_before p)). dep_amount l)"
proof -
  from assms obtain current holding preserved new targets aggregate where s: "map_deposit_snapshot digest raw = Inr current"
    "holding = filter (\<lambda>j. deposit_held_in ids (raw_lines raw ! j)) [0..<length (raw_lines raw)]"
    "assert_deposit_amounts staged current holding = Inr ()"
    "deposit_new_lines (map (\<lambda>i. raw_lines raw ! i) holding) staged preserved = Inr new"
    "p = deposit_prepared_write digest Recategorize rid
       (deposit_body raw (deposit_token current) (without_indexes holding (raw_lines raw) @ new) (Some (mode_json (staged_mode staged)))) current
       (deposit_expected_base current (mode_json (staged_mode staged)) (Some aggregate) targets
          (map canonical_deposit_line (without_indexes holding (deposit_lines current))))"
    "length (staged_lines staged) = length holding \<or> length holding = 1"
    by (rule deposit_stages) blast
  note k = deposit_kept [OF s(1,2)]
  have "list_all2 (\<lambda>line r. (deposit_ref r ''AccountRef'', exact_cents (get r ''Amount'')) = (Some (staged_category line), Inr (cents_of (staged_subtotal line))))
      (staged_lines staged) new"
    using deposit_new_lines_Inr [OF s(4), unfolded length_map, OF s(6)]
    by (rule list_all2_mono) (auto simp: staged_deposit_fields)
  then have posts: "map (\<lambda>l. (deposit_ref l ''AccountRef'', exact_cents (get l ''Amount''))) new
      = map (\<lambda>l. (Some (staged_category l), Inr (cents_of (staged_subtotal l)))) (staged_lines staged)"
    by (induction rule: list_all2_induct) auto
  have "raw_lines (dp_body p) = map normalized_clone (filter (\<lambda>l. \<not> deposit_held_in ids l) (raw_lines raw) @ new)"
    by (simp add: s(5) deposit_prepared_write_def k(1))
  moreover have "(\<Sum>l \<leftarrow> staged_lines staged. cents_of (staged_total l))
      = (\<Sum>l \<leftarrow> filter (\<lambda>l. dep_account l \<in> JStr ` set ids) (deposit_lines (dp_before p)). dep_amount l)"
    unfolding deposit_amounts(1) [OF s(3)] by (simp add: s(5) deposit_prepared_write_def k(3) [symmetric] o_def)
  ultimately show ?thesis using posts by blast
qed


section \<open>A stored recategorization verifies\<close>

text \<open>
  The deposit QuickBooks holds after it has stored a body: the body under a new token, with the
  tax QuickBooks computed for it.
\<close>

definition stored_deposit :: "jstring \<Rightarrow> json \<Rightarrow> json \<Rightarrow> json" where
  "stored_deposit token tax body =
     JObj (spread (Some (update_field ''SyncToken'' (\<lambda>v. JStr token) body)) @ [(js ''TxnTaxDetail'', JObj [(js ''TotalTax'', tax)])])"

lemma canonical_deposit_same: "canonical_deposit_line_hash = canonical_deposit_line"
  by (intro ext) (simp add: canonical_deposit_line_hash_def canonical_deposit_line_def)

lemma take_own_texts:
  "take_targets (\<lambda>h l. canonical_deposit_line_hash l = h) (map canonical_deposit_line ks) (ks @ xs) = Some xs"
  by (induction ks) (simp_all add: canonical_deposit_same)

lemma take_own_targets: "take_targets deposit_line_verified ts ts = Some []"
  by (induction ts) (simp_all add: deposit_line_verified_def)

lemma get_stored_deposit:
  assumes "k \<notin> {''SyncToken'', ''Line'', ''GlobalTaxCalculation'', ''TxnTaxDetail'', ''HomeTotalAmt'', ''status''}"
  shows "get (stored_deposit token tax (deposit_body raw t lines (Some m))) k = map_option normalized_clone (get raw k)"
  using assms by (cases raw) (auto simp: stored_deposit_def deposit_body_def update_field_def map_add_def map_of_map_snd split: option.splits)

lemma get_stored_parts:
  assumes "body = deposit_body raw t lines (Some m)"
  shows "get (stored_deposit token tax body) ''SyncToken'' = Some (JStr token)"
    "get (stored_deposit token tax body) ''Line'' = Some (JArr (map normalized_clone lines))"
    "get (stored_deposit token tax body) ''GlobalTaxCalculation'' = Some (normalized_clone m)"
    "get (stored_deposit token tax body) ''TxnTaxDetail'' = Some (JObj [(js ''TotalTax'', tax)])"
  by (simp_all add: assms stored_deposit_def deposit_body_def update_field_def map_add_def map_of_map_snd split: option.splits)

lemma preserved_stored_deposit:
  assumes "normalized_clone raw = raw"
  shows "preserved_deposit (stored_deposit token tax (deposit_body raw t lines (Some m))) = preserved_deposit raw"
proof -
  obtain fs where raw: "spread (Some raw) = fs" "map (\<lambda>f. (fst f, normalized_clone (snd f))) fs = fs"
    using assms by (cases raw) simp_all
  define K where "K = js ` set [''Id'', ''SyncToken'', ''TotalAmt'', ''Line'', ''GlobalTaxCalculation'', ''TxnTaxDetail'',
       ''HomeTotalAmt'', ''MetaData'', ''status'', ''sparse'', ''domain'']"
  have K: "js ''SyncToken'' \<in> K" "js ''Line'' \<in> K" "js ''GlobalTaxCalculation'' \<in> K" "js ''TxnTaxDetail'' \<in> K"
      "js ''HomeTotalAmt'' \<in> K" "js ''status'' \<in> K"
    by (simp_all add: K_def)
  have gone: "filter (\<lambda>f. fst f \<notin> K) (delete_field k gs) = filter (\<lambda>f. fst f \<notin> K) gs" if "js k \<in> K" for k gs
    using that by (auto simp: delete_field_def AList.delete_eq intro!: filter_cong)
  have "filter (\<lambda>f. fst f \<notin> K) (map (\<lambda>f. (fst f, normalized_clone (snd f))) fs) = map (\<lambda>f. (fst f, normalized_clone (snd f))) (filter (\<lambda>f. fst f \<notin> K) fs)"
    by (simp add: filter_map o_def)
  then have cloned: "map (\<lambda>f. (fst f, normalized_clone (snd f))) (filter (\<lambda>f. fst f \<notin> K) fs) = filter (\<lambda>f. fst f \<notin> K) fs"
    unfolding raw(2) by (rule sym)
  have "filter (\<lambda>f. fst f \<notin> K) (spread (Some (stored_deposit token tax (deposit_body raw t lines (Some m))))) = filter (\<lambda>f. fst f \<notin> K) fs"
    by (simp add: stored_deposit_def deposit_body_def raw(1) update_field_def map_of_map_snd filter_set_field filter_map o_def K cloned gone)
  then show ?thesis by (simp only: preserved_deposit_def without_fields_def foldr_delete raw(1) K_def)
qed

lemma deposit_snapshot_fields:
  assumes "map_deposit_snapshot digest raw = Inr a"
  shows "get raw ''Id'' = Some (JStr (deposit_id a))" "get raw ''TxnDate'' = Some (JStr (deposit_date a))"
    "exact_cents (get raw ''TotalAmt'') = Inr (deposit_total a)" 
    "chain (get raw ''DepositToAccountRef'') ''value'' = Some (deposit_to a)" "\<exists>s. deposit_to a = JStr s"
    "deposit_preserved a = fingerprint digest (preserved_deposit raw)"
    "chain (get raw ''TxnTaxDetail'') ''TotalTax'' = Some v \<Longrightarrow> exact_cents (Some v) = Inr c \<Longrightarrow> deposit_total_tax a = Some c"
proof -
  show "get raw ''Id'' = Some (JStr (deposit_id a))" "get raw ''TxnDate'' = Some (JStr (deposit_date a))"
    "exact_cents (get raw ''TotalAmt'') = Inr (deposit_total a)" 
    "chain (get raw ''DepositToAccountRef'') ''value'' = Some (deposit_to a)" "\<exists>s. deposit_to a = JStr s"
    "deposit_preserved a = fingerprint digest (preserved_deposit raw)"
    using assms unfolding map_deposit_snapshot_def
    by (auto simp: on_ok_Inr Let_def non_blank_Some required_identity_Inr split: option.splits json.splits)
  assume "chain (get raw ''TxnTaxDetail'') ''TotalTax'' = Some v" "exact_cents (Some v) = Inr c"
  then show "deposit_total_tax a = Some c"
    using assms unfolding map_deposit_snapshot_def
    by (auto simp: on_ok_Inr Let_def split: option.splits json.splits)
qed


lemma deposit_lines_unique:
  assumes "list_all2 (\<lambda>r l. deposit_line_of digest r = Inr l) rs ls" "list_all2 (\<lambda>r l. deposit_line_of digest r = Inr l) rs ks"
  shows "ls = ks"
proof -
  have inr: "map (deposit_line_of digest) rs = map Inr xs" if "list_all2 (\<lambda>r l. deposit_line_of digest r = Inr l) rs xs" for xs
    using that by (induction rule: list_all2_induct) simp_all
  have "map Inr ls = (map Inr ks :: (prep_error + deposit_line) list)" using inr [OF assms(1)] inr [OF assms(2)] by simp
  then show ?thesis by (simp add: inj_map_eq_map)
qed

lemma deposit_lines_clone:
  assumes "normalized_clone raw = raw" "l \<in> set (raw_lines raw)"
  shows "normalized_clone l = l"
proof -
  have "map normalized_clone (raw_lines raw) = raw_lines raw" using raw_lines_clone [of raw] assms(1) by simp
  then have "map normalized_clone (raw_lines raw) = map id (raw_lines raw)" by simp
  then show ?thesis using assms(2) unfolding map_eq_conv by simp
qed

text \<open>
  C40. A deposit recategorization that QuickBooks stores as it was sent, under whatever new token and
  with the tax the preparation expects, is verified: the read-back is not reported as drift.
\<close>

theorem stored_deposit_verifies:
  assumes "prepare_deposit_recategorization digest raw ids staged before rid = Inr p" "normalized_clone raw = raw"
    and "list_all (\<lambda>l. normalized_clone (staged_memo l) = staged_memo l) (staged_lines staged)"
    and "exact_cents (Some tax) = Inr c" "dexp_total_tax (dp_expected p) = Some c"
    and "map_deposit_snapshot digest (stored_deposit token tax (dp_body p)) = Inr a"
  shows "deposit_token a = token \<and> verify_deposit_result (dp_expected p) a = None"
proof -
  from assms(1) obtain current holding preserved new targets aggregate where s: "map_deposit_snapshot digest raw = Inr current"
    "holding = filter (\<lambda>j. deposit_held_in ids (raw_lines raw ! j)) [0..<length (raw_lines raw)]"
    "preserved_fields (map (\<lambda>i. raw_lines raw ! i) holding) = Inr preserved"
    "deposit_new_lines (map (\<lambda>i. raw_lines raw ! i) holding) staged preserved = Inr new"
    "map_ok (deposit_line_of digest) new = Inr targets"
    "p = deposit_prepared_write digest Recategorize rid
       (deposit_body raw (deposit_token current) (without_indexes holding (raw_lines raw) @ new) (Some (mode_json (staged_mode staged)))) current
       (deposit_expected_base current (mode_json (staged_mode staged)) (Some aggregate) targets
          (map canonical_deposit_line (without_indexes holding (deposit_lines current))))"
    "holding \<noteq> []" "length (staged_lines staged) = length holding \<or> length holding = 1"
    by (rule deposit_stages) blast
  let ?kept = "filter (\<lambda>l. \<not> deposit_held_in ids l) (raw_lines raw)" and ?mode = "mode_json (staged_mode staged)"
  note k = deposit_kept [OF s(1,2)]
  have body: "dp_body p = deposit_body raw (deposit_token current) (?kept @ new) (Some ?mode)" by (simp add: s(6) deposit_prepared_write_def k(1))
  let ?stored = "stored_deposit token tax (dp_body p)"
  note parts = get_stored_parts [OF body, of token tax]
  have held: "replaced \<in> set (raw_lines raw)" if "replaced \<in> set (map (\<lambda>i. raw_lines raw ! i) holding)" for replaced
    using that by (auto simp: s(2))
  note written = deposit_new_lines_Inr [OF s(4), unfolded length_map, OF s(8)]
  have new: "normalized_clone r = r" if "r \<in> set new" for r
  proof -
    obtain line replaced keep where l: "line \<in> set (staged_lines staged)" "replaced \<in> set (map (\<lambda>i. raw_lines raw ! i) holding)"
      "staged_line_to_deposit_raw line (staged_mode staged) preserved replaced keep = Inr r"
    proof -
      obtain n where n: "n < length new" "new ! n = r" using \<open>r \<in> set new\<close> by (auto simp: in_set_conv_nth)
      have "n < length (staged_lines staged)" using n(1) list_all2_lengthD [OF written] by simp
      with list_all2_nthD [OF written this] n(2) that show thesis by (meson nth_mem)
    qed
    show ?thesis
      by (rule staged_deposit_clone [OF l(3) _ deposit_lines_clone [OF assms(2) held [OF l(2)]]])
        (use assms(3) l(1) s(7) preserved_clone [OF s(3)] in \<open>auto simp: list_all_iff\<close>)
  qed
  have lines: "raw_lines ?stored = ?kept @ new"
    using deposit_lines_clone [OF assms(2)] new by (auto simp: raw_lines_def parts(2) intro!: map_idI)
  have "deposit_lines a = without_indexes holding (deposit_lines current) @ targets"
  proof (rule deposit_lines_unique)
    show "list_all2 (\<lambda>r l. deposit_line_of digest r = Inr l) (?kept @ new) (deposit_lines a)"
      using deposit_snapshot_Inr(2) [OF assms(6)] by (simp only: lines)
    show "list_all2 (\<lambda>r l. deposit_line_of digest r = Inr l) (?kept @ new) (without_indexes holding (deposit_lines current) @ targets)"
      using k(2) s(5) by (intro list_all2_appendI) (simp_all add: map_ok_Inr)
  qed
  moreover have "deposit_mode a = ?mode"
    using deposit_snapshot_Inr(5) [OF assms(6)] by (simp add: parts(3) mode_json_def)
  moreover have "deposit_token a = token" using deposit_snapshot_Inr(3) [OF assms(6)] by (simp add: parts(1))
  moreover have "deposit_total_tax a = Some c"
    by (rule deposit_snapshot_fields(7) [OF assms(6) _ assms(4)]) (simp add: parts(4) chain_def)
  moreover have "deposit_preserved a = deposit_preserved current"
    using deposit_snapshot_fields(6) [OF assms(6)] deposit_snapshot_fields(6) [OF s(1)]
    by (simp only: body preserved_stored_deposit [OF assms(2)])
  moreover have "get ?stored ''Id'' = get raw ''Id''" "get ?stored ''TxnDate'' = get raw ''TxnDate''" "get ?stored ''TotalAmt'' = get raw ''TotalAmt''"
      "get ?stored ''DepositToAccountRef'' = get raw ''DepositToAccountRef''"
    unfolding body using get_clone [of raw] assms(2) by (simp_all add: get_stored_deposit)
  then have "deposit_id a = deposit_id current" "deposit_date a = deposit_date current" "deposit_total a = deposit_total current"
      "deposit_to a = deposit_to current"
    using deposit_snapshot_fields(1-4) [OF assms(6)] deposit_snapshot_fields(1-4) [OF s(1)] by simp_all
  ultimately show ?thesis
    using assms(5) take_own_texts [of "without_indexes holding (deposit_lines current)" targets] take_own_targets [of targets]
    by (simp add: verify_deposit_result_def s(6) deposit_prepared_write_def deposit_expected_base_def)
qed

end
