(* ===== verification/DepositWitness.thy ===== *)
theory DepositWitness
  imports DepositProofs PurchaseWitness
begin

text \<open>
  The properties of the deposit preparation at a concrete deposit with one kept line and one
  holding line of a dollar each; the digest is any function.
\<close>

definition deposit_raw :: "string \<Rightarrow> string \<Rightarrow> json" where
  "deposit_raw i account = JObj
     [(js ''Id'', JStr (js i)), (js ''Amount'', JNum (Fin 1)), (js ''DetailType'', JStr (js deposit_detail_name)),
      (js deposit_detail_name, JObj [ref_field ''AccountRef'' (JStr (js account))])]"

definition sample_deposit :: json where
  "sample_deposit = JObj
     [(js ''Id'', JStr (js ''7'')), (js ''SyncToken'', JStr (js ''0'')), (js ''TxnDate'', JStr (js ''d'')),
      (js ''TotalAmt'', JNum (Fin 2)), ref_field ''DepositToAccountRef'' (JStr (js ''bank'')),
      (js ''GlobalTaxCalculation'', mode_json NotApplicable),
      (js ''Line'', JArr [deposit_raw ''1'' ''k'', deposit_raw ''2'' ''h''])]"

definition sample_deposit_line :: "(jstring \<Rightarrow> jstring) \<Rightarrow> string \<Rightarrow> string \<Rightarrow> deposit_line" where
  "sample_deposit_line digest i account =
     \<lparr>dep_id = JStr (js i), dep_amount = 100, dep_description = JNull, dep_account = JStr (js account), dep_entity = JNull,
      dep_method = JNull, dep_class = JNull, dep_code = JNull, dep_applicable = JNull,
      dep_raw_hash = fingerprint digest (deposit_raw i account),
      dep_target_hash = fingerprint digest (stable_target_line (deposit_raw i account))\<rparr>"

definition sample_deposit_snapshot :: "(jstring \<Rightarrow> jstring) \<Rightarrow> deposit_snapshot" where
  "sample_deposit_snapshot digest =
     \<lparr>deposit_id = js ''7'', deposit_token = js ''0'', deposit_total = 200, deposit_to = JStr (js ''bank''), deposit_date = js ''d'',
      deposit_mode = mode_json NotApplicable, deposit_total_tax = Some 0,
      deposit_preserved = fingerprint digest (preserved_deposit sample_deposit),
      deposit_lines = [sample_deposit_line digest ''1'' ''k'', sample_deposit_line digest ''2'' ''h'']\<rparr>"

definition deposit_staged :: staged_categorization where
  "deposit_staged =
     \<lparr>staged_disposition = None, staged_mode = NotApplicable, staged_totals = (Fin 100, Fin 0, Fin 100),
      staged_lines = [\<lparr>staged_idx = Fin 0, staged_subtotal = Fin 100, staged_tax = Fin 0, staged_total = Fin 100,
        staged_category = JStr (js ''new''), staged_code = JNull, staged_memo = JNull, staged_tags = None\<rparr>], staged_tag_ids = []\<rparr>"

lemma deposit_dollars: "exact_cents (Some (JNum (Fin 2))) = Inr 200" "exact_cents (Some (JNum (Fin 0))) = Inr 0"
  "dollars 100 = Fin 1"
proof -
  have d: "dollars 200 = Fin 2" "dollars 0 = Fin 0" "dollars 100 = Fin 1"
    using fl_of_int [of 2] fl_of_int [of 0] fl_of_int [of 1] by (simp_all add: dollars_def)
  show "exact_cents (Some (JNum (Fin 2))) = Inr 200" using exact_cents_dollars [of 200] d(1) by simp
  show "exact_cents (Some (JNum (Fin 0))) = Inr 0" using exact_cents_dollars [of 0] d(2) by simp
  show "dollars 100 = Fin 1" by (rule d(3))
qed

lemma deposit_raw_fields:
  "get (deposit_raw i account) ''Id'' = Some (JStr (js i))" "get (deposit_raw i account) ''Amount'' = Some (JNum (Fin 1))"
  "get (deposit_raw i account) ''DetailType'' = Some (JStr (js deposit_detail_name))" "get (deposit_raw i account) ''Description'' = None"
  "deposit_ref (deposit_raw i account) ''AccountRef'' = Some (JStr (js account))"
  "k \<noteq> ''AccountRef'' \<Longrightarrow> chain (deposit_detail (deposit_raw i account)) k = None"
  by (simp_all add: deposit_raw_def deposit_ref_def deposit_detail_def chain_def)

lemma deposit_raw_line: "deposit_line_of digest (deposit_raw i account) = Inr (sample_deposit_line digest i account)"
proof -
  have "amount_or_zero (deposit_raw i account) = Some (JNum (Fin 1))" by (simp add: amount_or_zero_def deposit_raw_fields)
  moreover have "k \<noteq> ''AccountRef'' \<Longrightarrow> deposit_ref (deposit_raw i account) k = None" for k
    unfolding deposit_ref_def by (subst deposit_raw_fields(6)) (simp_all add: chain_def)
  ultimately show ?thesis
    by (simp add: deposit_line_of_def one_dollar deposit_raw_fields sample_deposit_line_def del: exact_cents.simps)
qed

lemma deposit_sums: "safe_cent_sum [of_cents 100, of_cents 100] = Inr 200" "safe_cent_sum [of_cents 200, of_cents (- 200)] = Inr 0"
  "safe_cent_sum [of_cents 0, Fin 0] = Inr 0"
  by (simp_all add: of_cents_def money_cents_def max_exact_cents_value safe_int_def max_safe_def)

lemma deposit_taken: "map_deposit_snapshot digest sample_deposit = Inr (sample_deposit_snapshot digest)"
proof -
  have gets: "get sample_deposit ''Line'' = Some (JArr [deposit_raw ''1'' ''k'', deposit_raw ''2'' ''h''])"
    "get sample_deposit ''Id'' = Some (JStr (js ''7''))" "get sample_deposit ''SyncToken'' = Some (JStr (js ''0''))"
    "get sample_deposit ''TxnDate'' = Some (JStr (js ''d''))" "get sample_deposit ''TotalAmt'' = Some (JNum (Fin 2))"
    "get sample_deposit ''GlobalTaxCalculation'' = Some (mode_json NotApplicable)" "get sample_deposit ''TxnTaxDetail'' = None"
    "chain (get sample_deposit ''DepositToAccountRef'') ''value'' = Some (JStr (js ''bank''))" "chain (None :: json option) ''TotalTax'' = None"
    by (simp_all add: sample_deposit_def chain_def)
  have "map (of_cents \<circ> dep_amount) [sample_deposit_line digest ''1'' ''k'', sample_deposit_line digest ''2'' ''h''] = [of_cents 100, of_cents 100]"
    by (simp add: sample_deposit_line_def)
  then show ?thesis
    by (simp add: map_deposit_snapshot_def gets deposit_raw_line deposit_dollars sample_deposit_snapshot_def deposit_sums
        del: exact_cents.simps cent_sum_from.simps)
qed

lemma deposit_clone: "normalized_clone (deposit_raw i account) = deposit_raw i account" "normalized_clone sample_deposit = sample_deposit"
  by (simp_all add: deposit_raw_def sample_deposit_def mode_json_def)

lemma deposit_holding: "deposit_holding_indexes [js ''h''] 0 (raw_lines sample_deposit) = Inr [1]"
proof -
  have "deposit_holding_line_ok (deposit_raw ''2'' ''h'') = Inr ()"
    using one_dollar
    by (simp add: deposit_holding_line_ok_def deposit_raw_fields del: exact_cents.simps)
       (simp add: deposit_raw_def assert_restorable_holding_line_def only_fields_def restorable_reference_def deposit_detail_def)
  moreover have "\<not> deposit_held_in [js ''h''] (deposit_raw ''1'' ''k'')" "deposit_held_in [js ''h''] (deposit_raw ''2'' ''h'')"
    by (simp_all add: deposit_held_in_def deposit_raw_fields)
  moreover have "raw_lines sample_deposit = [deposit_raw ''1'' ''k'', deposit_raw ''2'' ''h'']" by (simp add: raw_lines_def sample_deposit_def)
  ultimately show ?thesis by simp
qed

definition deposit_sent :: json where
  "deposit_sent = JObj
     [(js ''Id'', JStr (js ''7'')), (js ''SyncToken'', JStr (js ''0'')), (js ''TxnDate'', JStr (js ''d'')),
      (js ''TotalAmt'', JNum (Fin 2)), ref_field ''DepositToAccountRef'' (JStr (js ''bank'')),
      (js ''GlobalTaxCalculation'', mode_json NotApplicable),
      (js ''Line'', JArr [deposit_raw ''1'' ''k'', deposit_raw ''2'' ''new''])]"

lemma deposit_written:
  "staged_line_to_deposit_raw (hd (staged_lines deposit_staged)) NotApplicable (None, None, None) (deposit_raw ''2'' ''h'') True
     = Inr (deposit_raw ''2'' ''new'')"
proof -
  have "deposit_money (Fin 100) = Inr (JNum (Fin 1))"
    using one_dollar by (simp add: deposit_money_def money_cents_def max_exact_cents_value safe_int_def max_safe_def deposit_dollars del: exact_cents.simps)
  then show ?thesis
    by (simp add: staged_line_to_deposit_raw_def deposit_staged_def deposit_raw_fields defined_fields_def List.map_filter_def safe_int_def max_safe_def)
       (simp add: deposit_raw_def)
qed

lemma deposit_prepared_sample:
  "prepare_deposit_recategorization digest sample_deposit [js ''h''] deposit_staged (sample_deposit_snapshot digest) (js ''r'')
     = Inr (deposit_prepared_write digest Recategorize (js ''r'') deposit_sent (sample_deposit_snapshot digest)
         (deposit_expected_base (sample_deposit_snapshot digest) (mode_json NotApplicable) (Some 0) [sample_deposit_line digest ''2'' ''new'']
            [canonical_deposit_line (sample_deposit_line digest ''1'' ''k'')]))"
proof -
  have amounts: "assert_deposit_amounts deposit_staged (sample_deposit_snapshot digest) [Suc 0] = Inr ()"
    by (simp add: assert_deposit_amounts_def deposit_staged_def sample_deposit_snapshot_def sample_deposit_line_def deposit_staged_fault_def
        money_cents_def max_exact_cents_value safe_int_def max_safe_def of_cents_def Let_def)
  have lines: "raw_lines sample_deposit = [deposit_raw ''1'' ''k'', deposit_raw ''2'' ''h'']" by (simp add: raw_lines_def sample_deposit_def)
  have snap: "deposit_lines (sample_deposit_snapshot digest) = [sample_deposit_line digest ''1'' ''k'', sample_deposit_line digest ''2'' ''h'']"
    "deposit_token (sample_deposit_snapshot digest) = js ''0''"
    by (simp_all add: sample_deposit_snapshot_def)
  have kept: "preserved_fields [deposit_raw ''2'' ''h''] = Inr (None, None, None)"
    by (simp add: preserved_fields_def modeled_fields_def deposit_raw_fields)
  have new: "deposit_new_lines [deposit_raw ''2'' ''h''] deposit_staged (None, None, None) = Inr [deposit_raw ''2'' ''new'']"
    using deposit_written by (simp add: deposit_new_lines_def deposit_staged_def)
  have body: "deposit_body sample_deposit (js ''0'') [deposit_raw ''1'' ''k'', deposit_raw ''2'' ''new''] (Some (mode_json NotApplicable)) = deposit_sent"
    by (simp add: deposit_body_def sample_deposit_def deposit_sent_def set_field_def delete_field_def mode_json_def deposit_clone)
  have bearing: "\<not> deposit_tax_bearing (sample_deposit_line digest i account)" for i account
    by (simp add: deposit_tax_bearing_def sample_deposit_line_def)
  have "prepare_deposit_lines digest sample_deposit deposit_staged (sample_deposit_snapshot digest) (js ''r'') [Suc 0]
     = Inr (deposit_prepared_write digest Recategorize (js ''r'') deposit_sent (sample_deposit_snapshot digest)
         (deposit_expected_base (sample_deposit_snapshot digest) (mode_json NotApplicable) (Some 0) [sample_deposit_line digest ''2'' ''new'']
            [canonical_deposit_line (sample_deposit_line digest ''1'' ''k'')]))"
    by (simp add: prepare_deposit_lines_def amounts lines snap kept new body bearing deposit_kept_tax_def deposit_raw_line without_indexes_def
        deposit_sums Let_def del: cent_sum_from.simps)
       (simp add: deposit_staged_def deposit_sums body del: cent_sum_from.simps)
  then show ?thesis
    by (simp add: prepare_deposit_recategorization_def deposit_taken assert_deposit_equals_before_def deposit_holding)
qed

theorem deposit_recategorization_moves_holding_witness:
  "\<exists>p. prepare_deposit_recategorization id sample_deposit [js ''h''] deposit_staged (sample_deposit_snapshot id) (js ''r'') = Inr p
    \<and> (\<exists>new. raw_lines (dp_body p) = map normalized_clone (filter (\<lambda>l. \<not> deposit_held_in [js ''h''] l) (raw_lines sample_deposit) @ new)
      \<and> map (\<lambda>l. (deposit_ref l ''AccountRef'', exact_cents (get l ''Amount''))) new
        = map (\<lambda>l. (Some (staged_category l), Inr (cents_of (staged_subtotal l)))) (staged_lines deposit_staged))"
  using deposit_recategorization_moves_holding [OF deposit_prepared_sample] deposit_prepared_sample by blast

lemma deposit_stored_taken:
  "\<exists>a. map_deposit_snapshot digest (stored_deposit (js ''1'') (JNum (Fin 0)) deposit_sent) = Inr a"
proof -
  let ?s = "stored_deposit (js ''1'') (JNum (Fin 0)) deposit_sent"
  have gets: "get ?s ''Line'' = Some (JArr [deposit_raw ''1'' ''k'', deposit_raw ''2'' ''new''])"
    "get ?s ''Id'' = Some (JStr (js ''7''))" "get ?s ''SyncToken'' = Some (JStr (js ''1''))"
    "get ?s ''TxnDate'' = Some (JStr (js ''d''))" "get ?s ''TotalAmt'' = Some (JNum (Fin 2))"
    "get ?s ''GlobalTaxCalculation'' = Some (mode_json NotApplicable)" "chain (get ?s ''TxnTaxDetail'') ''TotalTax'' = Some (JNum (Fin 0))"
    "chain (get ?s ''DepositToAccountRef'') ''value'' = Some (JStr (js ''bank''))"
    by (simp_all add: stored_deposit_def deposit_sent_def update_field_def set_field_def chain_def)
  have "map (of_cents \<circ> dep_amount) [sample_deposit_line digest ''1'' ''k'', sample_deposit_line digest ''2'' ''new''] = [of_cents 100, of_cents 100]"
    by (simp add: sample_deposit_line_def)
  then show ?thesis
    by (simp add: map_deposit_snapshot_def gets deposit_raw_line deposit_dollars deposit_sums del: exact_cents.simps cent_sum_from.simps)
qed

theorem stored_deposit_verifies_witness:
  "\<exists>p a. prepare_deposit_recategorization id sample_deposit [js ''h''] deposit_staged (sample_deposit_snapshot id) (js ''r'') = Inr p
    \<and> map_deposit_snapshot id (stored_deposit (js ''1'') (JNum (Fin 0)) (dp_body p)) = Inr a
    \<and> deposit_token a = js ''1'' \<and> verify_deposit_result (dp_expected p) a = None"
proof -
  obtain p where p: "prepare_deposit_recategorization id sample_deposit [js ''h''] deposit_staged (sample_deposit_snapshot id) (js ''r'') = Inr p"
    "dp_body p = deposit_sent" "dexp_total_tax (dp_expected p) = Some 0"
    using deposit_prepared_sample [of id] by (simp add: deposit_prepared_write_def deposit_expected_base_def)
  obtain a where a: "map_deposit_snapshot id (stored_deposit (js ''1'') (JNum (Fin 0)) (dp_body p)) = Inr a"
    using deposit_stored_taken [of id] p(2) by auto
  have "list_all (\<lambda>l. normalized_clone (staged_memo l) = staged_memo l) (staged_lines deposit_staged)" by (simp add: deposit_staged_def)
  from stored_deposit_verifies [OF p(1) deposit_clone(2) this deposit_dollars(2) p(3) a] show ?thesis using p(1) a by blast
qed

end
