(* ===== verification/Spec2Isabelle.thy ===== *)
theory Spec2Isabelle
  imports LineWriteWitness WriteSafety EntityLease TransferWitness PurchaseWitness PostingWitness TaxWitness RateText ContentHash
    VerifyWitness DepositWitness
begin

text \<open>
  recat-qbo moves transactions that a company keeps in holding accounts of QuickBooks Online to
  their categories. This library models the parts of its server that decide what is written to
  the books, and proves what makes them right. Paths are relative to \<open>src/server/src\<close>.

  \<^bold>\<open>How the program works.\<close> Transactions are read from QuickBooks into a database. A user, a rule
  or a model stages a category and a sales tax for one; \<open>services/writeback.ts\<close> posts it: it takes
  a lease on the entity, reads the entity again, checks that the books are open on its date,
  prepares the body of an update from what it has read, sends it, and settles the database row.
  There are two ways to prepare a body: the line write (\<open>lib/qbo/lineWrite.ts\<close>) replaces holding
  lines of any entity by splits; the tax-aware preparation (\<open>lib/qbo/purchaseTax.ts\<close>,
  \<open>lib/qbo/depositTax.ts\<close>) also sets the sales tax, and is verified against a read-back
  (\<open>services/tax/verify.ts\<close>). Both have an undo. \<open>services/transferCandidates.ts\<close> finds pairs of
  transactions that are two sides of one transfer.

  \<^bold>\<open>JavaScript.\<close> Strings are lists of UTF-16 code units (\<open>JsText\<close>), dates are day numbers
  (\<open>JsDate\<close>). A finite number is the rational it denotes; every operation is the exact one followed
  by \<open>fl\<close>, the rounding to binary64 (\<open>JsNum\<close>), so that overflow to infinity, \<open>NaN\<close> and rounding
  are part of the model. \<open>Decimal\<close> and \<open>NumberText\<close> have the text of a number and its reading: seventeen
  digits determine a double. \<open>Json\<close> has JSON values, their canonical text and cleaning, \<open>JsonText\<close>
  and \<open>ContentHash\<close> show that the canonical text determines the value. \<open>Prelude\<close> has computations
  that may throw (\<open>'e + 'a\<close>), \<open>Calls\<close> the programs that call out: a tree of requests with a
  continuation for every reply; \<open>runs\<close> relates a program, its trace and its result.

  \<^bold>\<open>Line writes.\<close> \<open>LineWrite\<close> models \<open>lib/qbo/lineWrite.ts\<close>: validation of a provider entity,
  content hashes, \<open>prepareLineWrite\<close>, \<open>prepareLineWriteRestore\<close>, the check of a stored preparation and
  the interpretation of the provider's reply. The lemmas show that a preparation keeps the total
  and every field outside the holding lines, that it leaves no line in a holding account, that the
  hash of a stored body is the hash of the preparation, that an accepted reply is the body that was
  sent, and that a restore puts the lines back. \<open>WriteSafety\<close> models \<open>lib/qbo/writeSafety.ts\<close>:
  a write is allowed exactly when the date of the entity lies after the closing date.

  \<^bold>\<open>Leases.\<close> \<open>EntityLease\<close> models \<open>services/entityLease.ts\<close>, each database transaction as
  one step that reads the clock when it starts and may commit later. The locale of \<open>LeaseTable\<close> is
  the contract of such a table; its theorem, mutual exclusion over every interleaving, holds for
  the model by interpretation.

  \<^bold>\<open>Transfers.\<close> \<open>BankHeap\<close> is the binary heap of \<open>BankQueueIndex\<close>, \<open>TransferPairing\<close> the
  detection of \<open>services/transferCandidates.ts\<close> with its queues by bank and day; \<open>TransferProofs\<close>
  shows that the indexed search finds the earliest counterpart of the plain definition and that
  the pairing is symmetric, sound and maximal.

  \<^bold>\<open>Sales tax.\<close> \<open>TaxCalc\<close> is the calculator of \<open>lib/qbo/purchaseTax.ts\<close>, \<open>TaxInverse\<close> the
  reconstruction of net amounts from gross amounts by binary search. \<open>TaxProofs\<close> has the exactness
  of the splits to the cent, \<open>TaxUnique\<close> that a reconstruction is the only solution and that none
  is missed, \<open>RateText\<close> that the exact fraction of a rate is the rate, \<open>PurchaseLine\<close> the calculator
  of a single line.

  \<^bold>\<open>Purchases and deposits.\<close> \<open>PurchasePrep\<close> is the second half of \<open>lib/qbo/purchaseTax.ts\<close>: exact
  cents, fingerprints, snapshots, the checks of the staged lines, both preparations and both
  restores. \<open>DepositPrep\<close> is \<open>lib/qbo/depositTax.ts\<close>. \<open>PurchaseMoney\<close> shows which amounts survive
  the exact cents, \<open>PurchaseFields\<close> and \<open>PurchaseLines\<close> how updates and lines read back,
  \<open>PurchaseProofs\<close>, \<open>PurchaseRestore\<close> and \<open>DepositProofs\<close> that a preparation keeps the other lines
  and the cash and that a restore undoes it. \<open>Verify\<close> is \<open>services/tax/verify.ts\<close>; \<open>VerifyProofs\<close>
  shows what a verified purchase holds, and both proof theories that what was stored as sent is
  verified.

  \<^bold>\<open>Posting.\<close> \<open>Posting\<close> models the first half of \<open>services/writeback.ts\<close> over the calls of its
  database, its clock and the client of QuickBooks: \<open>postTransaction\<close>, \<open>undoTransaction\<close>, the
  settling of the row and the audit entries; \<open>PostingBulk\<close> has \<open>bulkPost\<close>. \<open>PostingWatch\<close> is an
  observer of the calls; \<open>PostingProofs\<close> and \<open>UndoProofs\<close> show over every reply of the environment
  that only a checked write of the entity just read is sent, at most once, and that the row and
  the result say what became of it. \<open>SplitCheck\<close> shows that the check of the splits on doubles
  decides what it should on cents.

  \<^bold>\<open>Bounds.\<close> Amounts of up to \<open>4 * 10 ^ 8\<close> cents are exact as dollars (\<open>money_roundtrip\<close>); sums in
  cents are exact below \<open>2 ^ 50\<close>, the bound the split check needs. Recursion is structural or has a
  measure; bulk posting of \<open>k\<close> rows ends after at most \<open>k + 19\<close> calls for every row. Where the code
  searches (the net total of a group) the model does the same binary search with its measure.

  \<^bold>\<open>Parameters.\<close> The digest of a text (SHA-256) is a function \<open>digest\<close>; what needs that it does not
  collide says so. The database and QuickBooks answer with any value of the type of the reply, or
  fail: theorems that need a behaviour of theirs (a body stored as it was sent) have it as a
  hypothesis. Raw entities are of the declared types where the code reads a property of a value
  it has not checked.

  \<^bold>\<open>Not modelled.\<close> The durable mutation attempts of the second half of \<open>services/writeback.ts\<close>, the
  execution of a transfer, the unattended mode (\<open>services/agent\<close>) and the tools for language models
  are orchestration over many tables; receipts and attachments, reports, synchronization,
  sign-in and settings are storage, queries and formatting; \<open>lib/qbo/real.ts\<close> is HTTP; \<open>src/client\<close>
  renders pages. Log output, the text of messages where no decision depends on it, and timers are
  left out of the modelled parts.
\<close>

end
